(* ===== verification/StateMachine.thy ===== *)
theory StateMachine
  imports Prelude
begin

text \<open>
  The backup state machine of \<^verbatim>\<open>pkg/state/state.go\<close>: one \<open>Machine\<close> per project, moved by
  \<open>Transition\<close> between fallow, monitoring, backing_up and error. The mutex makes each
  operation atomic, so an operation is a function from machine to machine. Clock readings and
  the jitter draw are arguments; \<^verbatim>\<open>time.Duration\<close> arithmetic is kept at 64 bits.
\<close>

section \<open>The machine\<close>

datatype State = StateFallow | StateMonitoring | StateBackingUp | StateError

text \<open>\<^verbatim>\<open>Event\<close> is a Go string type: a value other than the five constants is representable.\<close>

datatype Event =
    EventChurnDetected
  | EventTriggerBackup
  | EventBackupSuccess
  | EventBackupFail
  | EventClearError
  | EventOther string

record Machine =
  ProjectName :: string
  CurrentState :: State
  ErrorCount :: int
  LastActivity :: time
  NextRetryAt :: time

datatype TransitionError = InBackoff time | UnknownEvent string

text \<open>
  What one call reads from its environment: the clock where the event is handled, the clock
  when the change is recorded (a later reading), and the draw of \<^verbatim>\<open>rand.Intn(60)\<close>.
\<close>

record reading =
  r_now :: time
  r_done :: time
  r_intn :: int

definition state_string :: "State \<Rightarrow> string" where
  "state_string s = (case s of
      StateFallow \<Rightarrow> ''fallow'' | StateMonitoring \<Rightarrow> ''monitoring''
    | StateBackingUp \<Rightarrow> ''backing_up'' | StateError \<Rightarrow> ''error'')"

definition NewMachine :: "string \<Rightarrow> time \<Rightarrow> Machine" where
  "NewMachine projectName now =
     \<lparr>ProjectName = projectName, CurrentState = StateFallow, ErrorCount = 0,
      LastActivity = now, NextRetryAt = zero_time\<rparr>"

section \<open>Backoff arithmetic\<close>

text \<open>
  \<^verbatim>\<open>time.Duration(math.Pow(2, float64(n)))\<close>: powers up to \<open>2^62\<close> convert exactly; a float
  outside the int64 range converts to an implementation-dependent value, the argument \<open>f2i\<close>.
\<close>

definition pow2_duration :: "(int \<Rightarrow> duration) \<Rightarrow> int \<Rightarrow> duration" where
  "pow2_duration f2i n = (if n < 0 then 0 else if n \<le> 62 then 2 ^ nat n else f2i n)"

definition base_wait :: "(int \<Rightarrow> duration) \<Rightarrow> int \<Rightarrow> duration" where
  "base_wait f2i n =
     (let baseWait = word_of_int minute_ns * pow2_duration f2i n
      in if sint baseWait > hour_ns then word_of_int hour_ns else baseWait)"

definition retry_at :: "(int \<Rightarrow> duration) \<Rightarrow> reading \<Rightarrow> int \<Rightarrow> time" where
  "retry_at f2i rd n = r_now rd + sint (base_wait f2i n) + r_intn rd * second_ns"

section \<open>Operations\<close>

text \<open>The switch of \<^verbatim>\<open>Transition\<close>: the machine after the event's case, or the early error return.\<close>

fun handle_event :: "(int \<Rightarrow> duration) \<Rightarrow> reading \<Rightarrow> Event \<Rightarrow> Machine \<Rightarrow> TransitionError + Machine" where
  "handle_event f2i rd EventChurnDetected m =
     Inr (if CurrentState m = StateFallow then m\<lparr>CurrentState := StateMonitoring\<rparr> else m)"
| "handle_event f2i rd EventTriggerBackup m =
     (if CurrentState m = StateFallow \<or> CurrentState m = StateMonitoring \<or> CurrentState m = StateError
      then if CurrentState m = StateError \<and> r_now rd < NextRetryAt m
           then Inl (InBackoff (NextRetryAt m))
           else Inr (m\<lparr>CurrentState := StateBackingUp\<rparr>)
      else Inr m)"
| "handle_event f2i rd EventBackupSuccess m =
     Inr (if CurrentState m = StateBackingUp
          then m\<lparr>CurrentState := StateFallow, ErrorCount := 0, NextRetryAt := zero_time\<rparr>
          else m)"
| "handle_event f2i rd EventBackupFail m =
     Inr (if CurrentState m = StateBackingUp
          then m\<lparr>CurrentState := StateError, ErrorCount := ErrorCount m + 1,
                 NextRetryAt := retry_at f2i rd (ErrorCount m + 1)\<rparr>
          else m)"
| "handle_event f2i rd EventClearError m =
     Inr (if CurrentState m = StateError
          then m\<lparr>CurrentState := StateFallow, ErrorCount := 0, NextRetryAt := zero_time\<rparr>
          else m)"
| "handle_event f2i rd (EventOther s) m = Inl (UnknownEvent s)"

definition Transition ::
  "(int \<Rightarrow> duration) \<Rightarrow> reading \<Rightarrow> Event \<Rightarrow> Machine \<Rightarrow> Machine \<times> TransitionError option" where
  "Transition f2i rd e m =
     (case handle_event f2i rd e m of
        Inl err \<Rightarrow> (m, Some err)
      | Inr m' \<Rightarrow>
          (if CurrentState m \<noteq> CurrentState m' then m'\<lparr>LastActivity := r_done rd\<rparr> else m', None))"

definition GetState :: "Machine \<Rightarrow> State" where
  "GetState m = CurrentState m"

record Diagnostics =
  diag_state :: State
  diag_error_count :: int
  diag_last_activity :: time
  diag_next_retry :: time

definition GetDiagnostics :: "Machine \<Rightarrow> Diagnostics" where
  "GetDiagnostics m =
     \<lparr>diag_state = CurrentState m, diag_error_count = ErrorCount m,
      diag_last_activity = LastActivity m, diag_next_retry = NextRetryAt m\<rparr>"

definition CanRetry :: "time \<Rightarrow> Machine \<Rightarrow> bool" where
  "CanRetry now m = (if CurrentState m \<noteq> StateError then True else NextRetryAt m < now)"

definition WatchesForChurn :: "Machine \<Rightarrow> bool" where
  "WatchesForChurn m =
     (case GetState m of StateFallow \<Rightarrow> True | StateMonitoring \<Rightarrow> True | _ \<Rightarrow> False)"

text \<open>
  \<^verbatim>\<open>AdvanceOnChurn\<close> reads the state under the lock, releases it, and then calls
  \<open>Transition\<close>. The state read first is an argument, so an interleaved event between the two
  steps is representable; \<open>AdvanceOnChurn\<close> is the case with none.
\<close>

definition advance_from ::
  "State \<Rightarrow> (int \<Rightarrow> duration) \<Rightarrow> reading \<Rightarrow> Machine \<Rightarrow> Machine \<times> TransitionError option" where
  "advance_from seen f2i rd m =
     (case seen of
        StateFallow \<Rightarrow> Transition f2i rd EventChurnDetected m
      | StateMonitoring \<Rightarrow> Transition f2i rd EventTriggerBackup m
      | _ \<Rightarrow> (m, None))"

definition AdvanceOnChurn ::
  "(int \<Rightarrow> duration) \<Rightarrow> reading \<Rightarrow> Machine \<Rightarrow> Machine \<times> TransitionError option" where
  "AdvanceOnChurn f2i rd m = advance_from (GetState m) f2i rd m"

section \<open>Invariant and reachable machines\<close>

text \<open>
  What the fields keep between them: a quiet machine carries no failure history, and a machine
  in error has failed at least once.
\<close>

definition machine_ok :: "Machine \<Rightarrow> bool" where
  "machine_ok m \<longleftrightarrow>
     0 \<le> ErrorCount m \<and>
     (CurrentState m = StateFallow \<or> CurrentState m = StateMonitoring \<longrightarrow>
        ErrorCount m = 0 \<and> NextRetryAt m = zero_time) \<and>
     (CurrentState m = StateError \<longrightarrow> 1 \<le> ErrorCount m)"

definition machine_start :: "Machine \<Rightarrow> bool" where
  "machine_start m \<longleftrightarrow> (\<exists>name now. m = NewMachine name now)"

inductive machine_step :: "(int \<Rightarrow> duration) \<Rightarrow> Machine \<Rightarrow> Machine \<Rightarrow> bool"
  for f2i :: "int \<Rightarrow> duration" where
  mstep: "machine_step f2i m (fst (Transition f2i rd e m))"

inductive_cases machine_stepE: "machine_step f2i m m'"

lemma Transition_cases:
  obtains (err) er where "handle_event f2i rd e m = Inl er" "Transition f2i rd e m = (m, Some er)"
  | (ok) m' where "handle_event f2i rd e m = Inr m'"
      "Transition f2i rd e m =
         ((if CurrentState m \<noteq> CurrentState m' then m'\<lparr>LastActivity := r_done rd\<rparr> else m'), None)"
  by (cases "handle_event f2i rd e m") (auto simp: Transition_def)

lemma handle_event_ok: "machine_ok m \<Longrightarrow> handle_event f2i rd e m = Inr m' \<Longrightarrow> machine_ok m'"
  by (cases e) (auto simp: machine_ok_def split: if_splits)

lemma NewMachine_ok: "machine_ok (NewMachine name now)"
  by (simp add: machine_ok_def NewMachine_def)

lemma machine_ok_activity [simp]: "machine_ok (m\<lparr>LastActivity := t\<rparr>) = machine_ok m"
  by (simp add: machine_ok_def)

lemma Transition_ok [wf_intros]: "machine_ok m \<Longrightarrow> machine_ok (fst (Transition f2i rd e m))"
  by (rule Transition_cases [of f2i rd e m]) (auto dest: handle_event_ok)

lemma advance_from_ok [wf_intros]: "machine_ok m \<Longrightarrow> machine_ok (fst (advance_from s f2i rd m))"
  by (cases s) (simp_all add: advance_from_def Transition_ok)

interpretation machine_sys: invariant_system machine_start "machine_step f2i" machine_ok for f2i
  by unfold_locales (auto simp: machine_start_def NewMachine_ok Transition_ok elim: machine_stepE)

lemma Transition_frame [simp]: "ProjectName (fst (Transition f2i rd e m)) = ProjectName m"
  by (cases e) (auto simp: Transition_def)

section \<open>The documented automaton\<close>

text \<open>
  The arrows of the state diagram (README.md, docs/architecture.md), as a relation on
  states labelled with the event. \<open>TriggerBackup\<close> is accepted from fallow as well: the manual poke.
\<close>

inductive legal_move :: "State \<Rightarrow> Event \<Rightarrow> State \<Rightarrow> bool" where
  churn: "legal_move StateFallow EventChurnDetected StateMonitoring"
| poke: "legal_move StateFallow EventTriggerBackup StateBackingUp"
| trigger: "legal_move StateMonitoring EventTriggerBackup StateBackingUp"
| retry: "legal_move StateError EventTriggerBackup StateBackingUp"
| archived: "legal_move StateBackingUp EventBackupSuccess StateFallow"
| failed: "legal_move StateBackingUp EventBackupFail StateError"
| cleared: "legal_move StateError EventClearError StateFallow"

inductive_simps legal_move_iff: "legal_move s e t"

lemma handle_event_legal:
  "handle_event f2i rd e m = Inr m' \<Longrightarrow>
   m' = m \<and> (\<nexists>t. legal_move (CurrentState m) e t) \<or> legal_move (CurrentState m) e (CurrentState m')"
  by (cases e; cases "CurrentState m") (auto simp: legal_move_iff split: if_splits)

lemma legal_move_irrefl: "legal_move s e t \<Longrightarrow> s \<noteq> t"
  by (auto simp: legal_move_iff)

lemma sint_minutes:
  assumes "0 \<le> n" and "n \<le> 27"
  shows "sint (word_of_int minute_ns * pow2_duration f2i n :: duration) = minute_ns * 2 ^ nat n"
proof -
  have "(2::int) ^ nat n \<le> 2 ^ 27"
    using assms by (intro power_increasing) auto
  then have upper: "(2::int) ^ nat n \<le> 134217728" by simp
  have lower: "(0::int) < 2 ^ nat n" by simp
  have "- 9223372036854775808 \<le> minute_ns * 2 ^ nat n"
    and "minute_ns * 2 ^ nat n < 9223372036854775808"
    using upper lower by linarith+
  then have "signed_take_bit 63 (minute_ns * 2 ^ nat n) = minute_ns * 2 ^ nat n"
    by (intro signed_take_bit_int_eq_self) simp_all
  moreover have "word_of_int minute_ns * pow2_duration f2i n = (word_of_int (minute_ns * 2 ^ nat n) :: duration)"
    using assms by (simp add: pow2_duration_def)
  ultimately show ?thesis
    by (simp only: sint_sbintrunc') simp
qed

lemma sint_base_wait:
  assumes "0 \<le> n" and "n \<le> 27"
  shows "sint (base_wait f2i n) = min (minute_ns * 2 ^ nat n) hour_ns"
  using sint_minutes [OF assms, of f2i] by (auto simp: base_wait_def Let_def min_def)

lemma base_wait_zero:
  assumes "53 \<le> n" and "n \<le> 62"
  shows "base_wait f2i n = 0"
proof -
  from assms have "nat n = 53 + nat (n - 53)" by simp
  then have "(2::duration) ^ nat n = 2 ^ 53 * 2 ^ nat (n - 53)"
    by (simp only: power_add)
  then have "(word_of_int minute_ns :: duration) * 2 ^ nat n
      = (word_of_int minute_ns * 2 ^ 53) * 2 ^ nat (n - 53)"
    by (simp only: mult.assoc)
  also have "(word_of_int minute_ns :: duration) * 2 ^ 53 = 0"
    by simp
  finally have "(word_of_int minute_ns :: duration) * pow2_duration f2i n = 0"
    using assms by (simp add: pow2_duration_def)
  then show ?thesis by (simp add: base_wait_def)
qed

lemma machine_reach_step:
  "reachable machine_start (machine_step f2i) m \<Longrightarrow>
   reachable machine_start (machine_step f2i) (fst (Transition f2i rd e m))"
  by (erule reach_step) (rule mstep)

section \<open>Properties\<close>

text \<open>
  C6: every accepted \<open>Transition\<close> either follows an arrow of the documented automaton for its
  event, or leaves the whole machine as it was because the automaton has no arrow for
  that event; a rejected one (backoff, unknown event) leaves the whole machine as it was.
\<close>

theorem transition_follows_automaton:
  "case Transition f2i rd e m of
     (m', None) \<Rightarrow> (if \<exists>t. legal_move (CurrentState m) e t
                    then legal_move (CurrentState m) e (CurrentState m') else m' = m)
   | (m', Some (InBackoff t)) \<Rightarrow> m' = m \<and> e = EventTriggerBackup \<and>
                    CurrentState m = StateError \<and> t = NextRetryAt m \<and> r_now rd < t
   | (m', Some (UnknownEvent s)) \<Rightarrow> m' = m \<and> e = EventOther s"
proof (cases rule: Transition_cases [of f2i rd e m])
  case (err er)
  then show ?thesis
    by (cases e) (auto split: if_splits)
next
  case (ok m')
  from handle_event_legal [OF ok(1)] show ?thesis
    using legal_move_irrefl by (auto simp: ok(2))
qed

text \<open>
  in every machine reachable from \<open>NewMachine\<close> by any sequence of events, a fallow or monitoring
  machine has no failure count and no pending retry time, a machine in error has at least one
  failure, and the count is never negative.
\<close>

theorem reachable_machine_consistent:
  assumes "reachable machine_start (machine_step f2i) m"
  shows "0 \<le> ErrorCount m
    \<and> (CurrentState m \<in> {StateFallow, StateMonitoring} \<longrightarrow> ErrorCount m = 0 \<and> NextRetryAt m = zero_time)
    \<and> (CurrentState m = StateError \<longrightarrow> 1 \<le> ErrorCount m)"
  using machine_sys.reachable_inv [OF assms] by (auto simp: machine_ok_def)

definition failing_run :: "Machine" where
  "failing_run =
     fst (Transition (\<lambda>_. 0) \<lparr>r_now = 10, r_done = 11, r_intn = 5\<rparr> EventBackupFail
       (fst (Transition (\<lambda>_. 0) \<lparr>r_now = 8, r_done = 9, r_intn = 0\<rparr> EventTriggerBackup
         (NewMachine ''paling'' 7))))"

lemma failing_run_value:
  "failing_run = \<lparr>ProjectName = ''paling'', CurrentState = StateError, ErrorCount = 1,
     LastActivity = 11, NextRetryAt = 125000000010\<rparr>"
  by (simp add: failing_run_def Transition_def NewMachine_def retry_at_def base_wait_def pow2_duration_def)

lemma failing_run_reachable: "reachable machine_start (machine_step (\<lambda>_. 0)) failing_run"
  unfolding failing_run_def
  by (intro machine_reach_step reach_start) (auto simp: machine_start_def)

theorem reachable_machine_consistent_witness:
  "CurrentState failing_run = StateError \<and> 1 \<le> ErrorCount failing_run"
  using reachable_machine_consistent [OF failing_run_reachable] by (simp add: failing_run_value)

text \<open>
  C28: while fewer than 28 failures have happened in a row, a failed backup sets the next retry to
  two, four, eight, ... minutes ahead, capped at one hour, plus the jitter; before that instant
  a trigger is refused and changes nothing, and \<open>CanRetry\<close> denies the retry.
\<close>

theorem backoff_window:
  assumes "CurrentState m = StateBackingUp" and "0 \<le> ErrorCount m" and "ErrorCount m \<le> 26"
    and "0 \<le> r_intn rd" and "r_intn rd < 60"
    and m': "m' = fst (Transition f2i rd EventBackupFail m)"
  shows "NextRetryAt m' - r_now rd =
           min (minute_ns * 2 ^ nat (ErrorCount m + 1)) hour_ns + r_intn rd * second_ns
    \<and> 2 * minute_ns \<le> NextRetryAt m' - r_now rd
    \<and> NextRetryAt m' - r_now rd < hour_ns + minute_ns
    \<and> (\<forall>rd2. r_now rd2 < NextRetryAt m' \<longrightarrow>
           Transition f2i rd2 EventTriggerBackup m' = (m', Some (InBackoff (NextRetryAt m')))
           \<and> \<not> CanRetry (r_now rd2) m')"
proof -
  have st: "CurrentState m' = StateError"
    and next_at: "NextRetryAt m' = retry_at f2i rd (ErrorCount m + 1)"
    using assms(1) by (simp_all add: m' Transition_def)
  have wait: "NextRetryAt m' - r_now rd =
      min (minute_ns * 2 ^ nat (ErrorCount m + 1)) hour_ns + r_intn rd * second_ns"
    using assms(2,3) by (simp add: next_at retry_at_def sint_base_wait)
  have "(2::int) ^ 1 \<le> 2 ^ nat (ErrorCount m + 1)"
    using assms(2) by (intro power_increasing) auto
  then have "2 * minute_ns \<le> min (minute_ns * 2 ^ nat (ErrorCount m + 1)) hour_ns"
    by simp
  then have lower: "2 * minute_ns \<le> NextRetryAt m' - r_now rd"
    using wait assms(4) by simp
  have upper: "NextRetryAt m' - r_now rd < hour_ns + minute_ns"
    using wait assms(5) by simp
  have "\<forall>rd2. r_now rd2 < NextRetryAt m' \<longrightarrow>
      Transition f2i rd2 EventTriggerBackup m' = (m', Some (InBackoff (NextRetryAt m')))
      \<and> \<not> CanRetry (r_now rd2) m'"
    using st by (simp add: Transition_def CanRetry_def)
  with wait lower upper show ?thesis by blast
qed

definition busy_machine :: "int \<Rightarrow> Machine" where
  "busy_machine n = \<lparr>ProjectName = ''paling'', CurrentState = StateBackingUp, ErrorCount = n,
     LastActivity = 0, NextRetryAt = 0\<rparr>"

abbreviation fixed_reading :: "reading" where
  "fixed_reading \<equiv> \<lparr>r_now = 1000, r_done = 1001, r_intn = 30\<rparr>"

theorem backoff_window_witness:
  "NextRetryAt (fst (Transition (\<lambda>_. 0) fixed_reading EventBackupFail (busy_machine 2))) - 1000
     = 8 * minute_ns + 30 * second_ns"
  using backoff_window [of "busy_machine 2" fixed_reading, OF _ _ _ _ _ refl, of "\<lambda>_. 0"]
  by (simp add: busy_machine_def)

text \<open>
  the 28th failure in a row ends the backoff: the 64-bit product of a minute and \<open>2^28\<close> wraps to a
  negative duration, the cap does not see it, and the next retry lies in the past, so the
  retry is allowed at once whatever the jitter. From the 53rd to the 62nd failure the product is zero.
\<close>

theorem backoff_overflow:
  assumes "CurrentState m = StateBackingUp" and "ErrorCount m = 27" and "r_intn rd < 60"
    and m': "m' = fst (Transition f2i rd EventBackupFail m)"
  shows "ErrorCount m' = 28 \<and> NextRetryAt m' < r_now rd \<and> CanRetry (r_now rd) m'
    \<and> (\<forall>n. 53 \<le> n \<and> n \<le> 62 \<longrightarrow> base_wait f2i n = 0)"
proof -
  have "pow2_duration f2i 28 = 268435456"
    by (simp add: pow2_duration_def)
  then have wait: "sint (base_wait f2i 28) = - 2340616713709551616"
    by (simp add: base_wait_def)
  have cnt: "ErrorCount m' = 28"
    using assms(1,2) by (simp add: m' Transition_def)
  have past: "NextRetryAt m' < r_now rd"
    using assms(1-3) wait by (simp add: m' Transition_def retry_at_def)
  have "\<forall>n. 53 \<le> n \<and> n \<le> 62 \<longrightarrow> base_wait f2i n = 0"
    by (simp add: base_wait_zero)
  with cnt past show ?thesis
    by (simp add: CanRetry_def)
qed

theorem backoff_overflow_witness:
  "CanRetry 1000 (fst (Transition (\<lambda>_. 0) fixed_reading EventBackupFail (busy_machine 27)))"
  using backoff_overflow [of "busy_machine 27" fixed_reading, OF _ _ _ refl, of "\<lambda>_. 0"]
  by (simp add: busy_machine_def)

end
