(* ===== verification/Paths.thy ===== *)
theory Paths
  imports Prelude
begin

text \<open>
  Go's \<^verbatim>\<open>path/filepath\<close> on Unix, as far as the daemon uses it: \<open>Clean\<close>, \<open>Join\<close>, \<open>Base\<close>,
  \<open>Dir\<close> and \<open>Ext\<close>, and the daemon's own expansion of a leading tilde
  (\<^verbatim>\<open>expandHome\<close>, which \<^verbatim>\<open>config\<close> and \<^verbatim>\<open>pkg/gitstate\<close> each hold a copy of).
\<close>

section \<open>filepath\<close>

fun splitOn :: "char \<Rightarrow> string \<Rightarrow> string list" where
  "splitOn c [] = [[]]"
| "splitOn c (x # xs) =
     (if x = c then [] # splitOn c xs
      else case splitOn c xs of [] \<Rightarrow> [[x]] | p # ps \<Rightarrow> (x # p) # ps)"

text \<open>The element loop of \<open>Clean\<close>; \<open>acc\<close> is the output so far, last element first.\<close>

fun clean_elems :: "bool \<Rightarrow> string list \<Rightarrow> string list \<Rightarrow> string list" where
  "clean_elems rooted acc [] = rev acc"
| "clean_elems rooted acc (e # es) =
     (if e = [] \<or> e = ''.'' then clean_elems rooted acc es
      else if e = ''..'' then
        (case acc of
           [] \<Rightarrow> clean_elems rooted (if rooted then [] else [e]) es
         | a # acc' \<Rightarrow> if a = ''..'' then clean_elems rooted (e # acc) es
                      else clean_elems rooted acc' es)
      else clean_elems rooted (e # acc) es)"

definition fp_clean :: "string \<Rightarrow> string" where
  "fp_clean p =
     (if p = [] then ''.''
      else let rooted = (hd p = CHR ''/'');
               s = joinWith ''/'' (clean_elems rooted [] (splitOn (CHR ''/'') p))
           in if rooted then CHR ''/'' # s else if s = [] then ''.'' else s)"

definition fp_join :: "string list \<Rightarrow> string" where
  "fp_join es =
     (case dropWhile (\<lambda>e. e = []) es of [] \<Rightarrow> [] | e # es' \<Rightarrow> fp_clean (joinWith ''/'' (e # es')))"

definition after_last_slash :: "string \<Rightarrow> string" where
  "after_last_slash p = rev (takeWhile (\<lambda>c. c \<noteq> CHR ''/'') (rev p))"

definition fp_base :: "string \<Rightarrow> string" where
  "fp_base p =
     (if p = [] then ''.''
      else let q = trimRightChar (CHR ''/'') p in if q = [] then ''/'' else after_last_slash q)"

definition fp_dir :: "string \<Rightarrow> string" where
  "fp_dir p = fp_clean (take (length p - length (after_last_slash p)) p)"

definition fp_ext :: "string \<Rightarrow> string" where
  "fp_ext p =
     (let q = after_last_slash p
      in if CHR ''.'' \<in> set q then CHR ''.'' # rev (takeWhile (\<lambda>c. c \<noteq> CHR ''.'') (rev q)) else [])"

text \<open>A name a directory entry can have.\<close>

definition name_ok :: "string \<Rightarrow> bool" where
  "name_ok n \<longleftrightarrow> n \<notin> {[], ''.'', ''..''} \<and> CHR ''/'' \<notin> set n"

section \<open>expandHome\<close>

text \<open>\<open>home\<close> is the answer of \<^verbatim>\<open>os.UserHomeDir\<close>; \<open>None\<close> is its error.\<close>

definition expandHome :: "string option \<Rightarrow> string \<Rightarrow> string" where
  "expandHome home path =
     (if path = ''~'' \<or> hasPrefix path ''~/''
      then (case home of Some h \<Rightarrow> fp_join [h, trimPrefix path ''~''] | None \<Rightarrow> path)
      else path)"

section \<open>Facts\<close>

lemma splitOn_nonempty [simp]: "splitOn c s \<noteq> []"
  by (induction s) (auto split: list.splits)

lemma splitOn_no_sep: "p \<in> set (splitOn c s) \<Longrightarrow> c \<notin> set p"
proof (induction s arbitrary: p)
  case (Cons x xs)
  then show ?case
    by (cases "splitOn c xs") (auto split: if_splits)
qed simp

lemma fp_clean_nonempty [simp]: "fp_clean p \<noteq> []"
  by (simp add: fp_clean_def Let_def)

lemma fp_clean_rooted: "p \<noteq> [] \<Longrightarrow> hd p = CHR ''/'' \<Longrightarrow> hd (fp_clean p) = CHR ''/''"
  by (simp add: fp_clean_def)

lemma fp_join_rooted:
  assumes "h \<noteq> []" and "hd h = CHR ''/''"
  shows "fp_join (h # es) \<noteq> [] \<and> hd (fp_join (h # es)) = CHR ''/''"
proof -
  have "joinWith ''/'' (h # es) \<noteq> []" and "hd (joinWith ''/'' (h # es)) = CHR ''/''"
    using assms by (cases es; simp)+
  with assms show ?thesis
    by (simp add: fp_join_def fp_clean_rooted)
qed

lemma expandHome_rooted: "p \<noteq> [] \<Longrightarrow> hd p = CHR ''/'' \<Longrightarrow> expandHome home p = p"
  by (cases p) (auto simp: expandHome_def hasPrefix_def)

lemma expandHome_idem:
  assumes "\<forall>h. home = Some h \<longrightarrow> h \<noteq> [] \<and> hd h = CHR ''/''"
  shows "expandHome home (expandHome home p) = expandHome home p"
proof (cases "(p = ''~'' \<or> hasPrefix p ''~/'') \<and> home \<noteq> None")
  case True
  then obtain h where h: "home = Some h" by auto
  with True have "expandHome home p = fp_join [h, trimPrefix p ''~'']"
    by (simp add: expandHome_def)
  with h assms show ?thesis
    using fp_join_rooted [of h "[trimPrefix p ''~'']"] by (simp add: expandHome_rooted)
next
  case False
  then have "expandHome home p = p"
    by (auto simp: expandHome_def)
  then show ?thesis by simp
qed

lemma after_last_slash_no_slash [simp]: "CHR ''/'' \<notin> set (after_last_slash p)"
  by (auto simp: after_last_slash_def dest: set_takeWhileD)

lemma after_last_slash_append:
  "CHR ''/'' \<notin> set n \<Longrightarrow> after_last_slash (d @ CHR ''/'' # n) = n"
  by (simp add: after_last_slash_def takeWhile_neq_append)

lemma after_last_slash_plain: "CHR ''/'' \<notin> set n \<Longrightarrow> after_last_slash n = n"
  by (simp add: after_last_slash_def takeWhile_neq_all)

section \<open>Clean paths\<close>

text \<open>
  The elements \<open>Clean\<close> leaves: leading dot-dots (none in a rooted path), then plain names. A clean path is
  rendered from such a list, cleaning it again gives the same path, and joining a plain
  name to it is undone by \<open>Dir\<close> and \<open>Base\<close>.
\<close>

definition canon :: "bool \<Rightarrow> string list \<Rightarrow> bool" where
  "canon r E \<longleftrightarrow> (\<exists>k ps. E = replicate k ''..'' @ ps \<and> (\<forall>p \<in> set ps. name_ok p) \<and> (r \<longrightarrow> k = 0))"

definition render :: "bool \<Rightarrow> string list \<Rightarrow> string" where
  "render r E = (if r then CHR ''/'' # joinWith ''/'' E else if E = [] then ''.'' else joinWith ''/'' E)"

lemma splitOn_append: "splitOn c (a @ c # b) = splitOn c a @ splitOn c b"
  by (induction a) (auto split: list.splits)

lemma splitOn_plain: "c \<notin> set n \<Longrightarrow> splitOn c n = [n]"
  by (induction n) auto

lemma splitOn_join:
  "es \<noteq> [] \<Longrightarrow> \<forall>e \<in> set es. c \<notin> set e \<Longrightarrow> splitOn c (joinWith [c] es) = es"
  by (induction "[c]" es rule: joinWith.induct) (auto simp: splitOn_plain splitOn_append)

lemma joinWith_snoc: "joinWith s (es @ [n]) = (if es = [] then n else joinWith s es @ s @ n)"
  by (induction s es rule: joinWith.induct) auto

lemma joinWith_Nil_iff: "\<forall>e \<in> set es. e \<noteq> [] \<Longrightarrow> joinWith s es = [] \<longleftrightarrow> es = []"
  by (induction s es rule: joinWith.induct) auto

lemma clean_elems_snoc: "name_ok n \<Longrightarrow> clean_elems r acc (es @ [n]) = clean_elems r acc es @ [n]"
  by (induction r acc es rule: clean_elems.induct) (auto simp: name_ok_def split: list.split)

lemma clean_elems_snoc_Nil: "clean_elems r acc (es @ [[]]) = clean_elems r acc es"
  by (induction r acc es rule: clean_elems.induct) (auto split: list.split)

lemma clean_elems_plain: "\<forall>p \<in> set ps. name_ok p \<Longrightarrow> clean_elems r acc ps = rev acc @ ps"
  by (induction ps arbitrary: acc) (auto simp: name_ok_def)

lemma clean_elems_dotdots:
  "\<forall>p \<in> set ps. name_ok p \<Longrightarrow>
   clean_elems False (replicate i ''..'') (replicate k ''..'' @ ps) = replicate (i + k) ''..'' @ ps"
proof (induction k arbitrary: i)
  case 0
  then show ?case by (simp add: clean_elems_plain)
next
  case (Suc k)
  from Suc.IH [OF Suc.prems, of "Suc i"] show ?case
    by (cases i) (simp_all add: replicate_app_Cons_same)
qed

lemma clean_elems_canon: "canon r E \<Longrightarrow> clean_elems r [] E = E"
  using clean_elems_dotdots [of _ 0] by (cases r) (auto simp: canon_def clean_elems_plain)

lemma canon_Nil [simp]: "canon r []"
  by (simp add: canon_def)

lemma canon_snoc: "name_ok e \<Longrightarrow> canon r E \<Longrightarrow> canon r (E @ [e])"
proof -
  assume e: "name_ok e" and "canon r E"
  then obtain k ps where "E = replicate k ''..'' @ ps" "\<forall>p \<in> set ps. name_ok p" "r \<longrightarrow> k = 0"
    unfolding canon_def by blast
  with e have "E @ [e] = replicate k ''..'' @ (ps @ [e])" "\<forall>p \<in> set (ps @ [e]). name_ok p" "r \<longrightarrow> k = 0"
    by simp_all
  then show ?thesis unfolding canon_def by blast
qed

lemma canon_snocE:
  assumes "canon r (E @ [a])"
  shows "name_ok a \<and> canon r E \<or> a = ''..'' \<and> \<not> r \<and> (\<exists>k. E = replicate k ''..'')"
proof -
  from assms obtain k ps where E: "E @ [a] = replicate k ''..'' @ ps"
    and ok: "\<forall>p \<in> set ps. name_ok p" and r: "r \<longrightarrow> k = 0"
    by (auto simp: canon_def)
  show ?thesis
  proof (cases ps rule: rev_cases)
    case Nil
    with E obtain j where "k = Suc j" by (cases k) auto
    moreover from this have "replicate k ''..'' = replicate j ''..'' @ [''..'']"
      by (simp add: replicate_append_same)
    ultimately show ?thesis using E Nil r by simp
  next
    case (snoc qs q)
    with E have "E = replicate k ''..'' @ qs" and "a = q" by simp_all
    with ok r snoc show ?thesis by (auto simp: canon_def)
  qed
qed

lemma canon_dotdots [simp]: "canon False (replicate k ''..'')"
  unfolding canon_def by (intro exI [of _ k] exI [of _ "[]"]) simp

lemma canon_clean:
  assumes "canon r (rev acc)" and "\<forall>e \<in> set es. CHR ''/'' \<notin> set e"
  shows "canon r (clean_elems r acc es)"
  using assms
proof (induction r acc es rule: clean_elems.induct)
  case (2 r acc e es)
  consider "e = [] \<or> e = ''.''" | "e = ''..''" "acc = []" | a as where "e = ''..''" "acc = a # as" | "name_ok e"
    using "2.prems"(2) by (cases acc) (auto simp: name_ok_def)
  then show ?case
  proof cases
    case 2
    with "2.IH" "2.prems" canon_dotdots [of 1] show ?thesis by (cases r) simp_all
  next
    case (3 a as)
    with "2.prems"(1) have "name_ok a \<and> canon r (rev as) \<or>
        a = ''..'' \<and> \<not> r \<and> (\<exists>k. rev as = replicate k ''..'')"
      by (simp add: canon_snocE)
    moreover have "canon False ((replicate k ''..'' @ [''..'']) @ [''..''])" for k
      using canon_dotdots [of "Suc (Suc k)"] by (simp add: replicate_append_same)
    ultimately show ?thesis
      using "2.IH" "2.prems"(2) 3 by (auto simp: name_ok_def)
  next
    case 4
    with "2.IH" "2.prems" canon_snoc [of e r "rev acc"] show ?thesis
      by (auto simp: name_ok_def)
  qed (use "2.IH" "2.prems" in auto)
qed simp

lemma canon_no_slash: "canon r E \<Longrightarrow> e \<in> set E \<Longrightarrow> e \<noteq> [] \<and> CHR ''/'' \<notin> set e"
proof -
  assume "canon r E" and "e \<in> set E"
  then have "name_ok e \<or> e = ''..''" by (auto simp: canon_def in_set_replicate)
  then show ?thesis by (elim disjE) (simp_all add: name_ok_def)
qed

lemma fp_clean_eq:
  assumes "p \<noteq> []" and "(hd p = CHR ''/'') = r" and "clean_elems r [] (splitOn (CHR ''/'') p) = E"
  shows "canon r E \<and> fp_clean p = render r E"
proof -
  have E: "canon r E"
    unfolding assms(3) [symmetric] by (rule canon_clean) (auto dest: splitOn_no_sep)
  then have "joinWith ''/'' E = [] \<longleftrightarrow> E = []"
    by (intro joinWith_Nil_iff) (auto dest: canon_no_slash)
  with E show ?thesis
    unfolding fp_clean_def Let_def render_def assms(2,3) using assms(1) by simp
qed

lemma fp_clean_render: "\<exists>r E. canon r E \<and> fp_clean p = render r E"
proof (cases "p = []")
  case True
  then show ?thesis
    by (intro exI [of _ False] exI [of _ "[]"]) (simp add: fp_clean_def render_def)
qed (use fp_clean_eq [OF _ refl refl] in blast)

lemma render_split:
  assumes "canon r E"
  shows "render r E \<noteq> []" and "(hd (render r E) = CHR ''/'') = r"
    and "clean_elems r [] (splitOn (CHR ''/'') (render r E)) = E"
proof -
  have slash: "\<forall>e \<in> set E. CHR ''/'' \<notin> set e" and ne: "\<forall>e \<in> set E. e \<noteq> []"
    using canon_no_slash [OF assms] by auto
  show "render r E \<noteq> []"
    using joinWith_Nil_iff [OF ne] by (auto simp: render_def)
  show "(hd (render r E) = CHR ''/'') = r"
  proof (cases E)
    case (Cons x xs)
    with slash ne have x: "x \<noteq> []" "CHR ''/'' \<notin> set x" by simp_all
    then have "hd x \<noteq> CHR ''/''" using hd_in_set by metis
    with Cons x show ?thesis by (cases xs) (simp_all add: render_def)
  qed (simp add: render_def)
  show "clean_elems r [] (splitOn (CHR ''/'') (render r E)) = E"
    using clean_elems_canon [OF assms] splitOn_join [OF _ slash]
    by (cases "E = []") (auto simp: render_def)
qed

lemma fp_clean_idem [simp]: "fp_clean (fp_clean p) = fp_clean p"
  using fp_clean_render [of p] fp_clean_eq [OF render_split] by auto

lemma fp_clean_snoc:
  assumes "canon r E" and "name_ok n"
  shows "fp_clean (render r E @ CHR ''/'' # n) = render r (E @ [n])"
    and "fp_clean (render r E @ ''/'') = render r E"
proof -
  note R = render_split [OF assms(1)]
  have n: "splitOn (CHR ''/'') n = [n]" using assms(2) by (simp add: splitOn_plain name_ok_def)
  have "clean_elems r [] (splitOn (CHR ''/'') (render r E @ CHR ''/'' # n)) = E @ [n]"
    using R(3) assms(2) by (simp add: splitOn_append n clean_elems_snoc)
  with R show "fp_clean (render r E @ CHR ''/'' # n) = render r (E @ [n])"
    by (intro fp_clean_eq [THEN conjunct2]) (auto simp: hd_append)
  have "clean_elems r [] (splitOn (CHR ''/'') (render r E @ ''/'')) = E"
    using R(3) by (simp add: splitOn_append clean_elems_snoc_Nil)
  with R show "fp_clean (render r E @ ''/'') = render r E"
    by (intro fp_clean_eq [THEN conjunct2]) (auto simp: hd_append)
qed

lemma join_name:
  assumes "name_ok n"
  shows "fp_dir (fp_join [fp_clean d, n]) = fp_clean d" and "fp_base (fp_join [fp_clean d, n]) = n"
proof -
  obtain r E where E: "canon r E" "fp_clean d = render r E" using fp_clean_render by blast
  have j: "fp_join [fp_clean d, n] = render r (E @ [n])"
    using fp_clean_snoc(1) [OF E(1) assms] render_split(1) [OF E(1)] by (simp add: fp_join_def E(2))
  have n: "CHR ''/'' \<notin> set n" "n \<noteq> []" using assms by (auto simp: name_ok_def)
  define pre where "pre = (if E = [] then if r then ''/'' else [] else render r E @ ''/'')"
  have split: "render r (E @ [n]) = pre @ n" and pre: "pre = [] \<or> last pre = CHR ''/''"
    by (auto simp: pre_def render_def joinWith_snoc)
  have als: "after_last_slash (pre @ n) = n"
    using pre after_last_slash_append [OF n(1), of "butlast pre"] after_last_slash_plain [OF n(1)]
    by (cases pre rule: rev_cases) auto
  have "fp_clean pre = render r E"
    using fp_clean_snoc(2) [OF E(1) assms] by (auto simp: pre_def render_def fp_clean_def)
  then show "fp_dir (fp_join [fp_clean d, n]) = fp_clean d"
    unfolding j split fp_dir_def als by (simp add: E(2))
  have "trimRightChar (CHR ''/'') (pre @ n) = pre @ n"
    using n by (cases n rule: rev_cases) (auto simp: trimRightChar_def)
  then show "fp_base (fp_join [fp_clean d, n]) = n"
    unfolding j split fp_base_def Let_def using n by (simp add: als)
qed

lemma join_name_clean:
  assumes "name_ok n" and "fp_clean d = d"
  shows "fp_dir (fp_join [d, n]) = d" and "fp_base (fp_join [d, n]) = n"
  using join_name [OF assms(1), of d] assms(2) by simp_all

lemma fp_join_clean:
  assumes "name_ok n"
  shows "fp_join [fp_clean d, n] = fp_join [d, n]"
proof (cases "d = []")
  case True
  then show ?thesis
    using assms fp_clean_eq [of "CHR ''.'' # CHR ''/'' # n" False "[n]"] fp_clean_eq [of n False "[n]"] splitOn_append [of "CHR ''/''" "''.''" n]
    by (cases n) (auto simp: fp_join_def fp_clean_def [of "[]"] splitOn_plain name_ok_def)
next
  case False
  define r E where "r = (hd d = CHR ''/'')" and "E = clean_elems r [] (splitOn (CHR ''/'') d)"
  have E: "canon r E" "fp_clean d = render r E" using fp_clean_eq [OF False, of r E] by (simp_all add: r_def E_def)
  have n: "splitOn (CHR ''/'') n = [n]" using assms by (simp add: splitOn_plain name_ok_def)
  have "clean_elems r [] (splitOn (CHR ''/'') (d @ CHR ''/'' # n)) = E @ [n]"
    using assms by (simp add: splitOn_append n clean_elems_snoc E_def)
  then have "fp_clean (d @ CHR ''/'' # n) = render r (E @ [n])"
    using fp_clean_eq [of "d @ CHR ''/'' # n" r "E @ [n]"] False by (simp add: r_def)
  moreover have "fp_clean (render r E @ CHR ''/'' # n) = render r (E @ [n])" by (rule fp_clean_snoc(1) [OF E(1) assms])
  ultimately show ?thesis using False render_split(1) [OF E(1)] by (simp add: fp_join_def E(2))
qed

lemma fp_base_join: "name_ok n \<Longrightarrow> fp_base (fp_join [d, n]) = n"
  using join_name(2) [of n d] by (simp add: fp_join_clean)

end
