(* ===== verification/Backup.thy ===== *)
theory Backup
  imports Paths
begin

text \<open>
  The checkpoint pipeline of \<^verbatim>\<open>pkg/backup/backup.go\<close>: the walk over a project tree with its skip
  rules, the tar it writes, archive rotation and \<open>CreateCheckpoint\<close>. The project tree is a
  \<open>fsnode\<close>, the failures the operating system can answer with are attributes of its nodes, and
  the directories under the backup root are an explicit store of directory listings.
\<close>

section \<open>Trees and archives\<close>

datatype ftype = RegularFile | Symlink string | Fifo | Device | Socket | IrregularFile

text \<open>
  A non-directory: type, \<^verbatim>\<open>int64\<close> size and content, and the error (if any) that \<^verbatim>\<open>d.Info\<close>,
  \<^verbatim>\<open>tw.WriteHeader\<close>, \<^verbatim>\<open>os.Open\<close> and \<^verbatim>\<open>io.Copy\<close> answer with for it.
\<close>

record fattr =
  f_type :: ftype
  f_size :: "64 word"
  f_data :: bytes
  f_info_err :: "string option"
  f_header_err :: "string option"
  f_open_err :: "string option"
  f_copy_err :: "string option"

record dattr =
  d_info_err :: "string option"
  d_header_err :: "string option"
  d_readdir_err :: "string option"

datatype fsnode = FileNode fattr | DirNode dattr "(string \<times> fsnode) list"

primrec isDir :: "fsnode \<Rightarrow> bool" where
  "isDir (FileNode a) = False"
| "isDir (DirNode a es) = True"

datatype tkind = TypeReg | TypeDir | TypeSymlink | TypeFifo | TypeDev

record tentry =
  te_name :: string
  te_kind :: tkind
  te_link :: string
  te_data :: bytes

section \<open>Skip rules\<close>

definition isSkippedDir :: "string \<Rightarrow> bool" where
  "isSkippedDir name \<longleftrightarrow> name \<in> set [''.git'', ''.venv'', ''node_modules'', ''__pycache__'']"

definition isSkippedFile :: "string \<Rightarrow> bool" where
  "isSkippedFile name \<longleftrightarrow> fp_ext name \<in> set [''.o'', ''.so'', ''.pyc'']"

fun matchesExclude :: "string \<Rightarrow> string list \<Rightarrow> bool" where
  "matchesExclude relPath [] = False"
| "matchesExclude relPath (e # exclude) =
     (let base = fp_base relPath; e' = trimChar (CHR ''/'') e
      in if e' = [] then matchesExclude relPath exclude
         else if relPath = e' \<or> hasPrefix relPath (e' @ ''/'') \<or> base = e' then True
         else matchesExclude relPath exclude)"

section \<open>filepath.WalkDir\<close>

text \<open>
  The walk visits the root and then, depth first and in directory order, every entry below it; it
  does not follow symbolic links. A position is the list of names below the root. The callback
  gets the position, the node and the error of a failed directory read, threads its own state,
  and answers \<open>WSkipDir\<close> to prune a directory.
\<close>

datatype wres = WOk | WSkipDir | WErr string

type_synonym 's walk_fn = "string list \<Rightarrow> fsnode \<Rightarrow> string option \<Rightarrow> 's \<Rightarrow> 's \<times> wres"

definition pruned_res :: "wres \<Rightarrow> wres" where
  "pruned_res r = (if r = WSkipDir then WOk else r)"

fun walkDir :: "'s walk_fn \<Rightarrow> string list \<Rightarrow> fsnode \<Rightarrow> 's \<Rightarrow> 's \<times> wres"
and walkEntries :: "'s walk_fn \<Rightarrow> string list \<Rightarrow> (string \<times> fsnode) list \<Rightarrow> 's \<Rightarrow> 's \<times> wres" where
  "walkDir cb cs (FileNode a) s = cb cs (FileNode a) None s"
| "walkDir cb cs (DirNode a es) s =
     (case cb cs (DirNode a es) None s of
        (s1, WOk) \<Rightarrow>
          (case d_readdir_err a of
             None \<Rightarrow> walkEntries cb cs es s1
           | Some e \<Rightarrow>
               (case cb cs (DirNode a es) (Some e) s1 of
                  (s2, WOk) \<Rightarrow> walkEntries cb cs es s2
                | (s2, r) \<Rightarrow> (s2, pruned_res r)))
      | (s1, r) \<Rightarrow> (s1, pruned_res r))"
| "walkEntries cb cs [] s = (s, WOk)"
| "walkEntries cb cs ((name, n) # es) s =
     (case walkDir cb (cs @ [name]) n s of
        (s1, WOk) \<Rightarrow> walkEntries cb cs es s1
      | (s1, WSkipDir) \<Rightarrow> (s1, WOk)
      | (s1, WErr e) \<Rightarrow> (s1, WErr e))"

text \<open>The root is \<open>Inl\<close> when \<^verbatim>\<open>os.Lstat\<close> of the source directory fails.\<close>

definition walkRoot :: "'s walk_fn \<Rightarrow> string + fsnode \<Rightarrow> 's \<Rightarrow> 's \<times> string option" where
  "walkRoot cb src s =
     (case src of
        Inl e \<Rightarrow> (s, Some e)
      | Inr n \<Rightarrow> (case walkDir cb [] n s of (s', WErr e) \<Rightarrow> (s', Some e) | (s', _) \<Rightarrow> (s', None)))"

definition relPath :: "string list \<Rightarrow> string" where
  "relPath cs = (if cs = [] then ''.'' else joinWith ''/'' cs)"

text \<open>\<^verbatim>\<open>walkCheckpoint\<close>'s own callback around \<open>fn\<close>, and \<^verbatim>\<open>walkCheckpoint\<close> itself.\<close>

type_synonym 's visit_fn = "string list \<Rightarrow> fsnode \<Rightarrow> 's \<Rightarrow> 's \<times> string option"

definition as_wres :: "'s \<times> string option \<Rightarrow> 's \<times> wres" where
  "as_wres p = (case p of (s, None) \<Rightarrow> (s, WOk) | (s, Some e) \<Rightarrow> (s, WErr e))"

definition checkpoint_cb :: "string list \<Rightarrow> 's visit_fn \<Rightarrow> 's walk_fn" where
  "checkpoint_cb exclude fn cs d err s =
     (case err of
        Some e \<Rightarrow> (s, WErr e)
      | None \<Rightarrow>
          if relPath cs = ''.'' then (s, WOk)
          else if isDir d then
            if isSkippedDir (last cs) \<or> matchesExclude (relPath cs) exclude then (s, WSkipDir)
            else as_wres (fn cs d s)
          else if isSkippedFile (last cs) \<or> matchesExclude (relPath cs) exclude then (s, WOk)
          else as_wres (fn cs d s))"

definition walkCheckpoint ::
  "string + fsnode \<Rightarrow> string list \<Rightarrow> 's visit_fn \<Rightarrow> 's \<Rightarrow> 's \<times> string option" where
  "walkCheckpoint src exclude fn s = walkRoot (checkpoint_cb exclude fn) src s"

section \<open>The two callbacks\<close>

text \<open>The dry-run manifest: a file count and the sum of the sizes, wrapping at 64 bits.\<close>

record manifest =
  mf_count :: int
  mf_bytes :: "64 word"

definition dry_fn :: "manifest visit_fn" where
  "dry_fn cs d s =
     (case d of
        DirNode a es \<Rightarrow> (s, None)
      | FileNode a \<Rightarrow>
          let s1 = s\<lparr>mf_count := mf_count s + 1\<rparr>
          in (if f_info_err a = None then s1\<lparr>mf_bytes := mf_bytes s1 + f_size a\<rparr> else s1, None))"

text \<open>
  \<^verbatim>\<open>tar.FileInfoHeader(info, link)\<close> has no header for a socket or an irregular file; \<open>link\<close>
  becomes the link name of a symbolic link. \<^verbatim>\<open>createTarGz\<close> passes the entry's own base name there.
\<close>

definition fileInfoHeader :: "fsnode \<Rightarrow> string \<Rightarrow> string + tentry" where
  "fileInfoHeader d link =
     (case d of
        DirNode a es \<Rightarrow> Inr \<lparr>te_name = [], te_kind = TypeDir, te_link = [], te_data = []\<rparr>
      | FileNode a \<Rightarrow>
          (case f_type a of
             RegularFile \<Rightarrow> Inr \<lparr>te_name = [], te_kind = TypeReg, te_link = [], te_data = []\<rparr>
           | Symlink target \<Rightarrow> Inr \<lparr>te_name = [], te_kind = TypeSymlink, te_link = link, te_data = []\<rparr>
           | Fifo \<Rightarrow> Inr \<lparr>te_name = [], te_kind = TypeFifo, te_link = [], te_data = []\<rparr>
           | Device \<Rightarrow> Inr \<lparr>te_name = [], te_kind = TypeDev, te_link = [], te_data = []\<rparr>
           | Socket \<Rightarrow> Inl ''archive/tar: sockets not supported''
           | IrregularFile \<Rightarrow> Inl ''archive/tar: unknown file mode''))"

record tarstate =
  ts_entries :: "tentry list"
  ts_bytes :: "64 word"

primrec info_err :: "fsnode \<Rightarrow> string option" where
  "info_err (FileNode a) = f_info_err a"
| "info_err (DirNode a es) = d_info_err a"

primrec header_err :: "fsnode \<Rightarrow> string option" where
  "header_err (FileNode a) = f_header_err a"
| "header_err (DirNode a es) = d_header_err a"

definition tar_fn :: "tarstate visit_fn" where
  "tar_fn cs d s =
     (case info_err d of
        Some e \<Rightarrow> (s, Some e)
      | None \<Rightarrow>
     (case fileInfoHeader d (last cs) of
        Inl e \<Rightarrow> (s, Some e)
      | Inr hd0 \<Rightarrow>
     (let header = hd0\<lparr>te_name := relPath cs\<rparr> in
      case header_err d of
        Some e \<Rightarrow> (s, Some e)
      | None \<Rightarrow>
     (case d of
        DirNode a es \<Rightarrow> (s\<lparr>ts_entries := ts_entries s @ [header]\<rparr>, None)
      | FileNode a \<Rightarrow>
          if f_type a \<noteq> RegularFile then (s\<lparr>ts_entries := ts_entries s @ [header]\<rparr>, None)
          else
            (let s1 = s\<lparr>ts_bytes := ts_bytes s + f_size a\<rparr> in
             case f_open_err a of
               Some e \<Rightarrow> (s1\<lparr>ts_entries := ts_entries s @ [header]\<rparr>, Some e)
             | None \<Rightarrow>
                 (case f_copy_err a of
                    Some e \<Rightarrow> (s1\<lparr>ts_entries := ts_entries s @ [header]\<rparr>, Some e)
                  | None \<Rightarrow> (s1\<lparr>ts_entries := ts_entries s @ [header\<lparr>te_data := f_data a\<rparr>]\<rparr>, None)))))))"

section \<open>The archive store\<close>

text \<open>
  The directories under the backup root: a cleaned path to its listing. An archive carries whether
  the deferred \<^verbatim>\<open>Close\<close> calls flushed it completely.
\<close>

datatype aentry = ArchiveFile "tentry list" bool | PlainFile | SubDir

type_synonym listing = "(string \<times> aentry) list"
type_synonym store = "string \<Rightarrow> listing option"

text \<open>What one checkpoint reads from the operating system.\<close>

record ckenv =
  ce_stamp :: string
  ce_elapsed :: duration
  ce_mkdir_err :: "string option"
  ce_create_err :: "string option"
  ce_close_err :: "string option"
  ce_readdir_err :: "string option"
  ce_rm_err :: "string \<Rightarrow> bool"
  ce_size :: "aentry \<Rightarrow> 64 word option"

definition remove_entry :: "string \<Rightarrow> listing \<Rightarrow> listing" where
  "remove_entry name es = filter (\<lambda>(n, a). n \<noteq> name) es"

definition mkdirAll :: "string \<Rightarrow> store \<Rightarrow> store" where
  "mkdirAll dir st = (if st dir = None then st(dir \<mapsto> []) else st)"

definition os_remove :: "ckenv \<Rightarrow> string \<Rightarrow> store \<Rightarrow> store" where
  "os_remove env path st =
     (case st (fp_dir path) of
        None \<Rightarrow> st
      | Some es \<Rightarrow> if ce_rm_err env path then st else st(fp_dir path \<mapsto> remove_entry (fp_base path) es))"

text \<open>
  \<^verbatim>\<open>createTarGz\<close>: \<^verbatim>\<open>os.Create\<close> fails when the directory is missing, when the name is a directory, or
  with an error of the environment. The three deferred \<^verbatim>\<open>Close\<close> calls run on every return and their
  errors are dropped.
\<close>

definition createTarGz ::
  "ckenv \<Rightarrow> string + fsnode \<Rightarrow> string \<Rightarrow> string list \<Rightarrow> store \<Rightarrow> store \<times> (64 word \<times> string option)" where
  "createTarGz env src destFile exclude st =
     (case (st (fp_dir destFile), ce_create_err env) of
        (None, _) \<Rightarrow> (st, 0, Some ''no such file or directory'')
      | (Some es, Some e) \<Rightarrow> (st, 0, Some e)
      | (Some es, None) \<Rightarrow>
          if (fp_base destFile, SubDir) \<in> set es then (st, 0, Some ''is a directory'')
          else
            (case walkCheckpoint src exclude tar_fn \<lparr>ts_entries = [], ts_bytes = 0\<rparr> of
               (s, r) \<Rightarrow>
                 (st(fp_dir destFile \<mapsto>
                      remove_entry (fp_base destFile) es
                        @ [(fp_base destFile, ArchiveFile (ts_entries s) (ce_close_err env = None))]),
                  ts_bytes s, r)))"

section \<open>Rotation\<close>

definition is_archive :: "string \<times> aentry \<Rightarrow> bool" where
  "is_archive e \<longleftrightarrow> snd e \<noteq> SubDir \<and> hasSuffix (fst e) ''.tgz''"

definition archive_names :: "listing \<Rightarrow> string list" where
  "archive_names es = sort (map fst (filter is_archive es))"

fun purge :: "ckenv \<Rightarrow> string \<Rightarrow> string list \<Rightarrow> store \<Rightarrow> store" where
  "purge env archiveDir [] st = st"
| "purge env archiveDir (a # as) st =
     purge env archiveDir as (os_remove env (fp_join [archiveDir, a]) st)"

definition enforceRotation :: "ckenv \<Rightarrow> string \<Rightarrow> int \<Rightarrow> store \<Rightarrow> store" where
  "enforceRotation env archiveDir maxArchives st =
     (if maxArchives \<le> 0 then st
      else
        (case (st archiveDir, ce_readdir_err env) of
           (Some es, None) \<Rightarrow>
             (let archives = archive_names es
              in if int (length archives) > maxArchives
                 then purge env archiveDir (take (length archives - nat maxArchives) archives) st
                 else st)
         | _ \<Rightarrow> st))"

section \<open>CreateCheckpoint\<close>

record CheckpointResult =
  ArchivePath :: string
  BytesBefore :: "64 word"
  BytesAfter :: "64 word"
  Duration :: duration

datatype CheckpointError = MkdirFailed string | DryRunFailed string | TarFailed string

definition archive_path :: "ckenv \<Rightarrow> string \<Rightarrow> string \<Rightarrow> string" where
  "archive_path env projectName backupRoot =
     fp_join [fp_join [backupRoot, projectName], projectName @ ''-'' @ ce_stamp env @ ''.tgz'']"

definition stat_size :: "ckenv \<Rightarrow> string \<Rightarrow> store \<Rightarrow> 64 word" where
  "stat_size env path st =
     (case Option.bind (st (fp_dir path)) (\<lambda>es. map_of es (fp_base path)) of
        None \<Rightarrow> 0
      | Some a \<Rightarrow> (case ce_size env a of None \<Rightarrow> 0 | Some n \<Rightarrow> n))"

definition CreateCheckpoint ::
  "ckenv \<Rightarrow> string \<Rightarrow> string + fsnode \<Rightarrow> string \<Rightarrow> int \<Rightarrow> string list \<Rightarrow> bool \<Rightarrow> store
   \<Rightarrow> store \<times> (CheckpointError + CheckpointResult)" where
  "CreateCheckpoint env projectName src backupRoot maxArchives exclude dryRun st =
     (let archiveDir = fp_join [backupRoot, projectName];
          archivePath = archive_path env projectName backupRoot
      in if dryRun then
           (case walkCheckpoint src exclude dry_fn \<lparr>mf_count = 0, mf_bytes = 0\<rparr> of
              (s, Some e) \<Rightarrow> (st, Inl (DryRunFailed e))
            | (s, None) \<Rightarrow>
                (st, Inr \<lparr>ArchivePath = archivePath, BytesBefore = mf_bytes s, BytesAfter = 0,
                         Duration = ce_elapsed env\<rparr>))
         else
           (case ce_mkdir_err env of
              Some e \<Rightarrow> (st, Inl (MkdirFailed e))
            | None \<Rightarrow>
                (case createTarGz env src archivePath exclude (mkdirAll archiveDir st) of
                   (st1, _, Some e) \<Rightarrow> (os_remove env archivePath st1, Inl (TarFailed e))
                 | (st1, bytesBefore, None) \<Rightarrow>
                     (let st2 = enforceRotation env archiveDir maxArchives st1
                      in (st2, Inr \<lparr>ArchivePath = archivePath, BytesBefore = bytesBefore,
                                   BytesAfter = stat_size env archivePath st2,
                                   Duration = ce_elapsed env\<rparr>)))))"

section \<open>The reference specification of a checkpoint\<close>

text \<open>
  Every entry below the root in walk order, the rule that decides alone which of them belong into a
  checkpoint, and the entry the archive holds for one.
\<close>

fun all_entries :: "string list \<Rightarrow> fsnode \<Rightarrow> (string list \<times> fsnode) list"
and all_below :: "string list \<Rightarrow> (string \<times> fsnode) list \<Rightarrow> (string list \<times> fsnode) list" where
  "all_entries cs (FileNode a) = [(cs, FileNode a)]"
| "all_entries cs (DirNode a es) = (cs, DirNode a es) # all_below cs es"
| "all_below cs [] = []"
| "all_below cs ((name, n) # es) = all_entries (cs @ [name]) n @ all_below cs es"

definition skipped :: "string list \<Rightarrow> string list \<Rightarrow> bool \<Rightarrow> bool" where
  "skipped exclude cs dir \<longleftrightarrow>
     (if dir then isSkippedDir (last cs) else isSkippedFile (last cs)) \<or> matchesExclude (relPath cs) exclude"

definition included :: "string list \<Rightarrow> string list \<times> fsnode \<Rightarrow> bool" where
  "included exclude e \<longleftrightarrow>
     (case e of (cs, d) \<Rightarrow>
        cs \<noteq> [] \<and> \<not> skipped exclude cs (isDir d) \<and>
        (\<forall>k \<in> set [1..<length cs]. \<not> skipped exclude (take k cs) True))"

fun tree_ok :: "fsnode \<Rightarrow> bool" where
  "tree_ok (FileNode a) = True"
| "tree_ok (DirNode a es) = (\<forall>(name, n) \<in> set es. name_ok name \<and> tree_ok n)"

section \<open>The walk as a list of visits\<close>

text \<open>
  What the callback of \<open>walkCheckpoint\<close> gets to see, as a list: the surviving entries in order, and
  the failed directory reads between them. \<open>walkCheckpoint\<close> runs its callback along that list.
\<close>

datatype visit = Visit "string list" fsnode | ReadFail string

fun visits :: "string list \<Rightarrow> string list \<Rightarrow> fsnode \<Rightarrow> visit list"
and visits_below :: "string list \<Rightarrow> string list \<Rightarrow> (string \<times> fsnode) list \<Rightarrow> visit list" where
  "visits ex cs (FileNode a) =
     (if relPath cs = ''.'' \<or> skipped ex cs False then [] else [Visit cs (FileNode a)])"
| "visits ex cs (DirNode a es) =
     (if relPath cs \<noteq> ''.'' \<and> skipped ex cs True then []
      else (if relPath cs = ''.'' then [] else [Visit cs (DirNode a es)])
        @ (case d_readdir_err a of None \<Rightarrow> [] | Some e \<Rightarrow> [ReadFail e])
        @ visits_below ex cs es)"
| "visits_below ex cs [] = []"
| "visits_below ex cs ((name, n) # es) = visits ex (cs @ [name]) n @ visits_below ex cs es"

fun run_visits :: "'s visit_fn \<Rightarrow> visit list \<Rightarrow> 's \<Rightarrow> 's \<times> string option" where
  "run_visits fn [] s = (s, None)"
| "run_visits fn (ReadFail e # vs) s = (s, Some e)"
| "run_visits fn (Visit cs d # vs) s =
     (case fn cs d s of (s', None) \<Rightarrow> run_visits fn vs s' | (s', Some e) \<Rightarrow> (s', Some e))"

lemma run_visits_append:
  "run_visits fn (us @ vs) s =
     (case run_visits fn us s of (s', None) \<Rightarrow> run_visits fn vs s' | (s', Some e) \<Rightarrow> (s', Some e))"
  by (induction fn us s rule: run_visits.induct) (auto split: option.splits prod.splits)

lemma as_wres_simps [simp]:
  "as_wres (s, None) = (s, WOk)" "as_wres (s, Some e) = (s, WErr e)"
  by (simp_all add: as_wres_def)

lemma as_wres_not_skip [simp]: "as_wres p \<noteq> (s, WSkipDir)"
  by (cases p; cases "snd p") auto

lemma walk_runs_visits:
  "walkDir (checkpoint_cb ex fn) cs n s = as_wres (run_visits fn (visits ex cs n) s)"
  "walkEntries (checkpoint_cb ex fn) cs es s = as_wres (run_visits fn (visits_below ex cs es) s)"
proof (induction ex cs n and ex cs es arbitrary: s and s rule: visits_visits_below.induct)
  case (1 ex cs a)
  then show ?case
    by (auto simp: checkpoint_cb_def skipped_def as_wres_def split: prod.splits option.splits)
next
  case (2 ex cs a es)
  then show ?case
    by (auto simp: checkpoint_cb_def skipped_def as_wres_def pruned_res_def run_visits_append
        split: prod.splits option.splits)
next
  case (4 ex cs name n es)
  then show ?case
    by (auto simp: run_visits_append as_wres_def split: prod.splits option.splits)
qed simp

lemma walkCheckpoint_runs_visits:
  "walkCheckpoint (Inr n) ex fn s = run_visits fn (visits ex [] n) s"
  by (auto simp: walkCheckpoint_def walkRoot_def walk_runs_visits as_wres_def split: prod.splits option.splits)

lemma joinWith_sep_mem: "c # d # cs = ps \<Longrightarrow> x \<in> set sep \<Longrightarrow> x \<in> set (joinWith sep ps)"
  by auto

lemma relPath_dot:
  assumes "cs \<noteq> []" and "\<forall>c \<in> set cs. name_ok c"
  shows "relPath cs \<noteq> ''.''"
proof (cases "\<exists>c. cs = [c]")
  case True
  then obtain c where c: "cs = [c]" by blast
  with assms(2) have "c \<noteq> ''.''" by (simp add: name_ok_def)
  with c show ?thesis by (simp add: relPath_def)
next
  case False
  with assms(1) obtain c d cs' where "c # d # cs' = cs"
    by (cases cs rule: remdups_adj.cases) auto
  then have "CHR ''/'' \<in> set (joinWith ''/'' cs)"
    by (rule joinWith_sep_mem) simp
  then show ?thesis using assms(1) by (auto simp: relPath_def)
qed

text \<open>The visits against the reference rule.\<close>

fun visited :: "visit list \<Rightarrow> (string list \<times> fsnode) list" where
  "visited [] = []"
| "visited (ReadFail e # vs) = visited vs"
| "visited (Visit cs d # vs) = (cs, d) # visited vs"

lemma visited_append [simp]: "visited (us @ vs) = visited us @ visited vs"
  by (induction us rule: visited.induct) auto

definition unpruned :: "string list \<Rightarrow> string list \<Rightarrow> bool" where
  "unpruned ex cs \<longleftrightarrow> (\<forall>k. 0 < k \<and> k < length cs \<longrightarrow> \<not> skipped ex (take k cs) True)"

lemma included_iff:
  "included ex (cs, d) \<longleftrightarrow> cs \<noteq> [] \<and> \<not> skipped ex cs (isDir d) \<and> unpruned ex cs"
  by (auto simp: included_def unpruned_def)

lemma unpruned_snoc: "unpruned ex (cs @ [c]) \<longleftrightarrow> unpruned ex cs \<and> (cs \<noteq> [] \<longrightarrow> \<not> skipped ex cs True)"
  unfolding unpruned_def by (auto simp: less_Suc_eq)

lemma unpruned_append: "unpruned ex (cs @ r) \<Longrightarrow> r \<noteq> [] \<Longrightarrow> cs \<noteq> [] \<Longrightarrow> \<not> skipped ex cs True"
  unfolding unpruned_def by (drule spec [of _ "length cs"]) simp

lemma all_below_extends:
  "(cs', d) \<in> set (all_entries cs n) \<Longrightarrow> \<exists>r. cs' = cs @ r"
  "(cs', d) \<in> set (all_below cs es) \<Longrightarrow> \<exists>r. cs' = cs @ r \<and> r \<noteq> []"
  by (induction cs n and cs es rule: all_entries_all_below.induct) fastforce+

lemma all_below_pruned:
  assumes "cs \<noteq> []" and "skipped ex cs True"
  shows "filter (included ex) (all_below cs es) = []"
proof -
  have "\<not> included ex e" if "e \<in> set (all_below cs es)" for e
    using all_below_extends(2) [of "fst e" "snd e" cs es] that assms unpruned_append
    by (cases e) (auto simp: included_iff)
  then show ?thesis by (simp add: filter_empty_conv)
qed

lemma visited_included:
  "\<forall>c \<in> set cs. name_ok c \<Longrightarrow> tree_ok n \<Longrightarrow> unpruned ex cs \<Longrightarrow>
     visited (visits ex cs n) = filter (included ex) (all_entries cs n)"
  "\<forall>c \<in> set cs. name_ok c \<Longrightarrow> \<forall>(name, n) \<in> set es. name_ok name \<and> tree_ok n \<Longrightarrow> unpruned ex cs \<Longrightarrow>
     (cs \<noteq> [] \<longrightarrow> \<not> skipped ex cs True) \<Longrightarrow>
     visited (visits_below ex cs es) = filter (included ex) (all_below cs es)"
proof (induction ex cs n and ex cs es rule: visits_visits_below.induct)
  case (1 ex cs a)
  then show ?case
    using relPath_dot [of cs] by (cases "cs = []") (auto simp: included_iff relPath_def)
next
  case (2 ex cs a es)
  show ?case
  proof (cases "cs = []")
    case True
    with 2 show ?thesis by (auto simp: included_iff relPath_def split: option.split)
  next
    case False
    with 2 relPath_dot [of cs] have dot: "relPath cs \<noteq> ''.''" by blast
    with False 2 all_below_pruned show ?thesis
      by (auto simp: included_iff split: option.split)
  qed
next
  case (4 ex cs name n es)
  then show ?case by (simp add: unpruned_snoc)
qed simp

text \<open>The directory reads that can fail are those of the root and of the included directories.\<close>

primrec readdir_err :: "fsnode \<Rightarrow> string option" where
  "readdir_err (FileNode a) = None"
| "readdir_err (DirNode a es) = d_readdir_err a"

definition entered :: "string list \<Rightarrow> string list \<times> fsnode \<Rightarrow> bool" where
  "entered ex e \<longleftrightarrow> fst e = [] \<or> included ex e"

lemma read_fail_included:
  "\<forall>c \<in> set cs. name_ok c \<Longrightarrow> tree_ok n \<Longrightarrow> unpruned ex cs \<Longrightarrow>
     ReadFail e \<in> set (visits ex cs n) \<longleftrightarrow>
     (\<exists>p \<in> set (all_entries cs n). entered ex p \<and> readdir_err (snd p) = Some e)"
  "\<forall>c \<in> set cs. name_ok c \<Longrightarrow> \<forall>(name, n) \<in> set es. name_ok name \<and> tree_ok n \<Longrightarrow> unpruned ex cs \<Longrightarrow>
     (cs \<noteq> [] \<longrightarrow> \<not> skipped ex cs True) \<Longrightarrow>
     ReadFail e \<in> set (visits_below ex cs es) \<longleftrightarrow>
     (\<exists>p \<in> set (all_below cs es). entered ex p \<and> readdir_err (snd p) = Some e)"
proof (induction ex cs n and ex cs es rule: visits_visits_below.induct)
  case (2 ex cs a es)
  show ?case
  proof (cases "cs \<noteq> [] \<and> skipped ex cs True")
    case True
    with 2 relPath_dot [of cs] have "relPath cs \<noteq> ''.''" by blast
    moreover have "\<not> entered ex p" if "p \<in> set (all_below cs es)" for p
      using all_below_pruned [of cs ex es] True that all_below_extends(2) [of "fst p" "snd p" cs es]
      by (auto simp: entered_def filter_empty_conv)
    ultimately show ?thesis using True by (auto simp: entered_def included_iff)
  next
    case False
    then have walk: "\<not> (relPath cs \<noteq> ''.'' \<and> skipped ex cs True)"
      by (auto simp: relPath_def)
    have enter: "entered ex (cs, DirNode a es)"
      using False "2.prems" by (auto simp: entered_def included_iff)
    have IH: "ReadFail e \<in> set (visits_below ex cs es) \<longleftrightarrow>
        (\<exists>p \<in> set (all_below cs es). entered ex p \<and> readdir_err (snd p) = Some e)"
      using "2.prems" False by (intro "2.IH" [OF walk]) auto
    show ?thesis
      using IH by (simp add: enter walk eq_commute split: option.split)
  qed
next
  case (4 ex cs name n es)
  then show ?case by (auto simp: unpruned_snoc)
qed auto

section \<open>The contract between the walk and its callbacks\<close>

text \<open>
  A callback of \<open>walkCheckpoint\<close> fails with \<open>err\<close> or applies \<open>upd\<close>; the walk then succeeds
  exactly when no included entry and no entered directory fails, and its result is \<open>upd\<close> folded
  over the included entries in order.
\<close>

locale visitor =
  fixes fn :: "'s visit_fn"
    and err :: "fsnode \<Rightarrow> string option"
    and upd :: "string list \<times> fsnode \<Rightarrow> 's \<Rightarrow> 's"
  assumes fn_ok: "err d = None \<Longrightarrow> fn cs d s = (upd (cs, d) s, None)"
    and fn_err: "err d = Some e \<Longrightarrow> snd (fn cs d s) = Some e"
begin

lemma run_ok:
  "snd (run_visits fn vs s) = None \<longleftrightarrow>
     (\<forall>p \<in> set (visited vs). err (snd p) = None) \<and> (\<forall>e. ReadFail e \<notin> set vs)"
proof (induction vs arbitrary: s)
  case (Cons v vs)
  show ?case
  proof (cases v)
    case (Visit cs d)
    with Cons fn_ok fn_err [of d _ cs s] show ?thesis
      by (cases "err d") (auto split: prod.split option.split)
  qed auto
qed simp

lemma run_fold:
  "snd (run_visits fn vs s) = None \<Longrightarrow> fst (run_visits fn vs s) = fold upd (visited vs) s"
proof (induction vs arbitrary: s)
  case (Cons v vs)
  show ?case
  proof (cases v)
    case (Visit cs d)
    with Cons fn_ok fn_err [of d _ cs s] show ?thesis
      by (cases "err d") (auto split: prod.splits option.splits)
  qed (use Cons in auto)
qed simp

lemma walk_ok:
  assumes "tree_ok n"
  shows "snd (walkCheckpoint (Inr n) ex fn s) = None \<longleftrightarrow>
     (\<forall>p \<in> set (all_entries [] n).
        (included ex p \<longrightarrow> err (snd p) = None) \<and> (entered ex p \<longrightarrow> readdir_err (snd p) = None))"
proof -
  have "unpruned ex []" by (simp add: unpruned_def)
  with assms show ?thesis
    unfolding walkCheckpoint_runs_visits run_ok
    by (simp add: visited_included read_fail_included no_Some_iff) fastforce
qed

lemma walk_fold:
  assumes "tree_ok n" and "snd (walkCheckpoint (Inr n) ex fn s) = None"
  shows "fst (walkCheckpoint (Inr n) ex fn s) = fold upd (filter (included ex) (all_entries [] n)) s"
proof -
  have "unpruned ex []" by (simp add: unpruned_def)
  with assms show ?thesis
    unfolding walkCheckpoint_runs_visits by (simp add: run_fold visited_included)
qed

end

definition tar_entry :: "string list \<times> fsnode \<Rightarrow> tentry" where
  "tar_entry p =
     (case p of
        (cs, DirNode a es) \<Rightarrow> \<lparr>te_name = relPath cs, te_kind = TypeDir, te_link = [], te_data = []\<rparr>
      | (cs, FileNode a) \<Rightarrow>
          (case f_type a of
             RegularFile \<Rightarrow> \<lparr>te_name = relPath cs, te_kind = TypeReg, te_link = [], te_data = f_data a\<rparr>
           | Symlink t \<Rightarrow> \<lparr>te_name = relPath cs, te_kind = TypeSymlink, te_link = last cs, te_data = []\<rparr>
           | Fifo \<Rightarrow> \<lparr>te_name = relPath cs, te_kind = TypeFifo, te_link = [], te_data = []\<rparr>
           | _ \<Rightarrow> \<lparr>te_name = relPath cs, te_kind = TypeDev, te_link = [], te_data = []\<rparr>))"

primrec regular_size :: "fsnode \<Rightarrow> 64 word" where
  "regular_size (DirNode a es) = 0"
| "regular_size (FileNode a) = (if f_type a = RegularFile then f_size a else 0)"

text \<open>The first thing that goes wrong when one entry is written into the tar, if anything does.\<close>

primrec unsupported :: "fsnode \<Rightarrow> string option" where
  "unsupported (DirNode a es) = None"
| "unsupported (FileNode a) =
     (case f_type a of
        Socket \<Rightarrow> Some ''archive/tar: sockets not supported''
      | IrregularFile \<Rightarrow> Some ''archive/tar: unknown file mode''
      | _ \<Rightarrow> None)"

primrec content_err :: "fsnode \<Rightarrow> string option" where
  "content_err (DirNode a es) = None"
| "content_err (FileNode a) =
     (if f_type a \<noteq> RegularFile then None
      else case f_open_err a of Some e \<Rightarrow> Some e | None \<Rightarrow> f_copy_err a)"

definition tar_err :: "fsnode \<Rightarrow> string option" where
  "tar_err d =
     (case info_err d of Some e \<Rightarrow> Some e | None \<Rightarrow>
      case unsupported d of Some e \<Rightarrow> Some e | None \<Rightarrow>
      case header_err d of Some e \<Rightarrow> Some e | None \<Rightarrow> content_err d)"

definition tar_upd :: "string list \<times> fsnode \<Rightarrow> tarstate \<Rightarrow> tarstate" where
  "tar_upd p s = s\<lparr>ts_entries := ts_entries s @ [tar_entry p], ts_bytes := ts_bytes s + regular_size (snd p)\<rparr>"

definition dry_upd :: "string list \<times> fsnode \<Rightarrow> manifest \<Rightarrow> manifest" where
  "dry_upd p s =
     (case snd p of
        DirNode a es \<Rightarrow> s
      | FileNode a \<Rightarrow> s\<lparr>mf_count := mf_count s + 1,
                       mf_bytes := mf_bytes s + (if f_info_err a = None then f_size a else 0)\<rparr>)"

lemma tar_fn_ok: "tar_err d = None \<Longrightarrow> tar_fn cs d s = (tar_upd (cs, d) s, None)"
  by (cases d)
    (auto simp: tar_err_def tar_fn_def tar_upd_def tar_entry_def fileInfoHeader_def
      split: option.splits if_splits ftype.splits)

lemma tar_fn_err: "tar_err d = Some e \<Longrightarrow> snd (tar_fn cs d s) = Some e"
  by (cases d)
    (auto simp: tar_err_def tar_fn_def fileInfoHeader_def split: option.splits if_splits ftype.splits)

interpretation tarw: visitor tar_fn tar_err tar_upd
  by unfold_locales (simp_all add: tar_fn_ok tar_fn_err)

interpretation dryw: visitor dry_fn "\<lambda>_. None" dry_upd
  by unfold_locales (auto simp: dry_fn_def dry_upd_def Let_def split: fsnode.splits)

lemma tar_fold:
  "fold tar_upd ps s =
     s\<lparr>ts_entries := ts_entries s @ map tar_entry ps,
       ts_bytes := ts_bytes s + sum_list (map (regular_size \<circ> snd) ps)\<rparr>"
  by (induction ps arbitrary: s) (simp_all add: tar_upd_def add.assoc)

definition file_size :: "fsnode \<Rightarrow> 64 word" where
  "file_size d = (case d of FileNode a \<Rightarrow> if f_info_err a = None then f_size a else 0 | _ \<Rightarrow> 0)"

lemma dry_fold:
  "fold dry_upd ps s =
     s\<lparr>mf_count := mf_count s + int (length (filter (\<lambda>p. \<not> isDir (snd p)) ps)),
       mf_bytes := mf_bytes s + sum_list (map (file_size \<circ> snd) ps)\<rparr>"
  by (induction ps arbitrary: s)
    (auto simp: dry_upd_def file_size_def add.assoc split: fsnode.split)

definition checkpoint_entries :: "string list \<Rightarrow> fsnode \<Rightarrow> (string list \<times> fsnode) list" where
  "checkpoint_entries ex n = filter (included ex) (all_entries [] n)"

lemma tar_walk:
  assumes "tree_ok n" and "walkCheckpoint (Inr n) ex tar_fn \<lparr>ts_entries = [], ts_bytes = 0\<rparr> = (s, None)"
  shows "ts_entries s = map tar_entry (checkpoint_entries ex n)"
    and "ts_bytes s = sum_list (map (regular_size \<circ> snd) (checkpoint_entries ex n))"
  using tarw.walk_fold [OF assms(1), of ex "\<lparr>ts_entries = [], ts_bytes = 0\<rparr>"] assms(2)
  by (simp_all add: tar_fold checkpoint_entries_def)

text \<open>No failure anywhere the checkpoint looks.\<close>

definition checkpoint_clean :: "string list \<Rightarrow> fsnode \<Rightarrow> bool" where
  "checkpoint_clean ex n \<longleftrightarrow>
     (\<forall>p \<in> set (all_entries [] n).
        (included ex p \<longrightarrow> tar_err (snd p) = None) \<and> (entered ex p \<longrightarrow> readdir_err (snd p) = None))"

lemma createTarGz_ok:
  assumes "tree_ok n"
    and "createTarGz env (Inr n) destFile ex st = (st', b, None)"
  shows "\<exists>es. st (fp_dir destFile) = Some es
    \<and> st' = st(fp_dir destFile \<mapsto> remove_entry (fp_base destFile) es
         @ [(fp_base destFile, ArchiveFile (map tar_entry (checkpoint_entries ex n)) (ce_close_err env = None))])
    \<and> b = sum_list (map (regular_size \<circ> snd) (checkpoint_entries ex n))"
  using assms(2) tar_walk [OF assms(1)]
  by (auto simp: createTarGz_def split: option.splits if_splits prod.splits)

section \<open>Properties of the archive\<close>

text \<open>
  C4: a \<open>createTarGz\<close> that returns without an error has written, under the destination's name and beside the
  untouched other files, an archive holding exactly the entries the skip rules include, in
  walk order, each with its project-relative name and, for a regular file, its content; the
  byte count it returns is the sum of the sizes of the included regular files, modulo \<open>2^64\<close>.
\<close>

theorem archive_exact:
  assumes "tree_ok n"
    and "createTarGz env (Inr n) destFile ex st = (st', b, None)"
  shows "\<exists>es. st (fp_dir destFile) = Some es
    \<and> st' = st(fp_dir destFile \<mapsto> remove_entry (fp_base destFile) es
         @ [(fp_base destFile, ArchiveFile (map tar_entry (checkpoint_entries ex n)) (ce_close_err env = None))])
    \<and> b = sum_list (map (regular_size \<circ> snd) (checkpoint_entries ex n))"
  using assms by (rule createTarGz_ok)

text \<open>
  C24: \<open>createTarGz\<close> succeeds exactly when the destination can be created and nothing the
  checkpoint includes or enters fails: an unreadable file that an exclude hides cannot break a
  backup, and one that is included always does.
\<close>

theorem archive_succeeds_iff:
  assumes "tree_ok n"
  shows "snd (snd (createTarGz env (Inr n) destFile ex st)) = None \<longleftrightarrow>
    (\<exists>es. st (fp_dir destFile) = Some es \<and> (fp_base destFile, SubDir) \<notin> set es)
    \<and> ce_create_err env = None \<and> checkpoint_clean ex n"
  using tarw.walk_ok [OF assms, of ex "\<lparr>ts_entries = [], ts_bytes = 0\<rparr>"]
  by (auto simp: createTarGz_def checkpoint_clean_def split: option.splits prod.splits)

text \<open>A small project tree and environment, on which the properties are evaluated.\<close>

definition plain_file :: "ftype \<Rightarrow> bytes \<Rightarrow> fsnode" where
  "plain_file t content =
     FileNode \<lparr>f_type = t, f_size = of_nat (length content), f_data = content, f_info_err = None,
       f_header_err = None, f_open_err = None, f_copy_err = None\<rparr>"

definition plain_dir :: "(string \<times> fsnode) list \<Rightarrow> fsnode" where
  "plain_dir es = DirNode \<lparr>d_info_err = None, d_header_err = None, d_readdir_err = None\<rparr> es"

definition sample_tree :: fsnode where
  "sample_tree = plain_dir
     [(''.git'', plain_dir [(''HEAD'', plain_file RegularFile ''ref'')]),
      (''a.go'', plain_file RegularFile ''package a''),
      (''a.so'', plain_file RegularFile ''elf''),
      (''link'', plain_file (Symlink ''/etc/hosts'') []),
      (''src'', plain_dir [(''models'', plain_dir [(''w.bin'', plain_file Socket [])]),
                         (''b.go'', plain_file RegularFile ''b'')])]"

definition sample_env :: ckenv where
  "sample_env = \<lparr>ce_stamp = ''20250102-030405'', ce_elapsed = 7, ce_mkdir_err = None,
     ce_create_err = None, ce_close_err = None, ce_readdir_err = None, ce_rm_err = \<lambda>_. False,
     ce_size = \<lambda>_. Some 42\<rparr>"

lemma sample_tree_ok: "tree_ok sample_tree"
  by code_simp

definition one_dir :: "string \<Rightarrow> listing \<Rightarrow> store" where
  "one_dir dir es = (\<lambda>d. if d = dir then Some es else None)"

lemma sample_tar_ok:
  "snd (snd (createTarGz sample_env (Inr sample_tree) ''/b/p/x.tgz'' [''models''] (one_dir ''/b/p'' []))) = None"
  by code_simp

lemma sample_entries:
  "map tar_entry (checkpoint_entries [''models''] sample_tree) =
     [\<lparr>te_name = ''a.go'', te_kind = TypeReg, te_link = [], te_data = ''package a''\<rparr>,
      \<lparr>te_name = ''link'', te_kind = TypeSymlink, te_link = ''link'', te_data = []\<rparr>,
      \<lparr>te_name = ''src'', te_kind = TypeDir, te_link = [], te_data = []\<rparr>,
      \<lparr>te_name = ''src/b.go'', te_kind = TypeReg, te_link = [], te_data = ''b''\<rparr>]"
  by code_simp

theorem archive_exact_witness:
  "fst (createTarGz sample_env (Inr sample_tree) ''/b/p/x.tgz'' [''models''] (one_dir ''/b/p'' [])) ''/b/p''
     = Some [(''x.tgz'', ArchiveFile (map tar_entry (checkpoint_entries [''models''] sample_tree)) True)]
   \<and> map te_name (map tar_entry (checkpoint_entries [''models''] sample_tree))
     = [''a.go'', ''link'', ''src'', ''src/b.go'']"
proof -
  have path: "fp_dir ''/b/p/x.tgz'' = ''/b/p''" "fp_base ''/b/p/x.tgz'' = ''x.tgz''" by code_simp+
  obtain st' b where "createTarGz sample_env (Inr sample_tree) ''/b/p/x.tgz'' [''models''] (one_dir ''/b/p'' [])
      = (st', b, None)"
    using sample_tar_ok by (metis prod.collapse)
  from archive_exact [OF sample_tree_ok this] this show ?thesis
    by (simp add: path one_dir_def remove_entry_def sample_env_def sample_entries)
qed

theorem archive_succeeds_iff_witness:
  "checkpoint_clean [''models''] sample_tree"
  using archive_succeeds_iff [OF sample_tree_ok, of sample_env "''/b/p/x.tgz''" "[''models'']" "one_dir ''/b/p'' []"]
    sample_tar_ok by blast

section \<open>The archive directory\<close>

definition listing_ok :: "listing \<Rightarrow> bool" where
  "listing_ok es \<longleftrightarrow> distinct (map fst es) \<and> (\<forall>e \<in> set es. name_ok (fst e))"

lemma archiveDir_clean: "projectName \<noteq> [] \<Longrightarrow> fp_clean (fp_join [backupRoot, projectName]) = fp_join [backupRoot, projectName]"
  by (simp add: fp_join_def)

definition checkpoint_file :: "ckenv \<Rightarrow> string \<Rightarrow> string" where
  "checkpoint_file env projectName = projectName @ ''-'' @ ce_stamp env @ ''.tgz''"

lemma tgz_name_ok: "CHR ''/'' \<notin> set p \<Longrightarrow> name_ok (p @ ''.tgz'')"
  by (cases p rule: remdups_adj.cases) (simp_all add: name_ok_def)

lemma checkpoint_file_ok:
  "name_ok projectName \<Longrightarrow> CHR ''/'' \<notin> set (ce_stamp env) \<Longrightarrow> name_ok (checkpoint_file env projectName)"
  using tgz_name_ok [of "projectName @ ''-'' @ ce_stamp env"] by (simp add: checkpoint_file_def name_ok_def)

lemma archive_path_split:
  assumes "name_ok projectName" and "CHR ''/'' \<notin> set (ce_stamp env)"
  shows "fp_dir (archive_path env projectName backupRoot) = fp_join [backupRoot, projectName]"
    and "fp_base (archive_path env projectName backupRoot) = checkpoint_file env projectName"
proof -
  have clean: "fp_clean (fp_join [backupRoot, projectName]) = fp_join [backupRoot, projectName]"
    using assms(1) by (intro archiveDir_clean) (simp add: name_ok_def)
  have path: "archive_path env projectName backupRoot =
      fp_join [fp_join [backupRoot, projectName], checkpoint_file env projectName]"
    by (simp add: archive_path_def checkpoint_file_def)
  show "fp_dir (archive_path env projectName backupRoot) = fp_join [backupRoot, projectName]"
    and "fp_base (archive_path env projectName backupRoot) = checkpoint_file env projectName"
    unfolding path by (rule join_name_clean [OF checkpoint_file_ok [OF assms] clean])+
qed

text \<open>A purge removes exactly the named entries whose removal the system allows.\<close>

definition deletable :: "ckenv \<Rightarrow> string \<Rightarrow> string \<Rightarrow> bool" where
  "deletable env dir name \<longleftrightarrow> \<not> ce_rm_err env (fp_join [dir, name])"

lemma os_remove_at:
  assumes "fp_clean dir = dir" and "name_ok a" and "st dir = Some es"
  shows "os_remove env (fp_join [dir, a]) st =
     st(dir \<mapsto> filter (\<lambda>e. \<not> (fst e = a \<and> deletable env dir a)) es)"
proof -
  have "fp_dir (fp_join [dir, a]) = dir" "fp_base (fp_join [dir, a]) = a"
    by (rule join_name_clean [OF assms(2,1)])+
  moreover have "filter (\<lambda>e. fst e \<noteq> a) es = filter (\<lambda>(n, x). n \<noteq> a) es"
    by (rule filter_cong) auto
  ultimately show ?thesis
    using assms(3) by (simp add: os_remove_def deletable_def remove_entry_def fun_upd_idem)
qed

lemma purge_at:
  assumes "fp_clean dir = dir" and "st dir = Some es" and "\<forall>a \<in> set as. name_ok a"
  shows "purge env dir as st = st(dir \<mapsto> filter (\<lambda>e. \<not> (fst e \<in> set as \<and> deletable env dir (fst e))) es)"
  using assms(2,3)
proof (induction as arbitrary: st es)
  case Nil
  then show ?case by (simp add: fun_upd_idem)
next
  case (Cons a as)
  have "name_ok a" using Cons.prems(2) by simp
  note one = os_remove_at [where st = st, OF assms(1) this Cons.prems(1), of env]
  have "purge env dir (a # as) st =
      st(dir \<mapsto> filter (\<lambda>e. \<not> (fst e \<in> set as \<and> deletable env dir (fst e)))
        (filter (\<lambda>e. \<not> (fst e = a \<and> deletable env dir a)) es))"
    unfolding purge.simps one using Cons.prems(2) by (subst Cons.IH [OF fun_upd_same]) simp_all
  also have "filter (\<lambda>e. \<not> (fst e \<in> set as \<and> deletable env dir (fst e)))
        (filter (\<lambda>e. \<not> (fst e = a \<and> deletable env dir a)) es) =
      filter (\<lambda>e. \<not> (fst e \<in> set (a # as) \<and> deletable env dir (fst e))) es"
    unfolding filter_filter by (rule filter_cong) auto
  finally show ?case .
qed

text \<open>The names a rotation deletes: the first of the sorted archive names beyond the limit.\<close>

definition rotated_out :: "int \<Rightarrow> listing \<Rightarrow> string list" where
  "rotated_out maxArchives es =
     (if maxArchives \<le> 0 then [] else take (length (archive_names es) - nat maxArchives) (archive_names es))"

lemma set_archive_names: "set (archive_names es) = fst ` {e \<in> set es. is_archive e}"
  by (auto simp: archive_names_def)

lemma rotated_out_archive: "a \<in> set (rotated_out maxArchives es) \<Longrightarrow> a \<in> set (archive_names es)"
  by (auto simp: rotated_out_def dest: in_set_takeD split: if_splits)

lemma rotated_out_nonempty: "rotated_out m es \<noteq> [] \<Longrightarrow> int (length (archive_names es)) > m"
  by (auto simp: rotated_out_def split: if_splits)

lemma enforceRotation_at:
  assumes "fp_clean dir = dir" and "st dir = Some es" and "listing_ok es" and "ce_readdir_err env = None"
  shows "enforceRotation env dir m st =
     st(dir \<mapsto> filter (\<lambda>e. \<not> (fst e \<in> set (rotated_out m es) \<and> deletable env dir (fst e))) es)"
proof -
  have "\<forall>a \<in> set (rotated_out m es). name_ok a"
    using rotated_out_archive [of _ m es] assms(3) by (auto simp: set_archive_names listing_ok_def)
  note P = purge_at [where st = st, OF assms(1,2) this, of env]
  show ?thesis
  proof (cases "rotated_out m es = []")
    case True
    then show ?thesis
      using assms(2,4) by (auto simp: enforceRotation_def rotated_out_def fun_upd_idem Let_def)
  next
    case False
    with rotated_out_nonempty [OF False] P assms(2,4) show ?thesis
      by (auto simp: enforceRotation_def rotated_out_def Let_def split: if_splits)
  qed
qed

section \<open>Properties of rotation and of the whole checkpoint\<close>

lemma archive_names_filter:
  "archive_names (filter (\<lambda>e. Q (fst e)) es) = filter Q (archive_names es)"
proof -
  have "map fst (filter is_archive (filter (\<lambda>e. Q (fst e)) es)) = filter Q (map fst (filter is_archive es))"
    by (simp add: filter_map conj_commute comp_def)
  then show ?thesis by (simp add: archive_names_def filter_sort)
qed

lemma archive_names_distinct: "listing_ok es \<Longrightarrow> distinct (archive_names es)"
  by (simp add: archive_names_def listing_ok_def distinct_map_filter)

lemma rotated_out_is_archive:
  "listing_ok es \<Longrightarrow> e \<in> set es \<Longrightarrow> fst e \<in> set (rotated_out m es) \<Longrightarrow> is_archive e"
  using rotated_out_archive [of "fst e" m es] distinct_map_fst_inj [of es e]
  by (auto simp: set_archive_names listing_ok_def)

text \<open>
  C14: with a limit \<open>m > 0\<close> and deletions that succeed, rotation leaves exactly the \<open>m\<close> last of the sorted
  archive names (all of them when there are fewer), keeps every entry that is not a
  \<^verbatim>\<open>.tgz\<close> file in place, and touches no other directory; with \<open>m \<le> 0\<close> it changes nothing.
\<close>

theorem rotation_keeps_newest:
  assumes "fp_clean dir = dir" and "st dir = Some es" and "listing_ok es"
    and "ce_readdir_err env = None" and "\<forall>p. \<not> ce_rm_err env p"
  shows "\<exists>es'. enforceRotation env dir m st = st(dir \<mapsto> es')
    \<and> archive_names es' =
        (if m \<le> 0 then archive_names es else drop (length (archive_names es) - nat m) (archive_names es))
    \<and> filter (\<lambda>e. \<not> is_archive e) es' = filter (\<lambda>e. \<not> is_archive e) es"
proof -
  let ?out = "rotated_out m es"
  let ?es' = "filter (\<lambda>e. \<not> (fst e \<in> set ?out \<and> deletable env dir (fst e))) es"
  have es': "?es' = filter (\<lambda>e. fst e \<notin> set ?out) es"
    using assms(5) by (simp add: deletable_def)
  have "archive_names ?es' = filter (\<lambda>n. n \<notin> set ?out) (archive_names es)"
    unfolding es' by (rule archive_names_filter)
  also have "\<dots> = (if m \<le> 0 then archive_names es
      else drop (length (archive_names es) - nat m) (archive_names es))"
    using archive_names_distinct [OF assms(3)] by (auto simp: rotated_out_def filter_not_take)
  finally have names: "archive_names ?es' = (if m \<le> 0 then archive_names es
      else drop (length (archive_names es) - nat m) (archive_names es))" .
  have "filter (\<lambda>e. \<not> is_archive e) ?es' = filter (\<lambda>e. \<not> is_archive e) es"
    unfolding es' filter_filter using rotated_out_is_archive [OF assms(3)] by (intro filter_cong) auto
  with names enforceRotation_at [where st = st, OF assms(1-4), of m] show ?thesis by blast
qed

definition crowded :: listing where
  "crowded = [(''a-2.tgz'', ArchiveFile [] True), (''notes.txt'', PlainFile),
              (''a-3.tgz'', ArchiveFile [] True), (''a-1.tgz'', ArchiveFile [] True)]"

lemma crowded_ok: "listing_ok crowded"
  by code_simp

theorem rotation_keeps_newest_witness:
  "\<exists>es'. enforceRotation sample_env ''/b/a'' 2 (one_dir ''/b/a'' crowded) = (one_dir ''/b/a'' crowded)(''/b/a'' \<mapsto> es')
     \<and> archive_names es' = [''a-2.tgz'', ''a-3.tgz'']"
proof -
  have "fp_clean ''/b/a'' = ''/b/a''" by code_simp
  moreover have "archive_names crowded = [''a-1.tgz'', ''a-2.tgz'', ''a-3.tgz'']" by code_simp
  moreover have "one_dir ''/b/a'' crowded ''/b/a'' = Some crowded" by (simp add: one_dir_def)
  ultimately show ?thesis
    using rotation_keeps_newest [of "''/b/a''" "one_dir ''/b/a'' crowded" crowded sample_env 2] crowded_ok
    by (auto simp: sample_env_def)
qed

text \<open>The whole pipeline, its three outcomes on a writable archive directory.\<close>

lemma mkdirAll_at: "\<exists>es. mkdirAll dir st = st(dir \<mapsto> es) \<and> (st dir = Some es \<or> st dir = None \<and> es = [])"
  by (cases "st dir") (auto simp: mkdirAll_def fun_upd_idem)

lemma CreateCheckpoint_ok:
  assumes "name_ok projectName" and "CHR ''/'' \<notin> set (ce_stamp env)" and "tree_ok n"
    and "CreateCheckpoint env projectName (Inr n) backupRoot m ex False st = (st', Inr r)"
  shows "\<exists>es. (st (fp_join [backupRoot, projectName]) = Some es
        \<or> st (fp_join [backupRoot, projectName]) = None \<and> es = [])
    \<and> st' = enforceRotation env (fp_join [backupRoot, projectName]) m
        (st(fp_join [backupRoot, projectName] \<mapsto> remove_entry (checkpoint_file env projectName) es
          @ [(checkpoint_file env projectName,
              ArchiveFile (map tar_entry (checkpoint_entries ex n)) (ce_close_err env = None))]))
    \<and> BytesBefore r = sum_list (map (regular_size \<circ> snd) (checkpoint_entries ex n))"
proof -
  let ?dir = "fp_join [backupRoot, projectName]" and ?path = "archive_path env projectName backupRoot"
  note P = archive_path_split [OF assms(1,2), of backupRoot]
  obtain es where es: "mkdirAll ?dir st = st(?dir \<mapsto> es)"
    "st ?dir = Some es \<or> st ?dir = None \<and> es = []"
    using mkdirAll_at by blast
  from assms(4) obtain st1 b where tar: "createTarGz env (Inr n) ?path ex (mkdirAll ?dir st) = (st1, b, None)"
    and st': "st' = enforceRotation env ?dir m st1" and b: "BytesBefore r = b"
    by (auto simp: CreateCheckpoint_def Let_def split: option.splits prod.splits)
  from createTarGz_ok [OF assms(3) tar] es(1) P b
  have "st1 = st(?dir \<mapsto> remove_entry (checkpoint_file env projectName) es
          @ [(checkpoint_file env projectName,
              ArchiveFile (map tar_entry (checkpoint_entries ex n)) (ce_close_err env = None))])"
    and "BytesBefore r = sum_list (map (regular_size \<circ> snd) (checkpoint_entries ex n))"
    by auto
  with es(2) st' show ?thesis by blast
qed

lemma listing_ok_rewrite:
  "listing_ok es \<Longrightarrow> name_ok f \<Longrightarrow> listing_ok (remove_entry f es @ [(f, a)])"
  by (auto simp: listing_ok_def remove_entry_def distinct_map_filter)

lemma sorted_last_kept:
  assumes "sorted xs" and "distinct xs" and "x \<in> set xs" and "\<forall>y \<in> set xs. y \<le> x" and "k < length xs"
  shows "x \<notin> set (take k xs)"
proof
  assume "x \<in> set (take k xs)"
  moreover have "last xs \<in> set (drop k xs)" using assms(5) by (metis drop_eq_Nil last_drop last_in_set not_less)
  ultimately have "x \<le> last xs" "x \<noteq> last xs"
    using sorted_le_drop [OF assms(1)] set_take_disj_set_drop_if_distinct [OF assms(2) order.refl, of k] by auto
  moreover have "last xs \<le> x" using assms(4,5) by (metis last_in_set less_nat_zero_code list.size(3))
  ultimately show False by simp
qed

lemma newest_not_rotated:
  assumes "listing_ok es" and "(f, a) \<in> set es" and "a \<noteq> SubDir"
    and "\<forall>e \<in> set es. is_archive e \<longrightarrow> fst e \<le> f"
  shows "f \<notin> set (rotated_out m es)"
proof
  assume out: "f \<in> set (rotated_out m es)"
  then have f: "f \<in> set (archive_names es)" and m: "0 < m"
    by (auto simp: rotated_out_archive rotated_out_def split: if_splits)
  let ?k = "length (archive_names es) - nat m"
  have "archive_names es \<noteq> []" using f by auto
  then have "?k < length (archive_names es)" using m by simp
  moreover have "sorted (archive_names es)" by (simp add: archive_names_def)
  moreover have "\<forall>y \<in> set (archive_names es). y \<le> f" using assms(4) by (auto simp: set_archive_names)
  ultimately have "f \<notin> set (take ?k (archive_names es))"
    using sorted_last_kept archive_names_distinct [OF assms(1)] f by blast
  with out m show False by (simp add: rotated_out_def)
qed

text \<open>
  when no archive already in the project's directory has a name after the new one, a checkpoint that
  reports success has left its archive there, complete in content, whatever the rotation
  limit and whatever deletions fail.
\<close>

theorem checkpoint_survives_rotation:
  assumes "name_ok projectName" and "CHR ''/'' \<notin> set (ce_stamp env)" and "tree_ok n"
    and "\<forall>es. st (fp_join [backupRoot, projectName]) = Some es \<longrightarrow> listing_ok es \<and>
           (\<forall>e \<in> set es. is_archive e \<longrightarrow> fst e \<le> checkpoint_file env projectName)"
    and "ce_readdir_err env = None"
    and "CreateCheckpoint env projectName (Inr n) backupRoot m ex False st = (st', Inr r)"
  shows "\<exists>es'. st' (fp_join [backupRoot, projectName]) = Some es'
    \<and> (checkpoint_file env projectName,
        ArchiveFile (map tar_entry (checkpoint_entries ex n)) (ce_close_err env = None)) \<in> set es'"
proof -
  let ?dir = "fp_join [backupRoot, projectName]" and ?f = "checkpoint_file env projectName"
  let ?new = "(?f, ArchiveFile (map tar_entry (checkpoint_entries ex n)) (ce_close_err env = None))"
  obtain es where old: "st ?dir = Some es \<or> st ?dir = None \<and> es = []"
    and st': "st' = enforceRotation env ?dir m (st(?dir \<mapsto> remove_entry ?f es @ [?new]))"
    using CreateCheckpoint_ok [OF assms(1-3,6)] by blast
  have es: "listing_ok es" "\<forall>e \<in> set es. is_archive e \<longrightarrow> fst e \<le> ?f"
    using old assms(4) by (auto simp: listing_ok_def)
  let ?es1 = "remove_entry ?f es @ [?new]"
  have ok: "listing_ok ?es1"
    using listing_ok_rewrite [OF es(1) checkpoint_file_ok [OF assms(1,2)]] .
  have keep: "?f \<notin> set (rotated_out m ?es1)"
    using es(2) by (intro newest_not_rotated [OF ok, of _ "snd ?new"]) (auto simp: remove_entry_def)
  have clean: "fp_clean ?dir = ?dir"
    using assms(1) by (intro archiveDir_clean) (simp add: name_ok_def)
  show ?thesis
    unfolding st' enforceRotation_at [where st = "st(?dir \<mapsto> ?es1)", OF clean fun_upd_same ok assms(5)]
    using keep by simp
qed

lemma sample_checkpoint_ok:
  "\<exists>st' r. CreateCheckpoint sample_env ''p'' (Inr sample_tree) ''/b'' 1 [''models''] False (\<lambda>_. None) = (st', Inr r)"
proof -
  have "isl (snd (CreateCheckpoint sample_env ''p'' (Inr sample_tree) ''/b'' 1 [''models''] False (\<lambda>_. None))) = False"
    by code_simp
  then show ?thesis by (metis prod.collapse sum.collapse(2))
qed

theorem checkpoint_survives_rotation_witness:
  "\<exists>st' r es'. CreateCheckpoint sample_env ''p'' (Inr sample_tree) ''/b'' 1 [''models''] False (\<lambda>_. None) = (st', Inr r)
     \<and> st' (fp_join [''/b'', ''p'']) = Some es'
     \<and> (''p-20250102-030405.tgz'', ArchiveFile (map tar_entry (checkpoint_entries [''models''] sample_tree)) True) \<in> set es'"
proof -
  have "name_ok ''p''" "CHR ''/'' \<notin> set (ce_stamp sample_env)" "ce_readdir_err sample_env = None"
    "ce_close_err sample_env = None" "checkpoint_file sample_env ''p'' = ''p-20250102-030405.tgz''"
    by code_simp+
  moreover obtain st' r where "CreateCheckpoint sample_env ''p'' (Inr sample_tree) ''/b'' 1 [''models''] False (\<lambda>_. None)
      = (st', Inr r)"
    using sample_checkpoint_ok by blast
  ultimately show ?thesis
    using checkpoint_survives_rotation [of "''p''" sample_env sample_tree "\<lambda>_. None" "''/b''" 1 "[''models'']" st' r]
      sample_tree_ok by auto
qed

lemma createTarGz_footprint:
  assumes "createTarGz env src destFile ex st = (st1, b, e)" and "st (fp_dir destFile) = Some es"
  shows "st1 = st \<or> (\<exists>a. st1 = st(fp_dir destFile \<mapsto> remove_entry (fp_base destFile) es @ [(fp_base destFile, a)]))"
  using assms by (auto simp: createTarGz_def split: option.splits if_splits prod.splits)

lemma remove_entry_twice: "remove_entry f (remove_entry f es @ [(f, a)]) = remove_entry f es"
  by (simp add: remove_entry_def)


definition unreadable_tree :: fsnode where
  "unreadable_tree = plain_dir
     [(''secret'', FileNode \<lparr>f_type = RegularFile, f_size = 1, f_data = ''x'', f_info_err = None,
         f_header_err = None, f_open_err = Some ''permission denied'', f_copy_err = None\<rparr>)]"

lemma unreadable_fails:
  "snd (CreateCheckpoint sample_env ''a'' (Inr unreadable_tree) ''/b'' 1 [] False (one_dir ''/b/a'' crowded))
     = Inl (TarFailed ''permission denied'')"
  by code_simp


text \<open>Entries that are not archives survive every run, whatever its outcome.\<close>

definition keeps_others :: "listing \<Rightarrow> listing \<Rightarrow> bool" where
  "keeps_others es es' \<longleftrightarrow> (\<forall>e \<in> set es. \<not> hasSuffix (fst e) ''.tgz'' \<longrightarrow> e \<in> set es')"

lemma keeps_others_refl [simp]: "keeps_others es es"
  by (simp add: keeps_others_def)

lemma keeps_others_trans: "keeps_others a b \<Longrightarrow> keeps_others b c \<Longrightarrow> keeps_others a c"
  by (simp add: keeps_others_def)

lemma keeps_others_remove:
  "hasSuffix f ''.tgz'' \<Longrightarrow> keeps_others es (remove_entry f es)"
  "hasSuffix f ''.tgz'' \<Longrightarrow> keeps_others es (remove_entry f es @ xs)"
  by (auto simp: keeps_others_def remove_entry_def)

lemma listing_ok_filter: "listing_ok es \<Longrightarrow> listing_ok (filter P es)"
  by (auto simp: listing_ok_def distinct_map_filter)

lemma enforceRotation_keeps:
  assumes "fp_clean dir = dir" and "st dir = Some es" and "listing_ok es"
  shows "\<exists>es'. enforceRotation env dir m st = st(dir \<mapsto> es') \<and> listing_ok es' \<and> keeps_others es es'"
proof (cases "ce_readdir_err env")
  case None
  have "keeps_others es (filter (\<lambda>e. \<not> (fst e \<in> set (rotated_out m es) \<and> deletable env dir (fst e))) es)"
    using rotated_out_is_archive [OF assms(3)] by (auto simp: keeps_others_def is_archive_def)
  with enforceRotation_at [where st = st, OF assms None, of m] listing_ok_filter [OF assms(3)] show ?thesis by blast
next
  case (Some e)
  then have "enforceRotation env dir m st = st(dir \<mapsto> es)"
    using assms(2) by (simp add: enforceRotation_def fun_upd_idem split: option.split)
  then show ?thesis using assms(3) by auto
qed

lemma checkpoint_file_tgz: "hasSuffix (checkpoint_file env p) ''.tgz''"
  using hasSuffix_append [of "p @ ''-'' @ ce_stamp env" "''.tgz''"] by (simp add: checkpoint_file_def)

text \<open>
  Whatever a checkpoint runs into and however it ends, no directory other than the project's own archive
  directory changes, and in that one every entry whose name does not end in \<^verbatim>\<open>.tgz\<close> is still
  there. A dry run changes nothing at all.
\<close>

lemma checkpoint_frame:
  assumes "name_ok projectName" and "CHR ''/'' \<notin> set (ce_stamp env)"
    and "st (fp_join [backupRoot, projectName]) = Some es \<or> st (fp_join [backupRoot, projectName]) = None \<and> es = []"
    and "listing_ok es" and "CreateCheckpoint env projectName src backupRoot m ex dryRun st = (st', r)"
  shows "st' = st \<or> \<not> dryRun \<and> (\<exists>es'. st' = st(fp_join [backupRoot, projectName] \<mapsto> es') \<and> listing_ok es' \<and> keeps_others es es')"
proof (cases "dryRun \<or> ce_mkdir_err env \<noteq> None")
  case True
  then have "st' = st"
    using assms(5) by (auto simp: CreateCheckpoint_def Let_def split: option.splits prod.splits if_splits)
  then show ?thesis ..
next
  case False
  let ?dir = "fp_join [backupRoot, projectName]" and ?path = "archive_path env projectName backupRoot"
  note P = archive_path_split [OF assms(1,2), of backupRoot]
  have clean: "fp_clean ?dir = ?dir"
    using assms(1) by (intro archiveDir_clean) (simp add: name_ok_def)
  have mk: "mkdirAll ?dir st = st(?dir \<mapsto> es)" using assms(3) by (auto simp: mkdirAll_def fun_upd_idem)
  obtain st1 b eo where tar: "createTarGz env src ?path ex (st(?dir \<mapsto> es)) = (st1, b, eo)" by (metis prod.exhaust)
  consider "st1 = st(?dir \<mapsto> es)" | a where
    "st1 = st(?dir \<mapsto> remove_entry (checkpoint_file env projectName) es @ [(checkpoint_file env projectName, a)])"
    using createTarGz_footprint [OF tar, of es] P by auto
  then have "\<exists>es1. st1 = st(?dir \<mapsto> es1) \<and> listing_ok es1 \<and> keeps_others es es1"
    using assms(4) listing_ok_rewrite [OF assms(4) checkpoint_file_ok [OF assms(1,2)]]
      keeps_others_remove(2) [OF checkpoint_file_tgz] keeps_others_refl by cases blast+
  then obtain es1 where es1: "st1 = st(?dir \<mapsto> es1)" "listing_ok es1" "keeps_others es es1" by blast
  have "\<exists>es'. st' = st(?dir \<mapsto> es') \<and> listing_ok es' \<and> keeps_others es1 es'"
  proof (cases eo)
    case None
    then have "st' = enforceRotation env ?dir m st1"
      using assms(5) False mk tar by (auto simp: CreateCheckpoint_def Let_def)
    with enforceRotation_keeps [where st = st1, OF clean _ es1(2), of env m] es1(1) show ?thesis by auto
  next
    case (Some e)
    then have "st' = os_remove env ?path st1"
      using assms(5) False mk tar by (auto simp: CreateCheckpoint_def Let_def)
    with es1(1,2) P keeps_others_remove(1) [OF checkpoint_file_tgz] listing_ok_filter [OF es1(2)] show ?thesis
      by (auto simp: os_remove_def remove_entry_def)
  qed
  with es1(3) False show ?thesis using keeps_others_trans by blast
qed

text \<open>Where a rotation ends a name, at least as many later ones stay as the limit allows.\<close>

lemma rotated_out_superseded:
  assumes "listing_ok es" and "f \<in> set (rotated_out m es)"
  shows "0 < m \<and> nat m \<le> length (filter ((<) f)
    (archive_names (filter (\<lambda>e. \<not> (fst e \<in> set (rotated_out m es) \<and> Q (fst e))) es)))"
proof -
  define k where "k = length (archive_names es) - nat m"
  let ?late = "drop k (archive_names es)"
  have m: "0 < m" and out: "rotated_out m es = take k (archive_names es)"
    using assms(2) by (auto simp: rotated_out_def k_def split: if_splits)
  have f: "f \<in> set (take k (archive_names es))" using assms(2) out by simp
  then have "0 < k" by (cases k) simp_all
  then have len: "length ?late = nat m" by (simp add: k_def)
  have split: "archive_names es = take k (archive_names es) @ ?late" by simp
  have "sorted (take k (archive_names es) @ ?late)" "distinct (take k (archive_names es) @ ?late)"
    using archive_names_distinct [OF assms(1)] by (simp_all add: archive_names_def)
  then have late: "\<forall>a \<in> set ?late. f < a \<and> a \<notin> set (take k (archive_names es))"
    unfolding sorted_append distinct_append using f by (metis disjoint_iff order_le_less)
  let ?P = "\<lambda>a. f < a \<and> \<not> (a \<in> set (rotated_out m es) \<and> Q a)"
  have "filter ?P ?late = ?late" using late out by (simp add: filter_id_conv)
  then have "length ?late \<le> length (filter ?P (archive_names es))"
    by (subst split, subst filter_append) simp
  moreover have "filter ((<) f) (archive_names (filter (\<lambda>e. \<not> (fst e \<in> set (rotated_out m es) \<and> Q (fst e))) es)) =
      filter ?P (archive_names es)"
    unfolding archive_names_filter [of "\<lambda>a. \<not> (a \<in> set (rotated_out m es) \<and> Q a)"] filter_filter by (rule filter_cong) auto
  ultimately show ?thesis using m len by simp
qed

text \<open>
  A checkpoint that reports success has left its archive in the project's directory, or else a limit is set and at least so many
  archives of later names are there.
\<close>

lemma checkpoint_kept_or_superseded:
  assumes "name_ok projectName" and "CHR ''/'' \<notin> set (ce_stamp env)" and "tree_ok n"
    and "\<forall>es. st (fp_join [backupRoot, projectName]) = Some es \<longrightarrow> listing_ok es"
    and "CreateCheckpoint env projectName (Inr n) backupRoot m ex False st = (st', Inr r)"
  shows "\<exists>es'. st' (fp_join [backupRoot, projectName]) = Some es'
    \<and> ((checkpoint_file env projectName, ArchiveFile (map tar_entry (checkpoint_entries ex n)) (ce_close_err env = None)) \<in> set es'
       \<or> 0 < m \<and> nat m \<le> length (filter ((<) (checkpoint_file env projectName)) (archive_names es')))"
proof -
  let ?dir = "fp_join [backupRoot, projectName]" and ?f = "checkpoint_file env projectName"
  let ?new = "(?f, ArchiveFile (map tar_entry (checkpoint_entries ex n)) (ce_close_err env = None))"
  obtain es where old: "st ?dir = Some es \<or> st ?dir = None \<and> es = []"
    and st': "st' = enforceRotation env ?dir m (st(?dir \<mapsto> remove_entry ?f es @ [?new]))"
    using CreateCheckpoint_ok [OF assms(1-3,5)] by blast
  let ?es1 = "remove_entry ?f es @ [?new]"
  have "listing_ok es" using old assms(4) by (auto simp: listing_ok_def)
  then have ok: "listing_ok ?es1" by (rule listing_ok_rewrite [OF _ checkpoint_file_ok [OF assms(1,2)]])
  have clean: "fp_clean ?dir = ?dir"
    using assms(1) by (intro archiveDir_clean) (simp add: name_ok_def)
  show ?thesis
  proof (cases "ce_readdir_err env")
    case None
    note at = enforceRotation_at [where st = "st(?dir \<mapsto> ?es1)", OF clean fun_upd_same ok None, of m]
    show ?thesis
    proof (cases "?f \<in> set (rotated_out m ?es1)")
      case True
      show ?thesis unfolding st' at using rotated_out_superseded [OF ok True, of "deletable env ?dir"] by auto
    next
      case False
      then show ?thesis unfolding st' at by simp
    qed
  next
    case (Some e)
    then show ?thesis unfolding st' by (simp add: enforceRotation_def split: option.split)
  qed
qed

text \<open>
  where the real run would find nothing to fail on and every included file is a regular file with a
  readable size (a symbolic link of size zero counts as well), the dry run succeeds, changes no
  directory, names the archive the real run would write, and reports the byte count of the
  real run: the manifest and the tar agree about what is backed up.
\<close>

theorem dry_run_agrees:
  assumes "tree_ok n" and "checkpoint_clean ex n"
    and "\<forall>(cs, d) \<in> set (checkpoint_entries ex n). isDir d \<or> file_size d = regular_size d"
  shows "CreateCheckpoint env projectName (Inr n) backupRoot m ex True st =
     (st, Inr \<lparr>ArchivePath = archive_path env projectName backupRoot,
               BytesBefore = sum_list (map (regular_size \<circ> snd) (checkpoint_entries ex n)),
               BytesAfter = 0, Duration = ce_elapsed env\<rparr>)"
proof -
  let ?s0 = "\<lparr>mf_count = 0, mf_bytes = 0\<rparr>"
  have "snd (walkCheckpoint (Inr n) ex dry_fn ?s0) = None"
    using assms(2) dryw.walk_ok [OF assms(1)] by (simp add: checkpoint_clean_def)
  moreover from dryw.walk_fold [OF assms(1) this]
  have "mf_bytes (fst (walkCheckpoint (Inr n) ex dry_fn ?s0)) = sum_list (map (file_size \<circ> snd) (checkpoint_entries ex n))"
    by (simp add: dry_fold checkpoint_entries_def)
  moreover have "map (file_size \<circ> snd) (checkpoint_entries ex n) = map (regular_size \<circ> snd) (checkpoint_entries ex n)"
    using assms(3) by (auto simp: file_size_def split: fsnode.splits)
  ultimately show ?thesis
    by (auto simp: CreateCheckpoint_def Let_def split: prod.split option.split)
qed

theorem dry_run_agrees_witness:
  "CreateCheckpoint sample_env ''p'' (Inr sample_tree) ''/b'' 1 [''models''] True (\<lambda>_. None) =
     (\<lambda>_. None, Inr \<lparr>ArchivePath = ''/b/p/p-20250102-030405.tgz'', BytesBefore = 10, BytesAfter = 0, Duration = 7\<rparr>)"
proof -
  have "\<forall>(cs, d) \<in> set (checkpoint_entries [''models''] sample_tree). isDir d \<or> file_size d = regular_size d"
    "archive_path sample_env ''p'' ''/b'' = ''/b/p/p-20250102-030405.tgz''" "ce_elapsed sample_env = 7"
    "sum_list (map (regular_size \<circ> snd) (checkpoint_entries [''models''] sample_tree)) = 10"
    "checkpoint_clean [''models''] sample_tree"
    by code_simp+
  with dry_run_agrees [OF sample_tree_ok, of "[''models'']" sample_env "''p''" "''/b''" 1] show ?thesis
    by simp
qed

section \<open>What an exclude promises\<close>

lemma all_entries_names:
  "\<forall>c \<in> set cs. name_ok c \<Longrightarrow> tree_ok n \<Longrightarrow> (cs', d) \<in> set (all_entries cs n) \<Longrightarrow> \<forall>c \<in> set cs'. name_ok c"
  "\<forall>c \<in> set cs. name_ok c \<Longrightarrow> \<forall>(name, n) \<in> set es. name_ok name \<and> tree_ok n \<Longrightarrow>
     (cs', d) \<in> set (all_below cs es) \<Longrightarrow> \<forall>c \<in> set cs'. name_ok c"
proof (induction cs n and cs es rule: all_entries_all_below.induct)
  case (4 cs name n es)
  from 4(5) consider "(cs', d) \<in> set (all_entries (cs @ [name]) n)" | "(cs', d) \<in> set (all_below cs es)"
    by auto
  then show ?case
  proof cases
    case 1
    show ?thesis using 4(3,4) by (intro 4(1) [OF _ _ 1]) auto
  next
    case 2
    show ?thesis using 4(3,4) by (intro 4(2) [OF _ _ 2]) auto
  qed
qed auto

lemma relPath_snoc_base:
  assumes "name_ok c"
  shows "fp_base (relPath (cs @ [c])) = c"
proof -
  have c: "c \<noteq> []" "CHR ''/'' \<notin> set c" using assms by (simp_all add: name_ok_def)
  have path: "relPath (cs @ [c]) = (if cs = [] then c else joinWith ''/'' cs @ CHR ''/'' # c)"
    by (simp add: relPath_def joinWith_snoc)
  have "trimRightChar (CHR ''/'') (pre @ c) = pre @ c" for pre
    using c by (cases c rule: rev_cases) (auto simp: trimRightChar_def)
  from this [of "[]"] this [of "joinWith ''/'' cs @ ''/''"] show ?thesis
    using c by (simp add: path fp_base_def after_last_slash_append after_last_slash_plain)
qed

lemma trimChar_plain: "c \<notin> set s \<Longrightarrow> trimChar c s = s"
proof -
  have dw: "c \<notin> set xs \<Longrightarrow> dropWhile (\<lambda>x. x = c) xs = xs" for xs by (cases xs) auto
  assume "c \<notin> set s"
  then show ?thesis by (simp add: trimChar_def trimRightChar_def dw)
qed

lemma matchesExclude_base: "e \<in> set ex \<Longrightarrow> name_ok e \<Longrightarrow> fp_base p = e \<Longrightarrow> matchesExclude p ex"
  by (induction ex) (auto simp: Let_def name_ok_def trimChar_plain)

lemma included_avoids:
  assumes "included ex (cs, d)" and "\<forall>c \<in> set cs. name_ok c" and "e \<in> set ex" and "name_ok e"
  shows "e \<notin> set cs"
proof
  assume "e \<in> set cs"
  then obtain a b where cs: "cs = a @ [e] @ b" by (auto dest: split_list)
  have "matchesExclude (relPath (a @ [e])) ex"
    using assms(3,4) relPath_snoc_base by (blast intro: matchesExclude_base)
  then have bad: "skipped ex (a @ [e]) t" for t by (simp add: skipped_def)
  show False
  proof (cases "b = []")
    case True
    with assms(1) bad cs show False by (simp add: included_iff)
  next
    case False
    with assms(1) bad cs unpruned_append [of ex "a @ [e]" b] show False by (simp add: included_iff)
  qed
qed

text \<open>
  a bare name in a project's excludes keeps everything of that name, file or directory, and everything below
  it out of the archive at any depth: no archived path has the name among its elements.
\<close>

theorem excluded_name_never_archived:
  assumes "tree_ok n" and "createTarGz env (Inr n) destFile ex st = (st', b, None)"
    and "st' (fp_dir destFile) = Some es" and "(fp_base destFile, ArchiveFile tes complete) \<in> set es"
    and "te \<in> set tes" and "e \<in> set ex" and "name_ok e"
  shows "e \<notin> set (splitOn (CHR ''/'') (te_name te))"
proof -
  have "tes = map tar_entry (checkpoint_entries ex n)"
    using createTarGz_ok [OF assms(1,2)] assms(3,4) by (auto simp: remove_entry_def)
  with assms(5) obtain cs d where p: "(cs, d) \<in> set (all_entries [] n)" "included ex (cs, d)"
    and te: "te = tar_entry (cs, d)"
    by (auto simp: checkpoint_entries_def)
  have names: "\<forall>c \<in> set cs. name_ok c" using all_entries_names(1) [OF _ assms(1) p(1)] by simp
  have "te_name te = relPath cs" by (auto simp: te tar_entry_def split: fsnode.split ftype.split)
  moreover have "splitOn (CHR ''/'') (relPath cs) = cs"
    using p(2) names by (auto simp: relPath_def included_iff name_ok_def intro!: splitOn_join)
  ultimately show ?thesis using included_avoids [OF p(2) names assms(6,7)] by simp
qed

theorem excluded_name_never_archived_witness:
  "''models'' \<notin> set (splitOn (CHR ''/'') ''src/b.go'')"
proof -
  have path: "fp_dir ''/b/p/x.tgz'' = ''/b/p''" "fp_base ''/b/p/x.tgz'' = ''x.tgz''" "name_ok ''models''"
    by code_simp+
  obtain st' b where run: "createTarGz sample_env (Inr sample_tree) ''/b/p/x.tgz'' [''models''] (one_dir ''/b/p'' [])
      = (st', b, None)"
    using sample_tar_ok by (metis prod.collapse)
  then obtain c where "st' ''/b/p'' = Some [(''x.tgz'', ArchiveFile (map tar_entry (checkpoint_entries [''models''] sample_tree)) c)]"
    using createTarGz_ok [OF sample_tree_ok run] by (auto simp: path one_dir_def remove_entry_def)
  with excluded_name_never_archived [OF sample_tree_ok run, of
      "[(''x.tgz'', ArchiveFile (map tar_entry (checkpoint_entries [''models''] sample_tree)) c)]" _ c
      "\<lparr>te_name = ''src/b.go'', te_kind = TypeReg, te_link = [], te_data = ''b''\<rparr>" "''models''"]
  show ?thesis by (simp add: path sample_entries)
qed

section \<open>Where the archive loses what it was given\<close>

text \<open>
  a symbolic link is archived with its own base name as its target: two links that point to different
  targets give the same archive entry, so a restore cannot bring a link back, yet the
  checkpoint counts as a success. A project path that is itself a symbolic link gives an
  empty archive that counts as a success as well.
\<close>

theorem symlink_targets_lost:
  "tar_fn cs (plain_file (Symlink t) content) s = tar_fn cs (plain_file (Symlink u) content) s
   \<and> snd (tar_fn cs (plain_file (Symlink t) content) s) = None
   \<and> te_link (last (ts_entries (fst (tar_fn cs (plain_file (Symlink t) content) s)))) = last cs
   \<and> walkCheckpoint (Inr (plain_file (Symlink t) content)) ex tar_fn s = (s, None)"
  by (simp add: tar_fn_def plain_file_def fileInfoHeader_def walkCheckpoint_def walkRoot_def checkpoint_cb_def relPath_def)

text \<open>
  A project whose name holds a slash is accepted by the configuration and can never be backed up: the slash of the name
  stands in the file name of the archive too, in a directory nobody creates.
\<close>

theorem slashed_name_never_backed_up:
  assumes "name_ok t" and "name_ok a" and "CHR ''/'' \<notin> set (ce_stamp env)"
    and "st (fp_join [fp_join [backupRoot, t @ CHR ''/'' # a], t]) = None"
  shows "isl (snd (CreateCheckpoint env (t @ CHR ''/'' # a) src backupRoot m ex False st))"
proof -
  let ?name = "t @ CHR ''/'' # a" and ?f = "checkpoint_file env a"
  let ?dir = "fp_join [backupRoot, ?name]"
  have f: "name_ok ?f" by (rule checkpoint_file_ok [OF assms(2,3)])
  have clean: "fp_clean ?dir = ?dir" by (rule archiveDir_clean) simp
  then obtain r E where E: "canon r E" "?dir = render r E" using fp_clean_render by metis
  have t: "fp_clean (?dir @ CHR ''/'' # t) = fp_join [?dir, t]"
    using render_split(1) [OF E(1)] by (simp add: fp_join_def E(2))
  have arch: "archive_path env ?name backupRoot = fp_join [?dir @ CHR ''/'' # t, ?f]"
    using render_split(1) [OF E(1)] by (simp add: archive_path_def checkpoint_file_def fp_join_def E(2))
  have "fp_dir (fp_join [?dir @ CHR ''/'' # t, ?f]) = fp_clean (?dir @ CHR ''/'' # t)"
    using join_name(1) [OF f, of "?dir @ CHR ''/'' # t"] by (simp only: fp_join_clean [OF f])
  then have path: "fp_dir (archive_path env ?name backupRoot) = fp_join [?dir, t]" by (simp only: arch t)
  have "fp_join [?dir, t] = render r (E @ [t])"
    using fp_clean_snoc(1) [OF E(1) assms(1)] t by (simp add: E(2))
  moreover have "render r (E @ [t]) \<noteq> render r E"
    using render_split(3) [OF E(1)] render_split(3) [OF canon_snoc [OF assms(1) E(1)]] by (metis append_self_conv not_Cons_self2)
  ultimately have "mkdirAll ?dir st (fp_dir (archive_path env ?name backupRoot)) = None"
    using assms(4) by (simp add: path mkdirAll_def E(2))
  then show ?thesis by (simp add: CreateCheckpoint_def createTarGz_def Let_def split: option.split)
qed

end
