(* ===== verification/Daemon.thy ===== *)
theory Daemon
  imports StateMachine Backup
begin

text \<open>
  The control loop of \<^verbatim>\<open>cmd/delightd/main.go\<close>: one goroutine per project that polls for churn and
  runs the backup pipeline, \<^verbatim>\<open>publishBackupEvent\<close>, the metrics counters of
  \<^verbatim>\<open>pkg/metrics\<close>, and the control token. The goroutine and the HTTP handlers share the
  project's machine, so the loop is a step relation over the points at which it takes the
  machine's lock, and a handler's event may fall between any two of them.
\<close>

section \<open>Metrics\<close>

type_synonym counters = "string \<Rightarrow> 64 word option"

definition Inc :: "string \<Rightarrow> counters \<Rightarrow> counters" where
  "Inc key c = c(key \<mapsto> (case c key of None \<Rightarrow> 0 | Some n \<Rightarrow> n) + 1)"

definition Reset :: "counters \<Rightarrow> counters" where
  "Reset c = (\<lambda>_. None)"

text \<open>The counter a reader sees: an absent key counts as zero.\<close>

definition counter :: "counters \<Rightarrow> string \<Rightarrow> 64 word" where
  "counter c key = (case c key of None \<Rightarrow> 0 | Some n \<Rightarrow> n)"

text \<open>\<^verbatim>\<open>Handler\<close> writes one line per key, in the order \<open>keys\<close> the map iteration yields them.\<close>

fun metrics_dump :: "string list \<Rightarrow> counters \<Rightarrow> string" where
  "metrics_dump [] c = []"
| "metrics_dump (k # ks) c =
     (case c k of None \<Rightarrow> [] | Some n \<Rightarrow> k @ '' '' @ showInt (sint n) @ [CHR 0x0A]) @ metrics_dump ks c"

definition metric_key :: "string \<Rightarrow> string \<Rightarrow> string" where
  "metric_key metric project = metric @ ''{project='' @ [CHR 0x22] @ project @ [CHR 0x22] @ ''}''"

section \<open>Backup events\<close>

record BackupEvent =
  ev_project_name :: string
  ev_success :: bool
  ev_bytes_before :: "64 word"
  ev_bytes_after :: "64 word"
  ev_duration_milliseconds :: "32 word"
  ev_timestamp :: time

definition no_result :: CheckpointResult where
  "no_result = \<lparr>ArchivePath = [], BytesBefore = 0, BytesAfter = 0, Duration = 0\<rparr>"

text \<open>
  A publisher is absent (Kafka disabled or unreachable at start) or present; whether it delivers an event is its
  own affair, and a failure is logged only.
\<close>

definition publishBackupEvent ::
  "(BackupEvent \<Rightarrow> bool) option \<Rightarrow> time \<Rightarrow> string \<Rightarrow> bool \<Rightarrow> CheckpointResult \<Rightarrow> BackupEvent list \<Rightarrow> BackupEvent list" where
  "publishBackupEvent pub now project success res evs =
     (case pub of
        None \<Rightarrow> evs
      | Some deliver \<Rightarrow>
          let ev = \<lparr>ev_project_name = project, ev_success = success, ev_bytes_before = BytesBefore res,
                    ev_bytes_after = BytesAfter res,
                    ev_duration_milliseconds = word_of_int (goDiv (sint (Duration res)) 1000000),
                    ev_timestamp = now\<rparr>
          in if deliver ev then evs @ [ev] else evs)"

section \<open>The project loop\<close>

record loopcfg =
  lc_name :: string
  lc_check_interval :: string
  lc_max_archives :: int
  lc_exclude :: "string list"
  lc_backups_root :: string
  lc_dry_run :: bool
  lc_immediate :: bool
  lc_publisher :: "(BackupEvent \<Rightarrow> bool) option"
  lc_f2i :: "int \<Rightarrow> duration"

text \<open>
  Where the goroutine stands: between two acquisitions of the machine's lock, and between two actions that other
  goroutines can see. \<open>LPolling\<close> is the query of the git oracle under way; \<open>LFinish\<close>,
  \<open>LPublish\<close> and \<open>LRecord\<close> hold the outcome of a checkpoint that has to be counted, published and recorded.
\<close>

datatype loop_pc =
    LSelect
  | LPolling
  | LAdvance State
  | LFinish "CheckpointError + CheckpointResult"
  | LPublish "CheckpointError + CheckpointResult"
  | LRecord "CheckpointError + CheckpointResult"
  | LRetryCheck
  | LCanRetry
  | LRetry

text \<open>
  The machine is the project's own; the backup directory, the bus and the counters are shared with the loops of the other projects.
\<close>

record loopstate =
  ls_machine :: Machine
  ls_store :: store
  ls_pc :: loop_pc
  ls_events :: "BackupEvent list"
  ls_metrics :: counters

definition on_machine :: "loopcfg \<Rightarrow> reading \<Rightarrow> Event \<Rightarrow> loopstate \<Rightarrow> loopstate" where
  "on_machine c rd e s = s\<lparr>ls_machine := fst (Transition (lc_f2i c) rd e (ls_machine s))\<rparr>"

text \<open>
  Before the loop: the immediate evaluation, and the tickers. \<open>parse\<close> is \<^verbatim>\<open>time.ParseDuration\<close>;
  \<^verbatim>\<open>time.NewTicker\<close> panics on an interval that is not positive, which is \<open>None\<close>.
\<close>

definition loop_start ::
  "(string \<Rightarrow> duration option) \<Rightarrow> loopcfg \<Rightarrow> string + bool \<Rightarrow> reading \<Rightarrow> loopstate
   \<Rightarrow> (loopstate \<times> duration) option" where
  "loop_start parse c churn rd s =
     (let s1 = (if lc_immediate c \<and> churn = Inr True then on_machine c rd EventTriggerBackup s else s);
          interval = (case parse (lc_check_interval c) of Some d \<Rightarrow> d | None \<Rightarrow> word_of_int (15 * minute_ns))
      in if sint interval \<le> 0 then None else Some (s1, interval))"

definition poll_tick :: "loopcfg \<Rightarrow> loopstate \<Rightarrow> loopstate" where
  "poll_tick c s =
     (if \<not> WatchesForChurn (ls_machine s) then s
      else s\<lparr>ls_metrics := Inc (metric_key ''delightd_git_churn_checks_total'' (lc_name c)) (ls_metrics s),
             ls_pc := LPolling\<rparr>)"

text \<open>The oracle has answered; \<open>AdvanceOnChurn\<close> first reads the state.\<close>

definition polled_tick :: "string + bool \<Rightarrow> loopstate \<Rightarrow> loopstate" where
  "polled_tick churn s =
     (case churn of
        Inl e \<Rightarrow> s\<lparr>ls_pc := LSelect\<rparr>
      | Inr b \<Rightarrow> s\<lparr>ls_pc := if b then LAdvance (GetState (ls_machine s)) else LSelect\<rparr>)"

definition advance_tick :: "loopcfg \<Rightarrow> reading \<Rightarrow> State \<Rightarrow> loopstate \<Rightarrow> loopstate" where
  "advance_tick c rd seen s =
     s\<lparr>ls_machine := fst (advance_from seen (lc_f2i c) rd (ls_machine s)), ls_pc := LSelect\<rparr>"

definition eval_tick :: "loopcfg \<Rightarrow> ckenv \<Rightarrow> string + fsnode \<Rightarrow> loopstate \<Rightarrow> loopstate" where
  "eval_tick c env src s =
     (if GetState (ls_machine s) = StateBackingUp then
        (case CreateCheckpoint env (lc_name c) src (lc_backups_root c) (lc_max_archives c) (lc_exclude c)
                (lc_dry_run c) (ls_store s) of
           (st', r) \<Rightarrow> s\<lparr>ls_store := st', ls_pc := LFinish r\<rparr>)
      else s\<lparr>ls_pc := LRetryCheck\<rparr>)"

definition count_tick :: "loopcfg \<Rightarrow> CheckpointError + CheckpointResult \<Rightarrow> loopstate \<Rightarrow> loopstate" where
  "count_tick c r s =
     s\<lparr>ls_metrics := Inc (metric_key (case r of Inl e \<Rightarrow> ''delightd_backup_failures_total''
                                            | Inr res \<Rightarrow> ''delightd_backup_success_total'') (lc_name c)) (ls_metrics s),
       ls_pc := LPublish r\<rparr>"

definition publish_tick :: "loopcfg \<Rightarrow> time \<Rightarrow> CheckpointError + CheckpointResult \<Rightarrow> loopstate \<Rightarrow> loopstate" where
  "publish_tick c now r s =
     s\<lparr>ls_events := (case r of
          Inl e \<Rightarrow> publishBackupEvent (lc_publisher c) now (lc_name c) False no_result (ls_events s)
        | Inr res \<Rightarrow> publishBackupEvent (lc_publisher c) now (lc_name c) True res (ls_events s)),
       ls_pc := LRecord r\<rparr>"

definition finish_tick :: "loopcfg \<Rightarrow> reading \<Rightarrow> CheckpointError + CheckpointResult \<Rightarrow> loopstate \<Rightarrow> loopstate" where
  "finish_tick c rd r s =
     (case r of
        Inl e \<Rightarrow> (on_machine c rd EventBackupFail s)\<lparr>ls_pc := LRetryCheck\<rparr>
      | Inr res \<Rightarrow> (on_machine c rd EventBackupSuccess s)\<lparr>ls_pc := LRetryCheck\<rparr>)"

definition retry_check :: "loopstate \<Rightarrow> loopstate" where
  "retry_check s = s\<lparr>ls_pc := if GetState (ls_machine s) = StateError then LCanRetry else LSelect\<rparr>"

definition can_retry_check :: "time \<Rightarrow> loopstate \<Rightarrow> loopstate" where
  "can_retry_check now s = s\<lparr>ls_pc := if CanRetry now (ls_machine s) then LRetry else LSelect\<rparr>"

definition retry_tick :: "loopcfg \<Rightarrow> reading \<Rightarrow> loopstate \<Rightarrow> loopstate" where
  "retry_tick c rd s = (on_machine c rd EventTriggerBackup s)\<lparr>ls_pc := LSelect\<rparr>"

text \<open>
  What a checkpoint can observe: a time stamp of the layout \<^verbatim>\<open>20060102-150405\<close>, and a tree whose entries have names of a directory.
\<close>

definition stamp_format :: "string \<Rightarrow> bool" where
  "stamp_format s \<longleftrightarrow> (\<forall>c \<in> set s. c \<in> set ''0123456789-'')"

definition checkpoint_input :: "ckenv \<Rightarrow> string + fsnode \<Rightarrow> bool" where
  "checkpoint_input env src \<longleftrightarrow> stamp_format (ce_stamp env) \<and> (case src of Inl e \<Rightarrow> True | Inr n \<Rightarrow> tree_ok n)"

text \<open>What the goroutine itself does next.\<close>

inductive loop_move :: "loopcfg \<Rightarrow> loopstate \<Rightarrow> loopstate \<Rightarrow> bool" for c :: loopcfg where
  poll: "ls_pc s = LSelect \<Longrightarrow> loop_move c s (poll_tick c s)"
| polled: "ls_pc s = LPolling \<Longrightarrow> loop_move c s (polled_tick churn s)"
| advance: "ls_pc s = LAdvance seen \<Longrightarrow> loop_move c s (advance_tick c rd seen s)"
| eval: "ls_pc s = LSelect \<Longrightarrow> checkpoint_input env src \<Longrightarrow> loop_move c s (eval_tick c env src s)"
| count: "ls_pc s = LFinish r \<Longrightarrow> loop_move c s (count_tick c r s)"
| publish: "ls_pc s = LPublish r \<Longrightarrow> loop_move c s (publish_tick c now r s)"
| finish: "ls_pc s = LRecord r \<Longrightarrow> loop_move c s (finish_tick c rd r s)"
| check: "ls_pc s = LRetryCheck \<Longrightarrow> loop_move c s (retry_check s)"
| ask: "ls_pc s = LCanRetry \<Longrightarrow> loop_move c s (can_retry_check now s)"
| retry: "ls_pc s = LRetry \<Longrightarrow> loop_move c s (retry_tick c rd s)"

text \<open>
  What the loops of other projects leave alone: this project's machine, its goroutine, its counters and its events.
\<close>

definition own_events :: "string \<Rightarrow> BackupEvent list \<Rightarrow> BackupEvent list" where
  "own_events name evs = filter (\<lambda>e. ev_project_name e = name) evs"

definition own_metrics :: "string set" where
  "own_metrics = {''delightd_git_churn_checks_total'', ''delightd_backup_success_total'', ''delightd_backup_failures_total''}"

definition untouched_by_others :: "loopcfg \<Rightarrow> loopstate \<Rightarrow> loopstate \<Rightarrow> bool" where
  "untouched_by_others c s t \<longleftrightarrow>
     ls_machine t = ls_machine s \<and> ls_pc t = ls_pc s
     \<and> own_events (lc_name c) (ls_events t) = own_events (lc_name c) (ls_events s)
     \<and> (\<forall>m \<in> own_metrics. ls_metrics t (metric_key m (lc_name c)) = ls_metrics s (metric_key m (lc_name c)))"

text \<open>
  The interleaving of the goroutine with the handlers of \<^verbatim>\<open>/projects/{name}/backup\<close> and \<^verbatim>\<open>/reset\<close> and with the other loops.
\<close>

inductive loop_step :: "loopcfg \<Rightarrow> loopstate \<Rightarrow> loopstate \<Rightarrow> bool" for c :: loopcfg where
  own: "loop_move c s t \<Longrightarrow> loop_step c s t"
| http_backup: "loop_step c s (on_machine c rd EventTriggerBackup s)"
| http_reset: "loop_step c s (on_machine c rd EventClearError s)"
| others: "untouched_by_others c s t \<Longrightarrow> loop_step c s t"

inductive_cases loop_moveE: "loop_move c s t"

inductive_cases loop_stepE: "loop_step c s t"

definition loop_init :: "loopcfg \<Rightarrow> store \<Rightarrow> loopstate \<Rightarrow> bool" where
  "loop_init c st s \<longleftrightarrow>
     (\<exists>now. s = \<lparr>ls_machine = NewMachine (lc_name c) now, ls_store = st, ls_pc = LSelect,
                  ls_events = [], ls_metrics = \<lambda>_. None\<rparr>)"

section \<open>The control token\<close>

record tokenenv =
  te_token_path :: string
  te_kubeconfig :: string

definition controlTokenPath :: "tokenenv \<Rightarrow> string" where
  "controlTokenPath env =
     (if te_token_path env \<noteq> [] then te_token_path env
      else if te_kubeconfig env \<noteq> [] then fp_join [fp_dir (te_kubeconfig env), ''control-token'']
      else ''/run/delightd/control-token'')"

text \<open>\<open>readFile\<close> answers \<open>None\<close> where \<^verbatim>\<open>os.ReadFile\<close> fails; the result \<open>None\<close> is Go's nil slice.\<close>

definition loadControlToken :: "(string \<Rightarrow> bytes option) \<Rightarrow> string \<Rightarrow> bytes option" where
  "loadControlToken readFile path =
     (case readFile path of
        None \<Rightarrow> None
      | Some raw \<Rightarrow> let tok = trimSpace raw in if length tok = 0 then None else Some tok)"

section \<open>Invariant of the loop\<close>

text \<open>
  A running checkpoint keeps the machine in backing_up until its outcome is recorded, and the counters count
  the outcomes: with a publisher that delivers, they agree with the published events.
\<close>

definition outcomes :: "bool \<Rightarrow> string \<Rightarrow> BackupEvent list \<Rightarrow> nat" where
  "outcomes ok name evs = length (filter (\<lambda>e. ev_success e = ok) (own_events name evs))"

text \<open>An outcome that is counted and not yet published.\<close>

definition unpublished :: "bool \<Rightarrow> loop_pc \<Rightarrow> nat" where
  "unpublished ok pc = (case pc of LPublish r \<Rightarrow> if (\<not> isl r) = ok then 1 else 0 | _ \<Rightarrow> 0)"

abbreviation success_key :: "loopcfg \<Rightarrow> string" where
  "success_key c \<equiv> metric_key ''delightd_backup_success_total'' (lc_name c)"

abbreviation failure_key :: "loopcfg \<Rightarrow> string" where
  "failure_key c \<equiv> metric_key ''delightd_backup_failures_total'' (lc_name c)"

definition holds_outcome :: "loop_pc \<Rightarrow> bool" where
  "holds_outcome pc \<longleftrightarrow> (case pc of LFinish r \<Rightarrow> True | LPublish r \<Rightarrow> True | LRecord r \<Rightarrow> True | _ \<Rightarrow> False)"

definition loop_ok :: "loopcfg \<Rightarrow> loopstate \<Rightarrow> bool" where
  "loop_ok c s \<longleftrightarrow>
     machine_ok (ls_machine s) \<and> ProjectName (ls_machine s) = lc_name c
     \<and> (holds_outcome (ls_pc s) \<longrightarrow> CurrentState (ls_machine s) = StateBackingUp)
     \<and> (lc_publisher c = Some (\<lambda>_. True) \<longrightarrow>
        counter (ls_metrics s) (success_key c) = of_nat (outcomes True (lc_name c) (ls_events s) + unpublished True (ls_pc s)) \<and>
        counter (ls_metrics s) (failure_key c) = of_nat (outcomes False (lc_name c) (ls_events s) + unpublished False (ls_pc s)))"

lemma counter_Inc [simp]:
  "counter (Inc k m) k' = (if k = k' then counter m k' + 1 else counter m k')"
  by (simp add: counter_def Inc_def)

lemma metric_key_cong: "metric_key a p = metric_key b p \<longleftrightarrow> a = b"
  by (simp add: metric_key_def)

lemma metric_keys_differ [simp]:
  "success_key c \<noteq> failure_key c" "failure_key c \<noteq> success_key c"
  "metric_key ''delightd_git_churn_checks_total'' n \<noteq> metric_key ''delightd_backup_success_total'' n"
  "metric_key ''delightd_git_churn_checks_total'' n \<noteq> metric_key ''delightd_backup_failures_total'' n"
  by (simp_all add: metric_key_cong)

lemma on_machine_fields [simp]:
  "ls_pc (on_machine c rd e s) = ls_pc s" "ls_events (on_machine c rd e s) = ls_events s"
  "ls_metrics (on_machine c rd e s) = ls_metrics s" "ls_store (on_machine c rd e s) = ls_store s"
  "ls_machine (on_machine c rd e s) = fst (Transition (lc_f2i c) rd e (ls_machine s))"
  by (simp_all add: on_machine_def)

lemma advance_from_frame [simp]: "ProjectName (fst (advance_from seen f2i rd m)) = ProjectName m"
  by (cases seen) (simp_all add: advance_from_def)

lemma backing_up_ignores_handlers:
  "CurrentState m = StateBackingUp \<Longrightarrow> e = EventTriggerBackup \<or> e = EventClearError \<Longrightarrow>
     CurrentState (fst (Transition f2i rd e m)) = StateBackingUp"
  by (auto simp: Transition_def)

lemma on_machine_ok:
  assumes "loop_ok c s" and "e = EventTriggerBackup \<or> e = EventClearError"
  shows "loop_ok c (on_machine c rd e s)"
  using assms backing_up_ignores_handlers [of "ls_machine s" e]
  by (auto simp: loop_ok_def Transition_ok)

lemmas loop_pc_simps = holds_outcome_def unpublished_def

lemma count_tick_ok: "loop_ok c s \<Longrightarrow> ls_pc s = LFinish r \<Longrightarrow> loop_ok c (count_tick c r s)"
  by (cases r) (simp_all add: count_tick_def loop_ok_def loop_pc_simps)

lemma publish_tick_ok: "loop_ok c s \<Longrightarrow> ls_pc s = LPublish r \<Longrightarrow> loop_ok c (publish_tick c now r s)"
  by (cases r) (auto simp: publish_tick_def loop_ok_def loop_pc_simps publishBackupEvent_def outcomes_def own_events_def Let_def)

lemma finish_tick_ok: "loop_ok c s \<Longrightarrow> ls_pc s = LRecord r \<Longrightarrow> loop_ok c (finish_tick c rd r s)"
  by (cases r) (simp_all add: finish_tick_def loop_ok_def loop_pc_simps Transition_ok)

lemma loop_move_ok: "loop_ok c s \<Longrightarrow> loop_move c s t \<Longrightarrow> loop_ok c t"
proof (erule loop_move.cases, goal_cases)
  case (4 u env src)
  then show ?case
    by (auto simp: eval_tick_def loop_ok_def loop_pc_simps GetState_def split: prod.split)
next
  case (5 u r)
  then show ?case by (simp add: count_tick_ok)
next
  case (6 u r now)
  then show ?case by (simp add: publish_tick_ok)
next
  case (7 u r rd)
  then show ?case by (simp add: finish_tick_ok)
next
  case (10 u rd)
  then show ?case using on_machine_ok [of c u EventTriggerBackup rd]
    by (simp add: retry_tick_def loop_ok_def loop_pc_simps)
qed (auto simp: poll_tick_def polled_tick_def advance_tick_def retry_check_def can_retry_check_def loop_ok_def loop_pc_simps
    advance_from_ok split: sum.splits)

lemma untouched_counter:
  "untouched_by_others c s t \<Longrightarrow> m \<in> own_metrics \<Longrightarrow>
     counter (ls_metrics t) (metric_key m (lc_name c)) = counter (ls_metrics s) (metric_key m (lc_name c))"
  by (simp add: untouched_by_others_def counter_def)

lemma untouched_ok: "loop_ok c s \<Longrightarrow> untouched_by_others c s t \<Longrightarrow> loop_ok c t"
  using untouched_counter [of c s t "''delightd_backup_success_total''"]
    untouched_counter [of c s t "''delightd_backup_failures_total''"]
  by (auto simp: loop_ok_def untouched_by_others_def outcomes_def own_metrics_def)

lemma loop_step_ok: "loop_ok c s \<Longrightarrow> loop_step c s t \<Longrightarrow> loop_ok c t"
  by (erule loop_step.cases) (auto intro: loop_move_ok on_machine_ok untouched_ok)

lemma NewMachine_name [simp]: "ProjectName (NewMachine n t) = n"
  by (simp add: NewMachine_def)

lemma loop_init_ok: "loop_init c st s \<Longrightarrow> loop_ok c s"
  by (auto simp: loop_init_def loop_ok_def loop_pc_simps outcomes_def own_events_def counter_def NewMachine_ok)

interpretation loop_sys: invariant_system "loop_init c st" "loop_step c" "loop_ok c" for c st
  by unfold_locales (rule loop_init_ok, assumption, rule loop_step_ok)

section \<open>Properties\<close>

lemma outcome_keeps_backing_up:
  assumes "reachable (loop_init c st) (loop_step c) s" and "holds_outcome (ls_pc s)"
  shows "CurrentState (ls_machine s) = StateBackingUp"
  using loop_sys.reachable_inv [OF assms(1)] assms(2) by (simp add: loop_ok_def)

text \<open>
  C3: whatever backup and reset requests and whatever moves of other projects fall between the steps of a project's
  loop, a checkpoint that has run finds its machine still in backing_up when its outcome is recorded: a success makes it
  fallow with a cleared failure history, a failure makes it error with one failure more. No
  outcome is lost and no reset can slip between a checkpoint and its outcome.
\<close>

theorem checkpoint_outcome_recorded:
  assumes "reachable (loop_init c st) (loop_step c) s" and "ls_pc s = LRecord r"
  shows "case r of
      Inr res \<Rightarrow> CurrentState (ls_machine (finish_tick c rd r s)) = StateFallow
        \<and> ErrorCount (ls_machine (finish_tick c rd r s)) = 0
        \<and> NextRetryAt (ls_machine (finish_tick c rd r s)) = zero_time
    | Inl e \<Rightarrow> CurrentState (ls_machine (finish_tick c rd r s)) = StateError
        \<and> ErrorCount (ls_machine (finish_tick c rd r s)) = ErrorCount (ls_machine s) + 1"
proof -
  have "CurrentState (ls_machine s) = StateBackingUp"
    using outcome_keeps_backing_up [OF assms(1)] assms(2) by (simp add: holds_outcome_def)
  then show ?thesis by (cases r) (simp_all add: finish_tick_def Transition_def)
qed

definition demo_cfg :: loopcfg where
  "demo_cfg = \<lparr>lc_name = ''p'', lc_check_interval = ''15m'', lc_max_archives = 1, lc_exclude = [''models''],
     lc_backups_root = ''/b'', lc_dry_run = False, lc_immediate = False, lc_publisher = Some (\<lambda>_. True), lc_f2i = \<lambda>_. 0\<rparr>"

definition demo_start :: loopstate where
  "demo_start = \<lparr>ls_machine = NewMachine ''p'' 5, ls_store = \<lambda>_. None, ls_pc = LSelect, ls_events = [],
     ls_metrics = \<lambda>_. None\<rparr>"

definition demo_running :: loopstate where
  "demo_running = eval_tick demo_cfg sample_env (Inr sample_tree)
     (on_machine demo_cfg fixed_reading EventTriggerBackup demo_start)"

definition demo_published :: "CheckpointError + CheckpointResult \<Rightarrow> loopstate" where
  "demo_published r = publish_tick demo_cfg 9 r (count_tick demo_cfg r demo_running)"

lemma sample_input: "checkpoint_input sample_env (Inr sample_tree)"
  by code_simp

lemma demo_running_reachable: "reachable (loop_init demo_cfg (\<lambda>_. None)) (loop_step demo_cfg) demo_running"
proof -
  have "reachable (loop_init demo_cfg (\<lambda>_. None)) (loop_step demo_cfg) demo_start"
    by (rule reach_start) (auto simp: loop_init_def demo_start_def demo_cfg_def)
  then have "reachable (loop_init demo_cfg (\<lambda>_. None)) (loop_step demo_cfg)
      (on_machine demo_cfg fixed_reading EventTriggerBackup demo_start)"
    by (rule reach_step) (rule http_backup)
  then show ?thesis unfolding demo_running_def
    by (rule reach_step) (intro own eval, simp_all add: demo_start_def sample_input)
qed

lemma demo_running_finishes: "\<exists>res. ls_pc demo_running = LFinish (Inr res)"
proof -
  have "(case ls_pc demo_running of LFinish r \<Rightarrow> \<not> isl r | _ \<Rightarrow> False)" by code_simp
  then show ?thesis by (cases "ls_pc demo_running") (simp_all, metis sum.collapse(2))
qed

lemma demo_published_reachable:
  assumes "ls_pc demo_running = LFinish r"
  shows "reachable (loop_init demo_cfg (\<lambda>_. None)) (loop_step demo_cfg) (demo_published r)"
proof -
  have "reachable (loop_init demo_cfg (\<lambda>_. None)) (loop_step demo_cfg) (count_tick demo_cfg r demo_running)"
    by (rule reach_step [OF demo_running_reachable]) (intro own count assms)
  then show ?thesis unfolding demo_published_def
    by (rule reach_step) (intro own publish, simp add: count_tick_def)
qed

lemma demo_published_pc: "ls_pc (demo_published r) = LRecord r"
  by (simp add: demo_published_def publish_tick_def)

theorem checkpoint_outcome_recorded_witness:
  "\<exists>res. ls_pc (demo_published (Inr res)) = LRecord (Inr res)
     \<and> CurrentState (ls_machine (finish_tick demo_cfg fixed_reading (Inr res) (demo_published (Inr res)))) = StateFallow"
  using demo_running_finishes
    checkpoint_outcome_recorded [OF demo_published_reachable demo_published_pc, of "Inr _" fixed_reading]
    demo_published_pc [of "Inr _"]
  by fastforce

text \<open>
  C29: a machine leaves backing_up by one step only, the one that records the outcome of the checkpoint the loop
  has just run; a poll, a retry, a reset, a repeated backup request or another project never takes it out.
\<close>

theorem backing_up_left_only_by_outcome:
  assumes "loop_step c s t"
    and "CurrentState (ls_machine s) = StateBackingUp" and "CurrentState (ls_machine t) \<noteq> StateBackingUp"
  shows "\<exists>r rd. ls_pc s = LRecord r \<and> t = finish_tick c rd r s"
  using assms(1)
proof cases
  case own
  then show ?thesis
  proof cases
    case (advance seen rd)
    have "CurrentState (fst (advance_from seen (lc_f2i c) rd (ls_machine s))) = StateBackingUp"
      using assms(2) by (cases seen) (auto simp: advance_from_def Transition_def)
    with advance assms show ?thesis by (simp add: advance_tick_def)
  qed (use assms in \<open>auto simp: poll_tick_def polled_tick_def eval_tick_def count_tick_def publish_tick_def retry_check_def
      can_retry_check_def retry_tick_def backing_up_ignores_handlers split: sum.splits prod.splits if_splits\<close>)
qed (use assms in \<open>auto simp: backing_up_ignores_handlers untouched_by_others_def\<close>)

text \<open>
  with a publisher that delivers, the success and failure counters of \<^verbatim>\<open>/metrics\<close> agree at every
  moment with the backup events published for the project: both count the same outcomes, and a counter is ahead by the
  one outcome whose event is being published.
\<close>

theorem metrics_agree_with_events:
  assumes "reachable (loop_init c st) (loop_step c) s" and "lc_publisher c = Some (\<lambda>_. True)"
  shows "counter (ls_metrics s) (metric_key ''delightd_backup_success_total'' (lc_name c)) =
           of_nat (length (filter (\<lambda>e. ev_project_name e = lc_name c \<and> ev_success e) (ls_events s))
             + (case ls_pc s of LPublish (Inr res) \<Rightarrow> 1 | _ \<Rightarrow> 0))
    \<and> counter (ls_metrics s) (metric_key ''delightd_backup_failures_total'' (lc_name c)) =
           of_nat (length (filter (\<lambda>e. ev_project_name e = lc_name c \<and> \<not> ev_success e) (ls_events s))
             + (case ls_pc s of LPublish (Inl err) \<Rightarrow> 1 | _ \<Rightarrow> 0))"
proof -
  have "unpublished True pc = (case pc of LPublish (Inr res) \<Rightarrow> 1 | _ \<Rightarrow> 0)"
    "unpublished False pc = (case pc of LPublish (Inl err) \<Rightarrow> 1 | _ \<Rightarrow> 0)" for pc
    by (auto simp: unpublished_def split: loop_pc.split sum.split)
  then show ?thesis
    using loop_sys.reachable_inv [OF assms(1)] assms(2)
    by (simp add: loop_ok_def outcomes_def own_events_def conj_commute)
qed

theorem metrics_agree_with_events_witness:
  "\<exists>r. counter (ls_metrics (demo_published r)) (metric_key ''delightd_backup_success_total'' ''p'') = 1
     \<and> length (ls_events (demo_published r)) = 1"
proof -
  obtain res where res: "ls_pc demo_running = LFinish (Inr res)" using demo_running_finishes by blast
  have "ls_events demo_running = []" by code_simp
  then have one: "\<exists>e. ls_events (demo_published (Inr res)) = [e] \<and> ev_success e \<and> ev_project_name e = ''p''"
    by (simp add: demo_published_def publish_tick_def count_tick_def publishBackupEvent_def demo_cfg_def Let_def)
  have "lc_publisher demo_cfg = Some (\<lambda>_. True)" "lc_name demo_cfg = ''p''" by (simp_all add: demo_cfg_def)
  with metrics_agree_with_events [OF demo_published_reachable [OF res]] one
  show ?thesis by (auto simp: demo_published_pc intro!: exI [of _ "Inr res"])
qed

theorem backing_up_left_only_by_outcome_witness:
  "\<exists>r rd. ls_pc (demo_published r) = LRecord r
     \<and> finish_tick demo_cfg fixed_reading r (demo_published r) = finish_tick demo_cfg rd r (demo_published r)"
proof -
  obtain res where res: "ls_pc demo_running = LFinish (Inr res)" using demo_running_finishes by blast
  have busy: "CurrentState (ls_machine (demo_published (Inr res))) = StateBackingUp"
    using outcome_keeps_backing_up [OF demo_published_reachable [OF res]]
    by (simp add: demo_published_pc holds_outcome_def)
  then have "CurrentState (ls_machine (finish_tick demo_cfg fixed_reading (Inr res) (demo_published (Inr res)))) = StateFallow"
    by (simp add: finish_tick_def Transition_def)
  with backing_up_left_only_by_outcome [OF own [OF finish [OF demo_published_pc]], of "Inr res" demo_cfg fixed_reading] busy
  show ?thesis by (auto simp: demo_published_pc)
qed

definition poll_and_advance :: "loopcfg \<Rightarrow> reading \<Rightarrow> loopstate \<Rightarrow> loopstate" where
  "poll_and_advance c rd s =
     (let s1 = poll_tick c s
      in if ls_pc s1 \<noteq> LPolling then s1
         else let s2 = polled_tick (Inr True) s1
              in case ls_pc s2 of LAdvance seen \<Rightarrow> advance_tick c rd seen s2 | _ \<Rightarrow> s2)"

text \<open>
  C23: two polls that see churn, and no fewer, bring a fallow project to a backup, and a checkpoint that then
  succeeds brings it back: the first poll only moves it to monitoring (the debounce), the second
  starts the backup, the next evaluation runs it, publishes one success event with its sizes
  and its duration in milliseconds, and leaves the machine fallow, waiting for the next tick.
\<close>

theorem churn_cycle:
  assumes "ls_pc s = LSelect" and "CurrentState (ls_machine s) = StateFallow"
    and "s1 = poll_and_advance c rd1 s" and "s2 = poll_and_advance c rd2 s1"
    and "CreateCheckpoint env (lc_name c) src (lc_backups_root c) (lc_max_archives c) (lc_exclude c)
           (lc_dry_run c) (ls_store s) = (st', Inr res)"
    and "lc_publisher c = Some (\<lambda>_. True)"
    and "s3 = retry_check (finish_tick c rd3 (Inr res) (publish_tick c now (Inr res) (count_tick c (Inr res) (eval_tick c env src s2))))"
  shows "CurrentState (ls_machine s1) = StateMonitoring \<and> CurrentState (ls_machine s2) = StateBackingUp
    \<and> ls_pc (eval_tick c env src s2) = LFinish (Inr res)
    \<and> CurrentState (ls_machine s3) = StateFallow \<and> ls_pc s3 = LSelect \<and> ls_store s3 = st'
    \<and> ls_events s3 = ls_events s @ [\<lparr>ev_project_name = lc_name c, ev_success = True,
         ev_bytes_before = BytesBefore res, ev_bytes_after = BytesAfter res,
         ev_duration_milliseconds = word_of_int (goDiv (sint (Duration res)) 1000000), ev_timestamp = now\<rparr>]"
proof -
  have s1: "CurrentState (ls_machine s1) = StateMonitoring" "ls_pc s1 = LSelect" "ls_store s1 = ls_store s"
    "ls_events s1 = ls_events s"
    using assms(1-3) by (simp_all add: poll_and_advance_def poll_tick_def polled_tick_def WatchesForChurn_def GetState_def
        Let_def advance_tick_def advance_from_def Transition_def)
  then have s2: "CurrentState (ls_machine s2) = StateBackingUp" "ls_pc s2 = LSelect" "ls_store s2 = ls_store s"
    "ls_events s2 = ls_events s"
    using assms(4) by (simp_all add: poll_and_advance_def poll_tick_def polled_tick_def WatchesForChurn_def GetState_def
        Let_def advance_tick_def advance_from_def Transition_def)
  then have "eval_tick c env src s2 = s2\<lparr>ls_store := st', ls_pc := LFinish (Inr res)\<rparr>"
    using assms(5) by (simp add: eval_tick_def GetState_def)
  with s1 s2 assms(6,7) show ?thesis
    by (simp add: retry_check_def finish_tick_def publish_tick_def count_tick_def GetState_def Transition_def
        publishBackupEvent_def Let_def)
qed

theorem churn_cycle_witness:
  "CurrentState (ls_machine (poll_and_advance demo_cfg fixed_reading demo_start)) = StateMonitoring
   \<and> CurrentState (ls_machine (poll_and_advance demo_cfg fixed_reading
        (poll_and_advance demo_cfg fixed_reading demo_start))) = StateBackingUp"
proof -
  have start: "ls_pc demo_start = LSelect" "CurrentState (ls_machine demo_start) = StateFallow"
    "lc_publisher demo_cfg = Some (\<lambda>_. True)"
    by (simp_all add: demo_start_def demo_cfg_def NewMachine_def)
  obtain st' res where "CreateCheckpoint sample_env ''p'' (Inr sample_tree) ''/b'' 1 [''models''] False (\<lambda>_. None)
      = (st', Inr res)"
    using sample_checkpoint_ok by blast
  then have "CreateCheckpoint sample_env (lc_name demo_cfg) (Inr sample_tree) (lc_backups_root demo_cfg)
      (lc_max_archives demo_cfg) (lc_exclude demo_cfg) (lc_dry_run demo_cfg) (ls_store demo_start) = (st', Inr res)"
    by (simp add: demo_cfg_def demo_start_def)
  from churn_cycle [OF start(1,2) refl refl this start(3) refl, of fixed_reading fixed_reading fixed_reading 0]
  show ?thesis by blast
qed

text \<open>
  the loop retries a failed backup once its backoff has passed and not before: in error, the check after
  an evaluation goes back to waiting while the clock has not passed the retry time, and once it
  has, the retry brings the machine back to backing_up, with its failure count kept.
\<close>

theorem retry_after_backoff:
  assumes "CurrentState (ls_machine s) = StateError" and "ls_pc s = LSelect"
    and "s1 = can_retry_check now (retry_check (eval_tick c env src s))"
  shows "if now \<le> NextRetryAt (ls_machine s) then s1 = s
    else ls_pc s1 = LRetry
      \<and> (r_now rd \<ge> now \<longrightarrow>
           CurrentState (ls_machine (retry_tick c rd s1)) = StateBackingUp
           \<and> ErrorCount (ls_machine (retry_tick c rd s1)) = ErrorCount (ls_machine s)
           \<and> ls_pc (retry_tick c rd s1) = LSelect)"
  using assms
  by (auto simp: can_retry_check_def retry_check_def eval_tick_def GetState_def CanRetry_def retry_tick_def Transition_def)

definition failed_loop :: loopstate where
  "failed_loop = demo_start\<lparr>ls_machine := failing_run\<rparr>"

theorem retry_after_backoff_witness:
  "CurrentState (ls_machine (retry_tick demo_cfg (fixed_reading\<lparr>r_now := 200000000000\<rparr>)
     (can_retry_check 200000000000 (retry_check (eval_tick demo_cfg sample_env (Inr sample_tree) failed_loop)))))
   = StateBackingUp"
  using retry_after_backoff [of failed_loop _ 200000000000 demo_cfg sample_env "Inr sample_tree"
      "fixed_reading\<lparr>r_now := 200000000000\<rparr>", OF _ _ refl]
  by (simp add: failed_loop_def failing_run_value demo_start_def)

text \<open>
  a project whose check interval parses to zero or a negative duration stops the whole daemon: the ticker
  is created with it unchecked and panics. An interval that does not parse is replaced by
  fifteen minutes and the loop starts.
\<close>

theorem check_interval_panics:
  "loop_start parse c churn rd s = None \<longleftrightarrow>
     (case parse (lc_check_interval c) of None \<Rightarrow> False | Some d \<Rightarrow> sint d \<le> 0)"
  by (auto simp: loop_start_def Let_def split: option.split)

text \<open>
  a loaded control token is never empty: an unreadable file and a file of blanks both give no token at
  all, so an empty bearer can never become the expected one.
\<close>

theorem control_token_never_empty:
  "case loadControlToken readFile path of
     Some tok \<Rightarrow> tok \<noteq> [] \<and> (\<exists>raw. readFile path = Some raw \<and> tok = trimSpace raw)
   | None \<Rightarrow> (case readFile path of None \<Rightarrow> True | Some raw \<Rightarrow> trimSpace raw = [])"
  by (auto simp: loadControlToken_def Let_def split: option.split)

end
