(* ===== verification/Bolt.thy ===== *)
theory Bolt
  imports Prelude
begin

text \<open>
  The embedded store under \<^verbatim>\<open>pkg/registry\<close> and \<^verbatim>\<open>pkg/enablement\<close>. bbolt and the JSON codecs are
  not part of the repository: a bucket is a record of operations and a codec a pair of
  functions, both arguments of every definition that uses them. What the callers rely on of
  their documented behaviour is the two locales \<open>bolt\<close> and \<open>codec\<close>; the reference bucket at
  the end, a sorted association list with bbolt's key and value limits, satisfies the first.
\<close>

section \<open>Buckets and transactions\<close>

text \<open>
  One bucket of type \<open>'b\<close> holding values of type \<open>'v\<close>. \<open>kv_begin\<close> and \<open>kv_commit\<close> are the
  failures of opening and of committing a transaction, \<open>kv_entries\<close> is a cursor's scan.
\<close>

record ('b, 'v) kv =
  kv_get :: "'b \<Rightarrow> string \<Rightarrow> 'v option"
  kv_put :: "'b \<Rightarrow> string \<Rightarrow> 'v \<Rightarrow> string + 'b"
  kv_delete :: "'b \<Rightarrow> string \<Rightarrow> string + 'b"
  kv_entries :: "'b \<Rightarrow> (string \<times> 'v) list"
  kv_fits :: "'v \<Rightarrow> bool"
  kv_begin :: "'b \<Rightarrow> string option"
  kv_commit :: "'b \<Rightarrow> string option"

record ('m, 'v) codec =
  cd_marshal :: "'m \<Rightarrow> string + 'v"
  cd_unmarshal :: "'v \<Rightarrow> string + 'm"

text \<open>
  \<^verbatim>\<open>db.Update\<close>: the closure answers with the value of the variables it captured and its error or the changed
  bucket. An error, also one of the commit, rolls the bucket back; the captured variables keep
  what the closure wrote.
\<close>

definition db_update ::
  "('b, 'v) kv \<Rightarrow> 'r \<Rightarrow> ('b \<Rightarrow> 'r \<times> (string + 'b)) \<Rightarrow> 'b \<Rightarrow> 'b \<times> 'r \<times> string option" where
  "db_update K r0 f b =
     (case kv_begin K b of
        Some e \<Rightarrow> (b, r0, Some e)
      | None \<Rightarrow>
          (case f b of
             (r, Inl e) \<Rightarrow> (b, r, Some e)
           | (r, Inr b') \<Rightarrow> (case kv_commit K b' of Some e \<Rightarrow> (b, r, Some e) | None \<Rightarrow> (b', r, None))))"

definition db_view :: "('b, 'v) kv \<Rightarrow> 'r \<Rightarrow> ('b \<Rightarrow> 'r \<times> string option) \<Rightarrow> 'b \<Rightarrow> 'r \<times> string option" where
  "db_view K r0 f b = (case kv_begin K b of Some e \<Rightarrow> (r0, Some e) | None \<Rightarrow> f b)"

fun put_all :: "('b, 'v) kv \<Rightarrow> (string \<times> 'v) list \<Rightarrow> 'b \<Rightarrow> string + 'b" where
  "put_all K [] b = Inr b"
| "put_all K ((k, v) # us) b = (case kv_put K b k v of Inl e \<Rightarrow> Inl e | Inr b' \<Rightarrow> put_all K us b')"

fun delete_all :: "('b, 'v) kv \<Rightarrow> string list \<Rightarrow> 'b \<Rightarrow> string + 'b" where
  "delete_all K [] b = Inr b"
| "delete_all K (k # ks) b = (case kv_delete K b k of Inl e \<Rightarrow> Inl e | Inr b' \<Rightarrow> delete_all K ks b')"

section \<open>Contracts\<close>

text \<open>
  What bbolt documents: a put and a delete change the one key, a cursor yields every pair once in byte order
  of the keys, keys are not empty and at most 32768 bytes, and within these limits a put
  succeeds; a delete does, also of an absent key.
\<close>

definition key_ok :: "string \<Rightarrow> bool" where
  "key_ok k \<longleftrightarrow> k \<noteq> [] \<and> length k \<le> 32768"

locale bolt =
  fixes K :: "('b, 'v) kv"
  assumes get_put: "kv_put K b k v = Inr b' \<Longrightarrow> kv_get K b' = (kv_get K b)(k \<mapsto> v)"
    and put_total: "key_ok k \<Longrightarrow> kv_fits K v \<Longrightarrow> \<exists>b'. kv_put K b k v = Inr b'"
    and get_delete: "kv_delete K b k = Inr b' \<Longrightarrow> kv_get K b' = (kv_get K b)(k := None)"
    and delete_total: "\<exists>b'. kv_delete K b k = Inr b'"
    and entries_get: "map_of (kv_entries K b) = kv_get K b"
    and entries_sorted: "sorted (map fst (kv_entries K b)) \<and> distinct (map fst (kv_entries K b))"
    and keys_ok: "(k, v) \<in> set (kv_entries K b) \<Longrightarrow> key_ok k"
begin

lemma entry_iff: "(k, v) \<in> set (kv_entries K b) \<longleftrightarrow> kv_get K b k = Some v"
  using entries_sorted [of b] by (simp flip: entries_get)

lemma get_put_all:
  "put_all K us b = Inr b' \<Longrightarrow> distinct (map fst us) \<Longrightarrow> kv_get K b' = kv_get K b ++ map_of us"
proof (induction us arbitrary: b)
  case (Cons u us)
  obtain k v where u: "u = (k, v)" by (cases u)
  with Cons.prems obtain b1 where b1: "kv_put K b k v = Inr b1" "put_all K us b1 = Inr b'"
    by (auto split: sum.splits)
  with Cons u have "kv_get K b' = (kv_get K b)(k \<mapsto> v) ++ map_of us"
    by (simp add: get_put)
  moreover have "map_of us k = None" using Cons.prems(2) u by (simp add: map_of_eq_None_iff)
  ultimately show ?case by (auto simp: u map_add_def fun_eq_iff split: option.split)
qed simp

lemma get_delete_all:
  "\<exists>b'. delete_all K ks b = Inr b' \<and> kv_get K b' = (\<lambda>k. if k \<in> set ks then None else kv_get K b k)"
proof (induction ks arbitrary: b)
  case (Cons k ks)
  obtain b1 where b1: "kv_delete K b k = Inr b1" using delete_total by blast
  with Cons.IH [of b1] get_delete [OF b1] show ?case by (auto simp: fun_eq_iff)
qed simp

lemma put_all_total:
  assumes "\<forall>(k, v) \<in> set us. key_ok k \<and> kv_fits K v"
  shows "\<exists>b'. put_all K us b = Inr b'"
  using assms
proof (induction us arbitrary: b)
  case (Cons u us)
  then obtain b1 where "kv_put K b (fst u) (snd u) = Inr b1" using put_total by fastforce
  with Cons show ?case by (cases u) auto
qed simp

end

text \<open>The codec contract: what was marshalled is read back.\<close>

locale codec_law =
  fixes C :: "('m, 'v) codec"
  assumes roundtrip: "cd_marshal C m = Inr v \<Longrightarrow> cd_unmarshal C v = Inr m"

text \<open>The codec that keeps the message itself.\<close>

definition id_codec :: "('m, 'm) codec" where
  "id_codec = \<lparr>cd_marshal = Inr, cd_unmarshal = Inr\<rparr>"

interpretation plain: codec_law id_codec
  by unfold_locales (simp add: id_codec_def)

section \<open>The reference bucket\<close>

text \<open>A sorted association list, with bbolt's limits on keys; \<open>fits\<close> is its limit on values.\<close>

fun ref_insert :: "string \<Rightarrow> 'v \<Rightarrow> (string \<times> 'v) list \<Rightarrow> (string \<times> 'v) list" where
  "ref_insert k v [] = [(k, v)]"
| "ref_insert k v ((k', v') # es) =
     (if k < k' then (k, v) # (k', v') # es
      else if k = k' then (k, v) # es
      else (k', v') # ref_insert k v es)"

typedef 'v bucket = "{es :: (string \<times> 'v) list.
    sorted (map fst es) \<and> distinct (map fst es) \<and> (\<forall>e \<in> set es. key_ok (fst e))}"
  by (rule exI [of _ "[]"]) simp

setup_lifting type_definition_bucket

lemma ref_insert_set: "fst ` set (ref_insert k v es) = insert k (fst ` set es)"
  by (induction k v es rule: ref_insert.induct) auto

lemma ref_insert_key_ok:
  "\<forall>e \<in> set es. key_ok (fst e) \<Longrightarrow> key_ok k \<Longrightarrow> \<forall>e \<in> set (ref_insert k v es). key_ok (fst e)"
  by (induction k v es rule: ref_insert.induct) auto

lemma ref_insert_sorted:
  "sorted (map fst es) \<and> distinct (map fst es) \<Longrightarrow>
   sorted (map fst (ref_insert k v es)) \<and> distinct (map fst (ref_insert k v es))"
proof (induction k v es rule: ref_insert.induct)
  case (2 k v k' v' es)
  have keys: "set (map fst (ref_insert k v es)) = insert k (fst ` set es)"
    using ref_insert_set [of k v es] by simp
  from 2 show ?case
    by (cases "k < k'"; cases "k = k'") (auto simp: keys ref_insert_set dest: order.strict_implies_order)
qed simp

lemma ref_insert_map_of: "map_of (ref_insert k v es) = (map_of es)(k \<mapsto> v)"
  by (induction k v es rule: ref_insert.induct) (auto simp: fun_eq_iff)

lift_definition bk_entries :: "'v bucket \<Rightarrow> (string \<times> 'v) list" is "\<lambda>es. es" .

lift_definition bk_insert :: "string \<Rightarrow> 'v \<Rightarrow> 'v bucket \<Rightarrow> 'v bucket" is
  "\<lambda>k v es. if key_ok k then ref_insert k v es else es"
  by (simp add: ref_insert_sorted) (blast dest: ref_insert_key_ok)

lift_definition bk_delete :: "string \<Rightarrow> 'v bucket \<Rightarrow> 'v bucket" is "\<lambda>k. filter (\<lambda>e. fst e \<noteq> k)"
  by (auto simp: sorted_filter distinct_map_filter)

lift_definition bk_empty :: "'v bucket" is "[]" by simp

definition ref_kv :: "('v \<Rightarrow> bool) \<Rightarrow> ('v bucket, 'v) kv" where
  "ref_kv fits =
     \<lparr>kv_get = \<lambda>b k. map_of (bk_entries b) k,
      kv_put = \<lambda>b k v. if k = [] then Inl ''key required'' else if length k > 32768 then Inl ''key too large''
                       else if \<not> fits v then Inl ''value too large'' else Inr (bk_insert k v b),
      kv_delete = \<lambda>b k. Inr (bk_delete k b),
      kv_entries = bk_entries,
      kv_fits = fits,
      kv_begin = \<lambda>_. None,
      kv_commit = \<lambda>_. None\<rparr>"

lemma bk_entries_props:
  "sorted (map fst (bk_entries b)) \<and> distinct (map fst (bk_entries b))"
  "(k, v) \<in> set (bk_entries b) \<Longrightarrow> key_ok k"
  by (transfer, auto)+

lemma bk_insert_map_of: "key_ok k \<Longrightarrow> map_of (bk_entries (bk_insert k v b)) = (map_of (bk_entries b))(k \<mapsto> v)"
  by transfer (simp add: ref_insert_map_of)

lemma bk_delete_map_of: "map_of (bk_entries (bk_delete k b)) = (map_of (bk_entries b))(k := None)"
proof (transfer, rule ext)
  fix k :: string and es :: "(string \<times> 'a) list" and x
  show "map_of (filter (\<lambda>e. fst e \<noteq> k) es) x = ((map_of es)(k := None)) x"
    by (induction es) auto
qed

interpretation ref: bolt "ref_kv fits" for fits
  by unfold_locales
    (auto simp: ref_kv_def key_ok_def bk_entries_props bk_delete_map_of bk_insert_map_of
      dest: bk_entries_props(2) split: if_splits)

end
