(* ===== verification/Registry.thy ===== *)
theory Registry
  imports Bolt Paths
begin

text \<open>
  The live registry of \<^verbatim>\<open>pkg/registry/registry.go\<close>: registrations keyed by project in one bucket, the
  collision-checked \<open>Upsert\<close>, the heartbeat's \<open>RefreshLease\<close>, the sweep's \<open>ExpireDue\<close> and the
  boot's \<open>ReconcileWarmStart\<close>, each one transaction. The messages are those of
  \<^verbatim>\<open>proto/frood/v1\<close> and \<^verbatim>\<open>proto/registry/v1\<close>; an absent submessage is \<open>None\<close>.
\<close>

section \<open>Messages\<close>

record Identity =
  id_service_name :: string
  id_project :: string
  id_version :: string

record ContractRef =
  cr_subject :: string
  cr_version :: string

record ContractDescriptor =
  cd_emits :: "ContractRef list"
  cd_consumes :: "ContractRef list"
  cd_serves :: "ContractRef list"

record Endpoint =
  ep_scheme :: string
  ep_address :: string

record Registration =
  rg_project :: string
  rg_identity :: "Identity option"
  rg_contracts :: "ContractDescriptor option"
  rg_endpoint :: "Endpoint option"
  rg_registered_at :: "time option"
  rg_lease_expires_at :: "time option"

text \<open>The generated getters read the zero value through an absent message.\<close>

definition reg_address :: "Registration \<Rightarrow> string" where
  "reg_address r = (case rg_endpoint r of None \<Rightarrow> [] | Some e \<Rightarrow> ep_address e)"

definition reg_service :: "Registration \<Rightarrow> string" where
  "reg_service r = (case rg_identity r of None \<Rightarrow> [] | Some i \<Rightarrow> id_service_name i)"

section \<open>Lease policy\<close>

definition DefaultLeaseTTL :: int where
  "DefaultLeaseTTL = 90 * second_ns"

definition WarmStartGrace :: int where
  "WarmStartGrace = 30 * second_ns"

definition DefaultSweepInterval :: int where
  "DefaultSweepInterval = 15 * second_ns"

section \<open>Operations\<close>

datatype UpsertError = ErrEndpointHeld | StoreError string

text \<open>
  \<^verbatim>\<open>Open\<close>: the directory, the file, the bucket; the first failure is returned as it is and leaves no store.
\<close>

definition OpenRegistry ::
  "('b, 'v) kv \<Rightarrow> (string \<Rightarrow> string option) \<Rightarrow> (string \<Rightarrow> string + 'b) \<Rightarrow> ('b \<Rightarrow> string + 'b) \<Rightarrow> string \<Rightarrow> string + 'b" where
  "OpenRegistry K mkdir boltOpen ensure path =
     (case mkdir (fp_dir path) of
        Some e \<Rightarrow> Inl e
      | None \<Rightarrow>
          (case boltOpen path of
             Inl e \<Rightarrow> Inl e
           | Inr db \<Rightarrow>
               (case db_update K () (\<lambda>b. ((), ensure b)) db of
                  (db', _, Some e) \<Rightarrow> Inl e
                | (db', _, None) \<Rightarrow> Inr db')))"

definition decode :: "(Registration, 'v) codec \<Rightarrow> 'v \<Rightarrow> Registration option" where
  "decode C v = (case cd_unmarshal C v of Inl e \<Rightarrow> None | Inr r \<Rightarrow> Some r)"

definition Put :: "('b, 'v) kv \<Rightarrow> (Registration, 'v) codec \<Rightarrow> Registration \<Rightarrow> 'b \<Rightarrow> 'b \<times> string option" where
  "Put K C reg b =
     (case cd_marshal C reg of
        Inl e \<Rightarrow> (b, Some e)
      | Inr v \<Rightarrow>
          (case db_update K () (\<lambda>bkt. ((), kv_put K bkt (rg_project reg) v)) b of (b', _, e) \<Rightarrow> (b', e)))"

text \<open>The cursor loop of \<open>Upsert\<close>: the first other project whose decodable value holds the address.\<close>

fun find_holder ::
  "(Registration, 'v) codec \<Rightarrow> string \<Rightarrow> string \<Rightarrow> (string \<times> 'v) list \<Rightarrow> string option" where
  "find_holder C project addr [] = None"
| "find_holder C project addr ((k, v) # es) =
     (if k = project then find_holder C project addr es
      else
        (case decode C v of
           None \<Rightarrow> find_holder C project addr es
         | Some existing \<Rightarrow>
             if reg_address existing = addr then Some k else find_holder C project addr es))"

definition Upsert ::
  "('b, 'v) kv \<Rightarrow> (Registration, 'v) codec \<Rightarrow> Registration \<Rightarrow> 'b \<Rightarrow> 'b \<times> string \<times> UpsertError option" where
  "Upsert K C reg b =
     (case cd_marshal C reg of
        Inl e \<Rightarrow> (b, [], Some (StoreError e))
      | Inr v \<Rightarrow>
          (let addr = reg_address reg;
               holder_of = (\<lambda>bkt. if addr \<noteq> [] then find_holder C (rg_project reg) addr (kv_entries K bkt) else None)
           in case db_update K None
                (\<lambda>bkt. case holder_of bkt of
                         Some h \<Rightarrow> (Some h, Inl ''endpoint already held by another project'')
                       | None \<Rightarrow> (None, kv_put K bkt (rg_project reg) v)) b of
                (b', Some h, e) \<Rightarrow> (b', h, Some ErrEndpointHeld)
              | (b', None, None) \<Rightarrow> (b', [], None)
              | (b', None, Some e) \<Rightarrow> (b', [], Some (StoreError e))))"

definition Delete :: "('b, 'v) kv \<Rightarrow> string \<Rightarrow> 'b \<Rightarrow> 'b \<times> string option" where
  "Delete K project b = (case db_update K () (\<lambda>bkt. ((), kv_delete K bkt project)) b of (b', _, e) \<Rightarrow> (b', e))"

definition Get :: "('b, 'v) kv \<Rightarrow> (Registration, 'v) codec \<Rightarrow> string \<Rightarrow> 'b \<Rightarrow> Registration option" where
  "Get K C project b =
     fst (db_view K None
       (\<lambda>bkt. case kv_get K bkt project of
                None \<Rightarrow> (None, None)
              | Some v \<Rightarrow> (case cd_unmarshal C v of Inl e \<Rightarrow> (None, Some e) | Inr r \<Rightarrow> (Some r, None))) b)"

definition ListAll :: "('b, 'v) kv \<Rightarrow> (Registration, 'v) codec \<Rightarrow> 'b \<Rightarrow> Registration list" where
  "ListAll K C b =
     sort_key rg_project
       (fst (db_view K [] (\<lambda>bkt. (List.map_filter (\<lambda>(k, v). decode C v) (kv_entries K bkt), None)) b))"

text \<open>\<^verbatim>\<open>Set\<close> wraps the list as a \<^verbatim>\<open>RegistrationSet\<close>.\<close>

record RegistrationSet =
  rs_registrations :: "Registration list"

definition SetAll :: "('b, 'v) kv \<Rightarrow> (Registration, 'v) codec \<Rightarrow> 'b \<Rightarrow> RegistrationSet" where
  "SetAll K C b = \<lparr>rs_registrations = ListAll K C b\<rparr>"

text \<open>
  The scan of \<open>RefreshLease\<close> and \<open>ReconcileWarmStart\<close>: the updates for the values that decode and match,
  or the first marshalling error. \<open>until\<close> gives the lease for the entry at hand, since
  \<open>RefreshLease\<close> reads the clock once for each.
\<close>

fun restamp ::
  "(Registration, 'v) codec \<Rightarrow> (Registration \<Rightarrow> bool) \<Rightarrow> (string \<Rightarrow> time) \<Rightarrow> (string \<times> 'v) list
   \<Rightarrow> string + (string \<times> 'v) list" where
  "restamp C match until [] = Inr []"
| "restamp C match until ((k, v) # es) =
     (case decode C v of
        None \<Rightarrow> restamp C match until es
      | Some reg \<Rightarrow>
          if \<not> match reg then restamp C match until es
          else
            (case cd_marshal C (reg\<lparr>rg_lease_expires_at := Some (until k)\<rparr>) of
               Inl e \<Rightarrow> Inl e
             | Inr v' \<Rightarrow> (case restamp C match until es of Inl e \<Rightarrow> Inl e | Inr us \<Rightarrow> Inr ((k, v') # us))))"

text \<open>
  \<open>RefreshLease\<close>'s put loop: \<open>refreshed\<close> is set after the first successful put, also when a later one
  fails and the transaction rolls back.
\<close>

fun refresh_puts :: "('b, 'v) kv \<Rightarrow> (string \<times> 'v) list \<Rightarrow> bool \<Rightarrow> 'b \<Rightarrow> bool \<times> (string + 'b)" where
  "refresh_puts K [] done b = (done, Inr b)"
| "refresh_puts K ((k, v) # us) done b =
     (case kv_put K b k v of Inl e \<Rightarrow> (done, Inl e) | Inr b' \<Rightarrow> refresh_puts K us True b')"

definition RefreshLease ::
  "('b, 'v) kv \<Rightarrow> (Registration, 'v) codec \<Rightarrow> (string \<Rightarrow> time) \<Rightarrow> string \<Rightarrow> int \<Rightarrow> 'b \<Rightarrow> 'b \<times> bool \<times> string option" where
  "RefreshLease K C clock name ttl b =
     (if name = [] then (b, False, None)
      else db_update K False
        (\<lambda>bkt. case restamp C (\<lambda>r. reg_service r = name) (\<lambda>k. clock k + ttl) (kv_entries K bkt) of
                 Inl e \<Rightarrow> (False, Inl e)
               | Inr us \<Rightarrow> refresh_puts K us False bkt) b)"

definition due :: "time \<Rightarrow> Registration \<Rightarrow> bool" where
  "due now r \<longleftrightarrow> (case rg_lease_expires_at r of None \<Rightarrow> True | Some t \<Rightarrow> \<not> now < t)"

fun due_entries :: "(Registration, 'v) codec \<Rightarrow> time \<Rightarrow> (string \<times> 'v) list \<Rightarrow> (string \<times> Registration) list" where
  "due_entries C now [] = []"
| "due_entries C now ((k, v) # es) =
     (case decode C v of
        None \<Rightarrow> due_entries C now es
      | Some reg \<Rightarrow> if due now reg then (k, reg) # due_entries C now es else due_entries C now es)"

definition ExpireDue ::
  "('b, 'v) kv \<Rightarrow> (Registration, 'v) codec \<Rightarrow> time \<Rightarrow> 'b \<Rightarrow> 'b \<times> Registration list \<times> string option" where
  "ExpireDue K C now b =
     db_update K []
       (\<lambda>bkt. let ds = due_entries C now (kv_entries K bkt)
              in (map snd ds, delete_all K (map fst ds) bkt)) b"

definition ReconcileWarmStart ::
  "('b, 'v) kv \<Rightarrow> (Registration, 'v) codec \<Rightarrow> time \<Rightarrow> int \<Rightarrow> 'b \<Rightarrow> 'b \<times> string option" where
  "ReconcileWarmStart K C now grace b =
     (case db_update K ()
        (\<lambda>bkt. case restamp C (\<lambda>r. True) (\<lambda>k. now + grace) (kv_entries K bkt) of
                 Inl e \<Rightarrow> ((), Inl e)
               | Inr us \<Rightarrow> ((), put_all K us bkt)) b of
        (b', _, e) \<Rightarrow> (b', e))"

text \<open>
  The heartbeat consumer and the sweep of \<^verbatim>\<open>main.go\<close> around these operations: the service names
  seen since boot, and the log line the sweep writes for each expired registration.
\<close>

datatype sweep_log = NeverRefreshed string string | LeaseLapsed string string | SweepFailed string

definition on_heartbeat ::
  "('b, 'v) kv \<Rightarrow> (Registration, 'v) codec \<Rightarrow> (string \<Rightarrow> time) \<Rightarrow> string + string \<Rightarrow> 'b \<times> string set
   \<Rightarrow> ('b \<times> string set) \<times> string option" where
  "on_heartbeat K C clock beat s =
     (case s of (b, refreshedSeen) \<Rightarrow>
        (case beat of
           Inl e \<Rightarrow> ((b, refreshedSeen), Some e)
         | Inr svc \<Rightarrow>
             (case RefreshLease K C clock svc DefaultLeaseTTL b of
                (b', ok, Some e) \<Rightarrow> ((b', refreshedSeen), Some e)
              | (b', ok, None) \<Rightarrow> ((b', if ok then insert svc refreshedSeen else refreshedSeen), None))))"

definition sweep ::
  "('b, 'v) kv \<Rightarrow> (Registration, 'v) codec \<Rightarrow> time \<Rightarrow> 'b \<times> string set \<Rightarrow> ('b \<times> string set) \<times> sweep_log list" where
  "sweep K C now s =
     (case s of (b, refreshedSeen) \<Rightarrow>
        (case ExpireDue K C now b of
           (b', expired, Some e) \<Rightarrow> ((b', refreshedSeen), [SweepFailed e])
         | (b', expired, None) \<Rightarrow>
             ((b', refreshedSeen),
              map (\<lambda>r. if reg_service r \<in> refreshedSeen then LeaseLapsed (rg_project r) (reg_service r)
                       else NeverRefreshed (rg_project r) (reg_service r)) expired)))"

section \<open>The abstract registry\<close>

text \<open>What the bucket says: the registration of each project whose stored value decodes.\<close>

definition live :: "('b, 'v) kv \<Rightarrow> (Registration, 'v) codec \<Rightarrow> 'b \<Rightarrow> string \<Rightarrow> Registration option" where
  "live K C b k = Option.bind (kv_get K b k) (decode C)"

definition exclusive :: "(string \<Rightarrow> Registration option) \<Rightarrow> bool" where
  "exclusive m \<longleftrightarrow>
     (\<forall>k k' r r'. m k = Some r \<and> m k' = Some r' \<and> reg_address r = reg_address r' \<and> reg_address r \<noteq> []
        \<longrightarrow> k = k')"

definition keyed :: "(string \<Rightarrow> Registration option) \<Rightarrow> bool" where
  "keyed m \<longleftrightarrow> (\<forall>k r. m k = Some r \<longrightarrow> rg_project r = k)"

text \<open>The abstract operations on the map of live registrations.\<close>

definition stamp_map ::
  "(Registration \<Rightarrow> bool) \<Rightarrow> (string \<Rightarrow> time) \<Rightarrow> (string \<Rightarrow> Registration option) \<Rightarrow> string \<Rightarrow> Registration option" where
  "stamp_map match until m k =
     map_option (\<lambda>r. if match r then r\<lparr>rg_lease_expires_at := Some (until k)\<rparr> else r) (m k)"

definition drop_due :: "time \<Rightarrow> (string \<Rightarrow> Registration option) \<Rightarrow> string \<Rightarrow> Registration option" where
  "drop_due now m k = (case m k of None \<Rightarrow> None | Some r \<Rightarrow> if due now r then None else Some r)"

lemma reg_address_stamp [simp]: "reg_address (r\<lparr>rg_lease_expires_at := t\<rparr>) = reg_address r"
  by (simp add: reg_address_def)

lemma exclusiveI:
  "(\<And>k k' r r'. m k = Some r \<Longrightarrow> m k' = Some r' \<Longrightarrow> reg_address r = reg_address r' \<Longrightarrow> reg_address r \<noteq> [] \<Longrightarrow> k = k')
   \<Longrightarrow> exclusive m"
  unfolding exclusive_def by blast

lemma exclusiveD:
  "exclusive m \<Longrightarrow> m k = Some r \<Longrightarrow> m k' = Some r' \<Longrightarrow> reg_address r = reg_address r' \<Longrightarrow> reg_address r \<noteq> [] \<Longrightarrow> k = k'"
  unfolding exclusive_def by blast

lemma exclusive_via:
  assumes "exclusive m" and "\<And>k r. m' k = Some r \<Longrightarrow> \<exists>r0. m k = Some r0 \<and> reg_address r0 = reg_address r"
  shows "exclusive m'"
proof (rule exclusiveI)
  fix k k' r r'
  assume *: "m' k = Some r" "m' k' = Some r'" "reg_address r = reg_address r'" "reg_address r \<noteq> []"
  from assms(2) [OF *(1)] assms(2) [OF *(2)] obtain q q' where
    "m k = Some q" "m k' = Some q'" "reg_address q = reg_address r" "reg_address q' = reg_address r'"
    by blast
  then show "k = k'" using exclusiveD [OF assms(1), of k q k' q'] *(3,4) by simp
qed

lemma exclusive_stamp: "exclusive m \<Longrightarrow> exclusive (stamp_map match until m)"
  by (erule exclusive_via) (auto simp: stamp_map_def)

lemma keyed_stamp: "keyed m \<Longrightarrow> keyed (stamp_map match until m)"
  unfolding keyed_def stamp_map_def by (auto split: if_splits)

lemma exclusive_submap: "exclusive m \<Longrightarrow> (\<And>k r. m' k = Some r \<Longrightarrow> m k = Some r) \<Longrightarrow> exclusive m'"
  by (erule exclusive_via) blast

lemma keyed_submap: "keyed m \<Longrightarrow> (\<And>k r. m' k = Some r \<Longrightarrow> m k = Some r) \<Longrightarrow> keyed m'"
  unfolding keyed_def by blast

lemma drop_due_submap: "drop_due now m k = Some r \<Longrightarrow> m k = Some r"
  by (auto simp: drop_due_def split: option.splits if_splits)

lemma exclusive_insert:
  assumes "exclusive m"
    and "reg_address r \<noteq> [] \<Longrightarrow> \<forall>k r'. k \<noteq> p \<and> m k = Some r' \<longrightarrow> reg_address r' \<noteq> reg_address r"
  shows "exclusive (m(p \<mapsto> r))"
proof (rule exclusiveI)
  fix k k' q q'
  assume *: "(m(p \<mapsto> r)) k = Some q" "(m(p \<mapsto> r)) k' = Some q'" "reg_address q = reg_address q'" "reg_address q \<noteq> []"
  consider "k = p" "k' = p" | "k = p" "k' \<noteq> p" | "k \<noteq> p" "k' = p" | "k \<noteq> p" "k' \<noteq> p" by blast
  then show "k = k'"
  proof cases
    case 2
    then have "q = r" "m k' = Some q'" using * by simp_all
    with assms(2) * 2 show ?thesis by metis
  next
    case 3
    then have "q' = r" "m k = Some q" using * by simp_all
    with assms(2) * 3 show ?thesis by metis
  next
    case 4
    with exclusiveD [OF assms(1), of k q k' q'] * show ?thesis by simp
  qed simp
qed

text \<open>Every transaction either changes the bucket as its closure says or not at all.\<close>

lemma db_update_cases:
  obtains (begin_err) e where "db_update K r0 f b = (b, r0, Some e)"
  | (rollback) r e where "f b = (r, Inl e)" "db_update K r0 f b = (b, r, Some e)"
  | (commit_err) r b' e where "f b = (r, Inr b')" "db_update K r0 f b = (b, r, Some e)"
  | (committed) r b' where "f b = (r, Inr b')" "db_update K r0 f b = (b', r, None)"
proof (cases "kv_begin K b")
  case (Some e)
  then have "db_update K r0 f b = (b, r0, Some e)" by (simp add: db_update_def)
  then show ?thesis by (rule begin_err)
next
  case begun: None
  obtain r x where f: "f b = (r, x)" by (cases "f b")
  show ?thesis
  proof (cases x)
    case (Inl e)
    with f begun have "f b = (r, Inl e)" "db_update K r0 f b = (b, r, Some e)" by (simp_all add: db_update_def)
    then show ?thesis by (rule rollback)
  next
    case (Inr b')
    show ?thesis
    proof (cases "kv_commit K b'")
      case None
      with f begun Inr have "f b = (r, Inr b')" "db_update K r0 f b = (b', r, None)" by (simp_all add: db_update_def)
      then show ?thesis by (rule committed)
    next
      case (Some e)
      with f begun Inr have "f b = (r, Inr b')" "db_update K r0 f b = (b, r, Some e)" by (simp_all add: db_update_def)
      then show ?thesis by (rule commit_err)
    qed
  qed
qed

lemma refresh_puts_eq:
  "refresh_puts K us d b = (fst (refresh_puts K us d b), put_all K us b)"
  "put_all K us b = Inr b' \<Longrightarrow> fst (refresh_puts K us d b) \<longleftrightarrow> d \<or> us \<noteq> []"
  by (induction K us d b rule: refresh_puts.induct) (auto split: sum.splits)

lemma restamp_ConsE:
  assumes "restamp C match until ((k, v) # es) = Inr us"
  obtains (skip) "restamp C match until es = Inr us" "\<forall>r. decode C v = Some r \<longrightarrow> \<not> match r"
  | (stamp) r v' us' where "decode C v = Some r" "match r"
      "cd_marshal C (r\<lparr>rg_lease_expires_at := Some (until k)\<rparr>) = Inr v'"
      "restamp C match until es = Inr us'" "us = (k, v') # us'"
  using assms by (auto split: option.splits if_splits sum.splits)

lemma restamp_keys: "restamp C match until es = Inr us \<Longrightarrow> k \<notin> fst ` set es \<Longrightarrow> k \<notin> fst ` set us"
proof (induction es arbitrary: us)
  case (Cons e es)
  obtain k' v where e: "e = (k', v)" by (cases e)
  from Cons.prems(1) [unfolded e] show ?case
  proof (cases rule: restamp_ConsE)
    case skip
    with Cons e show ?thesis by simp
  next
    case (stamp r v' us')
    with Cons.IH [OF stamp(4)] Cons.prems(2) e show ?thesis by simp
  qed
qed simp

lemma restamp_distinct:
  "restamp C match until es = Inr us \<Longrightarrow> distinct (map fst es) \<Longrightarrow> distinct (map fst us)"
proof (induction es arbitrary: us)
  case (Cons e es)
  obtain k' v where e: "e = (k', v)" by (cases e)
  from Cons.prems(1) [unfolded e] show ?case
  proof (cases rule: restamp_ConsE)
    case skip
    with Cons e show ?thesis by simp
  next
    case (stamp r v' us')
    with Cons.IH [OF stamp(4)] Cons.prems(2) restamp_keys [OF stamp(4), of k'] e show ?thesis by simp
  qed
qed simp

lemma restamp_map_of:
  assumes "restamp C match until es = Inr us" and "distinct (map fst es)"
  shows "case map_of us k of
      Some v \<Rightarrow> (\<exists>r. Option.bind (map_of es k) (decode C) = Some r \<and> match r
                 \<and> cd_marshal C (r\<lparr>rg_lease_expires_at := Some (until k)\<rparr>) = Inr v)
    | None \<Rightarrow> (\<forall>r. Option.bind (map_of es k) (decode C) = Some r \<longrightarrow> \<not> match r)"
  using assms
proof (induction es arbitrary: us)
  case (Cons e es)
  obtain k' v where e: "e = (k', v)" by (cases e)
  from Cons.prems(1) [unfolded e] show ?case
  proof (cases rule: restamp_ConsE)
    case skip
    then have "map_of us k' = None"
      using restamp_keys [of C match until es us k'] Cons.prems(2) e by (simp add: map_of_eq_None_iff)
    with skip Cons.IH [OF skip(1)] Cons.prems(2) e show ?thesis by (cases "k = k'"; cases "map_of us k") auto
  next
    case (stamp r v' us')
    with Cons.IH [OF stamp(4)] Cons.prems(2) e show ?thesis by (cases "k = k'"; cases "map_of us' k") auto
  qed
qed simp

lemma find_holder_Some:
  "find_holder C p addr es = Some h \<Longrightarrow> h \<noteq> p \<and> (\<exists>v r. (h, v) \<in> set es \<and> decode C v = Some r \<and> reg_address r = addr)"
  by (induction C p addr es rule: find_holder.induct) (auto split: if_splits option.splits)

lemma find_holder_None:
  "find_holder C p addr es = None \<Longrightarrow> (k, v) \<in> set es \<Longrightarrow> k \<noteq> p \<Longrightarrow> decode C v = Some r \<Longrightarrow> reg_address r \<noteq> addr"
  by (induction C p addr es rule: find_holder.induct) (auto split: if_splits option.splits)

lemma set_due_entries:
  "set (due_entries C now es) = {(k, r). \<exists>v. (k, v) \<in> set es \<and> decode C v = Some r \<and> due now r}"
  by (induction C now es rule: due_entries.induct) (auto split: option.splits)

section \<open>The registry over any bucket and codec that keep their contracts\<close>

locale registry_store = bolt K + codec_law C
  for K :: "('b, 'v) kv" and C :: "(Registration, 'v) codec"
begin

lemma decode_marshal: "cd_marshal C r = Inr v \<Longrightarrow> decode C v = Some r"
  by (simp add: decode_def roundtrip)

lemma live_iff: "live K C b k = Some r \<longleftrightarrow> (\<exists>v. (k, v) \<in> set (kv_entries K b) \<and> decode C v = Some r)"
  by (auto simp: live_def entry_iff bind_eq_Some_conv)

lemma live_put: "cd_marshal C r = Inr v \<Longrightarrow> kv_put K b k v = Inr b' \<Longrightarrow> live K C b' = (live K C b)(k \<mapsto> r)"
  by (auto simp: live_def get_put decode_marshal fun_eq_iff)

lemma live_restamp:
  assumes "restamp C match until (kv_entries K b) = Inr us" and "put_all K us b = Inr b'"
  shows "live K C b' = stamp_map match until (live K C b)"
proof
  fix k
  have dist: "distinct (map fst (kv_entries K b))" using entries_sorted by blast
  have get: "kv_get K b' = kv_get K b ++ map_of us"
    by (rule get_put_all [OF assms(2) restamp_distinct [OF assms(1) dist]])
  have R: "case map_of us k of
      Some v \<Rightarrow> (\<exists>r. live K C b k = Some r \<and> match r \<and> cd_marshal C (r\<lparr>rg_lease_expires_at := Some (until k)\<rparr>) = Inr v)
    | None \<Rightarrow> (\<forall>r. live K C b k = Some r \<longrightarrow> \<not> match r)"
    using restamp_map_of [OF assms(1) dist, of k] unfolding live_def entries_get [symmetric] .
  show "live K C b' k = stamp_map match until (live K C b) k"
  proof (cases "map_of us k")
    case None
    then have "live K C b' k = live K C b k" by (simp add: live_def get map_add_def)
    with R None show ?thesis by (cases "live K C b k") (auto simp: stamp_map_def)
  next
    case (Some v)
    then have "live K C b' k = decode C v" by (simp add: live_def get map_add_def)
    with R Some show ?thesis by (auto simp: stamp_map_def decode_marshal)
  qed
qed

lemma Upsert_cases:
  obtains (held) h r where "Upsert K C reg b = (b, h, Some ErrEndpointHeld)" "h \<noteq> rg_project reg"
      "live K C b h = Some r" "reg_address r = reg_address reg" "reg_address reg \<noteq> []"
  | (failed) e where "Upsert K C reg b = (b, [], Some (StoreError e))"
  | (recorded) b' where "Upsert K C reg b = (b', [], None)" "live K C b' = (live K C b)(rg_project reg \<mapsto> reg)"
      "reg_address reg \<noteq> [] \<Longrightarrow>
        \<forall>k r. k \<noteq> rg_project reg \<and> live K C b k = Some r \<longrightarrow> reg_address r \<noteq> reg_address reg"
proof (cases "cd_marshal C reg")
  case (Inl e)
  then have "Upsert K C reg b = (b, [], Some (StoreError e))" by (simp add: Upsert_def)
  then show ?thesis by (rule failed)
next
  case (Inr v)
  define ho where "ho = (\<lambda>bkt. if reg_address reg \<noteq> [] then
      find_holder C (rg_project reg) (reg_address reg) (kv_entries K bkt) else None)"
  define f where "f = (\<lambda>bkt. case ho bkt of
      Some h \<Rightarrow> (Some h, Inl ''endpoint already held by another project'')
    | None \<Rightarrow> (None, kv_put K bkt (rg_project reg) v))"
  have U: "Upsert K C reg b =
      (case db_update K None f b of (b', Some h, e) \<Rightarrow> (b', h, Some ErrEndpointHeld)
        | (b', None, None) \<Rightarrow> (b', [], None) | (b', None, Some e) \<Rightarrow> (b', [], Some (StoreError e)))"
    by (simp add: Upsert_def Inr Let_def f_def ho_def)
  show ?thesis
  proof (cases rule: db_update_cases [of K None f b])
    case (begin_err e)
    with U show ?thesis by (intro failed) simp
  next
    case (rollback r e)
    show ?thesis
    proof (cases r)
      case None
      with rollback U show ?thesis by (intro failed) simp
    next
      case (Some h)
      with rollback(1) have ho: "ho b = Some h" by (auto simp: f_def split: option.splits)
      then obtain q where "h \<noteq> rg_project reg" "live K C b h = Some q" "reg_address q = reg_address reg" "reg_address reg \<noteq> []"
        by (auto simp: ho_def live_iff dest!: find_holder_Some split: if_splits)
      with rollback(2) U Some show ?thesis by (intro held [of h q]) simp_all
    qed
  next
    case (commit_err r b' e)
    then have "r = None" by (auto simp: f_def split: option.splits)
    with commit_err(2) U show ?thesis by (intro failed) simp
  next
    case (committed r b')
    then have r: "r = None" and put: "kv_put K b (rg_project reg) v = Inr b'" and ho: "ho b = None"
      by (auto simp: f_def split: option.splits)
    have "\<forall>k q. k \<noteq> rg_project reg \<and> live K C b k = Some q \<longrightarrow> reg_address q \<noteq> reg_address reg"
      if "reg_address reg \<noteq> []"
    proof -
      have none: "find_holder C (rg_project reg) (reg_address reg) (kv_entries K b) = None"
        using ho that by (simp add: ho_def)
      show ?thesis using find_holder_None [OF none] by (simp add: live_iff) blast
    qed
    with committed(2) U r live_put [OF Inr put] show ?thesis by (intro recorded) simp_all
  qed
qed

lemma Delete_live: "live K C (fst (Delete K p b)) k = Some r \<Longrightarrow> live K C b k = Some r"
  by (cases rule: db_update_cases [of K "()" "\<lambda>bkt. ((), kv_delete K bkt p)" b])
    (auto simp: Delete_def live_def get_delete split: if_splits)

lemma RefreshLease_cases:
  obtains (refreshed) b' where "RefreshLease K C clock name ttl b =
        (b', \<exists>k r. live K C b k = Some r \<and> reg_service r = name, None)" "name \<noteq> []"
      "live K C b' = stamp_map (\<lambda>r. reg_service r = name) (\<lambda>k. clock k + ttl) (live K C b)"
  | (nameless) "RefreshLease K C clock name ttl b = (b, False, None)" "name = []"
  | (failed) ok e where "RefreshLease K C clock name ttl b = (b, ok, Some e)"
proof (cases "name = []")
  case True
  then show ?thesis by (intro nameless) (simp_all add: RefreshLease_def)
next
  case False
  define f where "f = (\<lambda>bkt. case restamp C (\<lambda>r. reg_service r = name) (\<lambda>k. clock k + ttl) (kv_entries K bkt) of
      Inl e \<Rightarrow> (False, Inl e) | Inr us \<Rightarrow> refresh_puts K us False bkt)"
  have R: "RefreshLease K C clock name ttl b = db_update K False f b"
    using False by (simp add: RefreshLease_def f_def)
  show ?thesis
  proof (cases rule: db_update_cases [of K False f b])
    case (committed r b')
    then obtain us where us: "restamp C (\<lambda>r. reg_service r = name) (\<lambda>k. clock k + ttl) (kv_entries K b) = Inr us"
      and puts0: "refresh_puts K us False b = (r, Inr b')"
      by (auto simp: f_def split: sum.splits)
    have puts: "put_all K us b = Inr b'" using refresh_puts_eq(1) [of K us False b] puts0 by simp
    have r: "r \<longleftrightarrow> us \<noteq> []" using refresh_puts_eq(2) [OF puts, of False] puts0 by simp
    have dist: "distinct (map fst (kv_entries K b))" using entries_sorted by blast
    have "us \<noteq> [] \<longleftrightarrow> (\<exists>k r. live K C b k = Some r \<and> reg_service r = name)"
    proof
      assume "us \<noteq> []"
      then obtain k v us' where "us = (k, v) # us'" by (cases us) auto
      then have "map_of us k = Some v" by simp
      with restamp_map_of [OF us dist, of k] show "\<exists>k r. live K C b k = Some r \<and> reg_service r = name"
        by (auto simp: live_def entries_get)
    next
      assume "\<exists>k r. live K C b k = Some r \<and> reg_service r = name"
      then obtain k r where "live K C b k = Some r" "reg_service r = name" by blast
      with restamp_map_of [OF us dist, of k] show "us \<noteq> []" by (auto simp: live_def entries_get)
    qed
    with committed(2) R r live_restamp [OF us puts] False show ?thesis by (intro refreshed) simp_all
  qed (use R in \<open>auto intro: failed\<close>)
qed

lemma ExpireDue_cases:
  obtains (swept) b' where "ExpireDue K C now b = (b', map snd (due_entries C now (kv_entries K b)), None)"
      "live K C b' = drop_due now (live K C b)"
  | (failed) ds e where "ExpireDue K C now b = (b, ds, Some e)"
proof -
  define f where "f = (\<lambda>bkt. let ds = due_entries C now (kv_entries K bkt)
      in (map snd ds, delete_all K (map fst ds) bkt))"
  have E: "ExpireDue K C now b = db_update K [] f b" by (simp add: ExpireDue_def f_def)
  show ?thesis
  proof (cases rule: db_update_cases [of K "[]" f b])
    case (committed r b')
    let ?ds = "due_entries C now (kv_entries K b)"
    have r: "r = map snd ?ds" and del: "delete_all K (map fst ?ds) b = Inr b'"
      using committed(1) by (simp_all add: f_def Let_def)
    have get: "kv_get K b' = (\<lambda>k. if k \<in> set (map fst ?ds) then None else kv_get K b k)"
      using get_delete_all [of "map fst ?ds" b] del by auto
    have "live K C b' = drop_due now (live K C b)"
    proof
      fix k
      have mem: "k \<in> set (map fst ?ds) \<longleftrightarrow> (\<exists>r. live K C b k = Some r \<and> due now r)"
        by (force simp: set_due_entries live_iff)
      show "live K C b' k = drop_due now (live K C b) k"
        using mem by (cases "live K C b k") (auto simp: live_def get drop_due_def)
    qed
    with committed(2) E r show ?thesis by (intro swept) simp_all
  qed (use E in \<open>auto intro: failed\<close>)
qed

lemma ReconcileWarmStart_cases:
  obtains (stamped) b' where "ReconcileWarmStart K C now grace b = (b', None)"
      "live K C b' = stamp_map (\<lambda>_. True) (\<lambda>_. now + grace) (live K C b)"
  | (failed) e where "ReconcileWarmStart K C now grace b = (b, Some e)"
proof -
  define f where "f = (\<lambda>bkt. case restamp C (\<lambda>r. True) (\<lambda>k. now + grace) (kv_entries K bkt) of
      Inl e \<Rightarrow> ((), Inl e) | Inr us \<Rightarrow> ((), put_all K us bkt))"
  have W: "ReconcileWarmStart K C now grace b = (case db_update K () f b of (b', _, e) \<Rightarrow> (b', e))"
    by (simp add: ReconcileWarmStart_def f_def)
  show ?thesis
  proof (cases rule: db_update_cases [of K "()" f b])
    case (committed r b')
    then obtain us where "restamp C (\<lambda>r. True) (\<lambda>k. now + grace) (kv_entries K b) = Inr us" "put_all K us b = Inr b'"
      by (auto simp: f_def split: sum.splits)
    from live_restamp [OF this] committed(2) W show ?thesis by (intro stamped) simp_all
  qed (use W in \<open>auto intro: failed\<close>)
qed

end

section \<open>The registry as a transition system\<close>

inductive registry_step :: "('b, 'v) kv \<Rightarrow> (Registration, 'v) codec \<Rightarrow> 'b \<Rightarrow> 'b \<Rightarrow> bool"
  for K :: "('b, 'v) kv" and C :: "(Registration, 'v) codec" where
  step_upsert: "registry_step K C b (fst (Upsert K C reg b))"
| step_delete: "registry_step K C b (fst (Delete K p b))"
| step_refresh: "registry_step K C b (fst (RefreshLease K C clock name ttl b))"
| step_expire: "registry_step K C b (fst (ExpireDue K C now b))"
| step_warm: "registry_step K C b (fst (ReconcileWarmStart K C now grace b))"

inductive_cases registry_stepE: "registry_step K C b b'"

definition registry_start :: "('b, 'v) kv \<Rightarrow> 'b \<Rightarrow> bool" where
  "registry_start K b \<longleftrightarrow> (\<forall>k. kv_get K b k = None)"

definition registry_ok :: "('b, 'v) kv \<Rightarrow> (Registration, 'v) codec \<Rightarrow> 'b \<Rightarrow> bool" where
  "registry_ok K C b \<longleftrightarrow> keyed (live K C b) \<and> exclusive (live K C b)"

context registry_store
begin

lemma Upsert_ok: "registry_ok K C b \<Longrightarrow> registry_ok K C (fst (Upsert K C reg b))"
proof (cases rule: Upsert_cases [of reg b])
  case (recorded b')
  assume ok: "registry_ok K C b"
  then have "exclusive (live K C b')"
    unfolding recorded(2) registry_ok_def by (intro exclusive_insert [OF _ recorded(3)]) auto
  moreover have "keyed (live K C b')"
    using ok unfolding recorded(2) registry_ok_def keyed_def by simp
  ultimately show ?thesis by (simp add: recorded(1) registry_ok_def)
qed simp_all

lemma Delete_ok: "registry_ok K C b \<Longrightarrow> registry_ok K C (fst (Delete K p b))"
  unfolding registry_ok_def using exclusive_submap keyed_submap Delete_live by metis

lemma RefreshLease_ok: "registry_ok K C b \<Longrightarrow> registry_ok K C (fst (RefreshLease K C clock name ttl b))"
  by (cases rule: RefreshLease_cases [of clock name ttl b])
    (simp_all add: registry_ok_def exclusive_stamp keyed_stamp)

lemma ExpireDue_ok: "registry_ok K C b \<Longrightarrow> registry_ok K C (fst (ExpireDue K C now b))"
  by (cases rule: ExpireDue_cases [of now b])
    (auto simp: registry_ok_def intro: exclusive_submap keyed_submap dest: drop_due_submap)

lemma ReconcileWarmStart_ok: "registry_ok K C b \<Longrightarrow> registry_ok K C (fst (ReconcileWarmStart K C now grace b))"
  by (cases rule: ReconcileWarmStart_cases [of now grace b])
    (simp_all add: registry_ok_def exclusive_stamp keyed_stamp)

lemmas registry_ops_ok = Upsert_ok Delete_ok RefreshLease_ok ExpireDue_ok ReconcileWarmStart_ok

lemma registry_start_ok: "registry_start K b \<Longrightarrow> registry_ok K C b"
  by (simp add: registry_start_def registry_ok_def keyed_def exclusive_def live_def)

lemma registry_step_ok: "registry_ok K C b \<Longrightarrow> registry_step K C b b' \<Longrightarrow> registry_ok K C b'"
  by (erule registry_stepE) (simp_all add: registry_ops_ok)

end

sublocale registry_store \<subseteq> reg_sys: invariant_system "registry_start K" "registry_step K C" "registry_ok K C"
  by unfold_locales (rule registry_start_ok, assumption, rule registry_step_ok)

context registry_store
begin

lemma registry_reachable_ok:
  "reachable (registry_start K) (registry_step K C) b \<Longrightarrow> registry_ok K C b"
  by (rule reg_sys.reachable_inv)

end

text \<open>
  The registry seen from outside: a map of leases and the six ways it moves. An announcement needs its endpoint free of
  other holders; the last rule is a transaction that failed.
\<close>

inductive lease_step :: "(string \<Rightarrow> Registration option) \<Rightarrow> (string \<Rightarrow> Registration option) \<Rightarrow> bool" where
  announce: "reg_address r = [] \<or> (\<forall>k r'. k \<noteq> rg_project r \<and> m k = Some r' \<longrightarrow> reg_address r' \<noteq> reg_address r) \<Longrightarrow>
    lease_step m (m(rg_project r \<mapsto> r))"
| withdraw: "lease_step m (m(p := None))"
| renew: "lease_step m (stamp_map (\<lambda>r. reg_service r = name) until m)"
| lapse: "lease_step m (drop_due now m)"
| grace_period: "lease_step m (stamp_map (\<lambda>r. True) (\<lambda>k. until) m)"
| unchanged: "lease_step m m"

context registry_store
begin

lemma Upsert_lease: "lease_step (live K C b) (live K C (fst (Upsert K C reg b)))"
  by (cases rule: Upsert_cases [of reg b]) (auto intro: announce unchanged)

lemma Delete_lease: "lease_step (live K C b) (live K C (fst (Delete K p b)))"
proof (cases rule: db_update_cases [of K "()" "\<lambda>bkt. ((), kv_delete K bkt p)" b])
  case (committed r b')
  then have "live K C (fst (Delete K p b)) = (live K C b)(p := None)"
    by (auto simp: Delete_def live_def get_delete fun_eq_iff)
  then show ?thesis using withdraw by simp
qed (simp_all add: Delete_def unchanged)

lemma RefreshLease_lease: "lease_step (live K C b) (live K C (fst (RefreshLease K C clock name ttl b)))"
  by (cases rule: RefreshLease_cases [of clock name ttl b]) (auto intro: renew unchanged)

lemma ExpireDue_lease: "lease_step (live K C b) (live K C (fst (ExpireDue K C now b)))"
  by (cases rule: ExpireDue_cases [of now b]) (auto intro: lapse unchanged)

lemma ReconcileWarmStart_lease: "lease_step (live K C b) (live K C (fst (ReconcileWarmStart K C now grace b)))"
  by (cases rule: ReconcileWarmStart_cases [of now grace b]) (auto intro: grace_period unchanged)

lemma registry_step_lease: "registry_step K C b b' \<Longrightarrow> lease_step (live K C b) (live K C b')"
  by (erule registry_stepE)
    (simp_all add: Upsert_lease Delete_lease RefreshLease_lease ExpireDue_lease ReconcileWarmStart_lease)

end

lemma heartbeat_steps:
  assumes "on_heartbeat K C clock beat (b, seen) = ((b', seen'), e)"
  shows "b' = b \<or> registry_step K C b b'"
proof (cases beat)
  case (Inr svc)
  then have "b' = fst (RefreshLease K C clock svc DefaultLeaseTTL b)"
    using assms by (auto simp: on_heartbeat_def split: prod.splits option.splits)
  then show ?thesis by (simp add: step_refresh)
qed (use assms in \<open>simp add: on_heartbeat_def\<close>)

lemma sweep_steps:
  assumes "sweep K C now (b, seen) = ((b', seen'), logged)"
  shows "registry_step K C b b'"
proof -
  have "b' = fst (ExpireDue K C now b)"
    using assms by (auto simp: sweep_def split: prod.splits option.splits)
  then show ?thesis by (simp add: step_expire)
qed

text \<open>The registry over the reference bucket.\<close>

interpretation refreg: registry_store "ref_kv fits" id_codec for fits
  by unfold_locales (simp add: id_codec_def)

section \<open>Properties\<close>

text \<open>
  C5: in every registry reachable from an empty one by any sequence of upserts, deletions, lease refreshes, sweeps
  and warm starts, each registration is stored under its own project and no two projects
  hold the same endpoint address, however many froods raced for it and whatever
  transactions failed in between.
\<close>

theorem endpoint_held_by_one_project:
  assumes "registry_store K C" and "reachable (registry_start K) (registry_step K C) b"
    and "live K C b k = Some r" and "live K C b k' = Some r'"
  shows "rg_project r = k \<and> (reg_address r = reg_address r' \<and> reg_address r \<noteq> [] \<longrightarrow> k = k')"
proof -
  have "registry_ok K C b"
    by (rule registry_store.registry_reachable_ok [OF assms(1,2)])
  with assms(3,4) show ?thesis
    unfolding registry_ok_def keyed_def using exclusiveD by blast
qed

definition demo_reg :: "string \<Rightarrow> string \<Rightarrow> time \<Rightarrow> Registration" where
  "demo_reg p addr lease = \<lparr>rg_project = p,
     rg_identity = Some \<lparr>id_service_name = p, id_project = p, id_version = ''1''\<rparr>, rg_contracts = None,
     rg_endpoint = Some \<lparr>ep_scheme = ''http'', ep_address = addr\<rparr>, rg_registered_at = Some 0,
     rg_lease_expires_at = Some lease\<rparr>"

abbreviation demo_kv :: "(Registration bucket, Registration) kv" where
  "demo_kv \<equiv> ref_kv (\<lambda>_. True)"

definition demo_bucket :: "Registration bucket" where
  "demo_bucket = fst (Upsert demo_kv id_codec (demo_reg ''obs'' ''h:1'' 50) bk_empty)"

lemma bk_empty_entries [simp]: "bk_entries bk_empty = []"
  by transfer simp

lemma demo_bucket_eq: "demo_bucket = bk_insert ''obs'' (demo_reg ''obs'' ''h:1'' 50) bk_empty"
  by (simp add: demo_bucket_def Upsert_def id_codec_def ref_kv_def db_update_def reg_address_def demo_reg_def)

lemma demo_live: "live demo_kv id_codec demo_bucket = [''obs'' \<mapsto> demo_reg ''obs'' ''h:1'' 50]"
proof -
  have "key_ok ''obs''" by (simp add: key_ok_def)
  then show ?thesis
    by (auto simp: demo_bucket_eq live_def ref_kv_def bk_insert_map_of id_codec_def decode_def fun_eq_iff)
qed

lemmas demo_store = refreg.registry_store_axioms [of "\<lambda>_. True"]

lemma demo_bucket_reachable: "reachable (registry_start demo_kv) (registry_step demo_kv id_codec) demo_bucket"
  unfolding demo_bucket_def
proof (rule reach_step)
  show "reachable (registry_start demo_kv) (registry_step demo_kv id_codec) bk_empty"
    by (rule reach_start) (simp add: registry_start_def ref_kv_def)
qed (rule step_upsert)

theorem endpoint_held_by_one_project_witness:
  "rg_project (demo_reg ''obs'' ''h:1'' 50) = ''obs''"
  using endpoint_held_by_one_project [OF demo_store demo_bucket_reachable, of "''obs''" _ "''obs''"]
  by (simp add: demo_live)



lemma ref_ExpireDue_ok: "snd (snd (ExpireDue (ref_kv fits) C now b)) = None"
proof -
  obtain b' where "delete_all (ref_kv fits) (map fst (due_entries C now (kv_entries (ref_kv fits) b))) b = Inr b'"
    using ref.get_delete_all by blast
  then show ?thesis by (simp add: ExpireDue_def db_update_def Let_def) (simp add: ref_kv_def)
qed

text \<open>
  C16: a sweep that succeeds at \<open>now\<close> removes exactly the registrations whose lease is absent or not after
  \<open>now\<close>, returns exactly those for the log (nothing expires silently), and leaves every other one
  as it was; a sweep that fails removes nothing.
\<close>

theorem sweep_removes_exactly_the_due:
  assumes "registry_store K C"
  shows "case ExpireDue K C now b of
      (b', expired, None) \<Rightarrow>
        (\<forall>k. live K C b' k = (case live K C b k of None \<Rightarrow> None | Some r \<Rightarrow> if due now r then None else Some r)) \<and>
        set expired = {r. \<exists>k. live K C b k = Some r \<and> live K C b' k = None}
    | (b', _, Some e) \<Rightarrow> b' = b"
proof (cases rule: registry_store.ExpireDue_cases [OF assms, of now b, case_names swept failed])
  case (swept b')
  have "set (map snd (due_entries C now (kv_entries K b))) = {r. \<exists>k. live K C b k = Some r \<and> due now r}"
    using registry_store.live_iff [OF assms, of b] by (force simp: set_due_entries)
  with swept show ?thesis by (auto simp: drop_due_def split: option.splits)
qed simp

theorem sweep_removes_exactly_the_due_witness:
  "set (fst (snd (ExpireDue demo_kv id_codec 50 demo_bucket))) = {demo_reg ''obs'' ''h:1'' 50}"
proof -
  have "snd (snd (ExpireDue demo_kv id_codec 50 demo_bucket)) = None"
    by (rule ref_ExpireDue_ok)
  then obtain b' ex where run: "ExpireDue demo_kv id_codec 50 demo_bucket = (b', ex, None)"
    by (metis prod.collapse)
  from sweep_removes_exactly_the_due [OF demo_store, of 50 demo_bucket]
  have "set ex = {r. \<exists>k. live demo_kv id_codec demo_bucket k = Some r \<and> live demo_kv id_codec b' k = None}"
    and "live demo_kv id_codec b' ''obs'' = None"
    by (auto simp: run demo_live due_def demo_reg_def)
  then show ?thesis by (auto simp: run demo_live split: if_splits)
qed

text \<open>
  a heartbeat only refreshes: whatever it carries and however the store answers, the set of live projects is
  the same before and after, every registration of another service is untouched, and one of its
  own service either keeps its lease (the store failed) or has it moved to the reading of
  the clock plus the lease time, everything else of it unchanged.
\<close>

theorem heartbeat_only_refreshes:
  assumes "registry_store K C" and "on_heartbeat K C clock beat (b, seen) = ((b', seen'), err)"
  shows "(case live K C b k of
        None \<Rightarrow> live K C b' k = None
      | Some r \<Rightarrow> live K C b' k = Some r \<or>
          beat = Inr (reg_service r) \<and> err = None \<and> reg_service r \<in> seen' \<and>
          live K C b' k = Some (r\<lparr>rg_lease_expires_at := Some (clock k + DefaultLeaseTTL)\<rparr>))"
proof (cases beat)
  case (Inl e)
  with assms(2) show ?thesis by (auto simp: on_heartbeat_def split: option.split)
next
  case (Inr svc)
  show ?thesis
  proof (cases rule: registry_store.RefreshLease_cases
      [OF assms(1), of clock svc DefaultLeaseTTL b, case_names refreshed nameless failed])
    case (refreshed b1)
    have b1: "b1 = b'" "err = None" and seen': "seen' = (if \<exists>k r. live K C b k = Some r \<and> reg_service r = svc
        then insert svc seen else seen)"
      using assms(2) Inr refreshed(1) by (auto simp: on_heartbeat_def)
    show ?thesis
    proof (cases "live K C b k")
      case None
      with refreshed(3) b1 show ?thesis by (simp add: stamp_map_def)
    next
      case (Some r)
      with refreshed(3) b1 seen' Inr show ?thesis by (auto simp: stamp_map_def)
    qed
  qed (use assms(2) Inr in \<open>auto simp: on_heartbeat_def split: option.split\<close>)
qed

theorem heartbeat_only_refreshes_witness:
  "live demo_kv id_codec (fst (fst (on_heartbeat demo_kv id_codec (\<lambda>_. 7) (Inr ''mill'') (demo_bucket, {})))) ''obs''
     = Some (demo_reg ''obs'' ''h:1'' 50)"
proof -
  obtain b' seen' err where beat: "on_heartbeat demo_kv id_codec (\<lambda>_. 7) (Inr ''mill'') (demo_bucket, {}) = ((b', seen'), err)"
    by (metis prod.collapse)
  from heartbeat_only_refreshes [OF demo_store beat, of "''obs''"] show ?thesis
    by (simp add: beat demo_live demo_reg_def reg_service_def)
qed

text \<open>
  a registration found at boot is provisional: after a warm start at \<open>t0\<close>, a sweep before the end of the grace
  expires nothing, and a sweep at or after its end, with no refresh in between, expires
  every one of them, whatever lease it had before the restart.
\<close>

theorem warm_start_is_provisional:
  assumes "registry_store K C" and "ReconcileWarmStart K C t0 WarmStartGrace b = (b1, None)"
    and "ExpireDue K C now b1 = (b2, expired, None)"
  shows "(\<forall>k. live K C b1 k = map_option (\<lambda>r. r\<lparr>rg_lease_expires_at := Some (t0 + WarmStartGrace)\<rparr>) (live K C b k))
    \<and> (if now < t0 + WarmStartGrace then live K C b2 = live K C b1 else \<forall>k. live K C b2 k = None)"
proof (cases rule: registry_store.ReconcileWarmStart_cases [OF assms(1), of t0 WarmStartGrace b, case_names stamped failed])
  case (stamped b')
  with assms(2) have b1: "live K C b1 = stamp_map (\<lambda>_. True) (\<lambda>_. t0 + WarmStartGrace) (live K C b)" by simp
  have b2: "live K C b2 = drop_due now (live K C b1)"
    using assms(3)
    by (cases rule: registry_store.ExpireDue_cases [OF assms(1), of now b1, case_names swept failed]) auto
  show ?thesis
    unfolding b2 b1 by (auto simp: drop_due_def stamp_map_def due_def fun_eq_iff split: option.split)
qed (use assms(2) in simp)

lemma ref_warm_ok: "snd (ReconcileWarmStart (ref_kv (\<lambda>_. True)) id_codec t g b) = None"
proof -
  have "\<exists>us. restamp id_codec m u es = Inr us" for m u and es :: "(string \<times> Registration) list"
    by (induction es) (auto simp: id_codec_def decode_def)
  then obtain us where us: "restamp id_codec (\<lambda>_. True) (\<lambda>_. t + g) (kv_entries (ref_kv (\<lambda>_. True)) b) = Inr us"
    by blast
  have "key_ok k" if "(k, v) \<in> set us" for k v
  proof -
    have "k \<in> fst ` set us" using that by force
    then have "k \<in> fst ` set (kv_entries (ref_kv (\<lambda>_. True)) b)"
      using restamp_keys [OF us, of k] by blast
    then obtain v' where "(k, v') \<in> set (kv_entries (ref_kv (\<lambda>_. True)) b)" by auto
    then show ?thesis by (rule ref.keys_ok)
  qed
  then have "\<forall>(k, v) \<in> set us. key_ok k \<and> kv_fits (ref_kv (\<lambda>_. True)) v"
    by (auto simp: ref_kv_def)
  then obtain b' where "put_all (ref_kv (\<lambda>_. True)) us b = Inr b'" using ref.put_all_total by blast
  with us show ?thesis by (simp add: ReconcileWarmStart_def db_update_def) (simp add: ref_kv_def)
qed

theorem warm_start_is_provisional_witness:
  "live demo_kv id_codec (fst (ExpireDue demo_kv id_codec (WarmStartGrace + 9)
     (fst (ReconcileWarmStart demo_kv id_codec 9 WarmStartGrace demo_bucket)))) ''obs'' = None"
proof -
  obtain b1 where b1: "ReconcileWarmStart demo_kv id_codec 9 WarmStartGrace demo_bucket = (b1, None)"
    using ref_warm_ok by (metis prod.collapse)
  obtain b2 ex where b2: "ExpireDue demo_kv id_codec (WarmStartGrace + 9) b1 = (b2, ex, None)"
    using ref_ExpireDue_ok by (metis prod.collapse)
  from warm_start_is_provisional [OF demo_store b1 b2] show ?thesis by (simp add: b1 b2)
qed

text \<open>
  the listing served on \<^verbatim>\<open>/registrations\<close> is sorted by project and contains exactly the live registrations, each
  once; a value that does not decode is left out rather than failing the listing.
\<close>

theorem listing_is_the_live_set:
  assumes "registry_store K C" and "kv_begin K b = None" and "registry_ok K C b"
  shows "sorted (map rg_project (rs_registrations (SetAll K C b)))
    \<and> distinct (map rg_project (rs_registrations (SetAll K C b)))
    \<and> set (rs_registrations (SetAll K C b)) = ran (live K C b)"
proof -
  let ?ds = "List.map_filter (\<lambda>(k, v). decode C v) (kv_entries K b)"
  have L: "rs_registrations (SetAll K C b) = sort_key rg_project ?ds"
    using assms(2) by (simp add: SetAll_def ListAll_def db_view_def)
  have keyed: "decode C v = Some r \<Longrightarrow> (k, v) \<in> set (kv_entries K b) \<Longrightarrow> rg_project r = k" for k v r
    using assms(3) registry_store.live_iff [OF assms(1), of b k r] by (auto simp: registry_ok_def keyed_def)
  have "set ?ds = ran (live K C b)"
    using registry_store.live_iff [OF assms(1), of b] by (force simp: List.map_filter_def ran_def)
  moreover have "map rg_project (List.map_filter (\<lambda>(k, v). decode C v) es) = map fst (filter (\<lambda>(k, v). decode C v \<noteq> None) es)"
    if "set es \<subseteq> set (kv_entries K b)" for es
    using that by (induction es) (auto simp: List.map_filter_def keyed)
  then have "map rg_project ?ds = map fst (filter (\<lambda>(k, v). decode C v \<noteq> None) (kv_entries K b))" by blast
  moreover have "distinct (map fst (kv_entries K b))"
    using bolt.entries_sorted [OF registry_store.axioms(1) [OF assms(1)]] by blast
  ultimately have "set ?ds = ran (live K C b)" and "distinct (map rg_project ?ds)"
    by (simp_all add: distinct_map_filter)
  then show ?thesis by (simp add: L distinct_map)
qed

theorem listing_is_the_live_set_witness:
  "set (rs_registrations (SetAll demo_kv id_codec demo_bucket)) = {demo_reg ''obs'' ''h:1'' 50}"
  using listing_is_the_live_set [OF demo_store, of demo_bucket] refreg.registry_reachable_ok [OF demo_bucket_reachable]
  by (simp add: demo_live) (simp add: ref_kv_def)

end
