(* ===== verification/Enablement.thy ===== *)
theory Enablement
  imports Bolt Paths
begin

text \<open>
  The per-project enable/disable home of \<^verbatim>\<open>pkg/enablement/enablement.go\<close>: its records, their validation,
  \<open>Get\<close> and \<open>Put\<close> over one bucket, and opening the store. The state of a record is a Go
  string, so a value other than the two constants is representable and refused.
\<close>

section \<open>Records\<close>

definition StateEnabled :: string where
  "StateEnabled = ''enabled''"

definition StateDisabled :: string where
  "StateDisabled = ''disabled''"

record EnRecord =
  en_project :: string
  en_state :: string
  en_reason :: string
  en_actor :: string
  en_changed_at :: time

datatype EnError =
    ReasonRequired
  | UnknownState string
  | NoProject
  | NoActor
  | EnStore string

definition zero_record :: EnRecord where
  "zero_record = \<lparr>en_project = [], en_state = [], en_reason = [], en_actor = [], en_changed_at = zero_time\<rparr>"

definition Validate :: "EnRecord \<Rightarrow> EnError option" where
  "Validate r =
     (if en_state r = StateDisabled \<and> en_reason r = [] then Some ReasonRequired
      else if en_state r \<noteq> StateEnabled \<and> en_state r \<noteq> StateDisabled then Some (UnknownState (en_state r))
      else if en_project r = [] then Some NoProject
      else if en_actor r = [] then Some NoActor
      else None)"

section \<open>The store\<close>

text \<open>
  \<^verbatim>\<open>Open\<close>: make the directory, open the database, ensure the bucket. The operating system and bbolt answer
  through \<open>mkdir\<close>, \<open>boltOpen\<close> and \<open>ensure\<close>; a failed bucket creation closes the database.
\<close>

datatype OpenError = CreateDir string | OpenFile string | EnsureBucket string

definition en_open ::
  "('b, 'v) kv \<Rightarrow> (string \<Rightarrow> string option) \<Rightarrow> (string \<Rightarrow> string + 'b) \<Rightarrow> ('b \<Rightarrow> string + 'b) \<Rightarrow> string \<Rightarrow> OpenError + 'b" where
  "en_open K mkdir boltOpen ensure path =
     (case mkdir (fp_dir path) of
        Some e \<Rightarrow> Inl (CreateDir e)
      | None \<Rightarrow>
          (case boltOpen path of
             Inl e \<Rightarrow> Inl (OpenFile e)
           | Inr db \<Rightarrow>
               (case db_update K () (\<lambda>b. ((), ensure b)) db of
                  (db', _, Some e) \<Rightarrow> Inl (EnsureBucket e)
                | (db', _, None) \<Rightarrow> Inr db')))"

text \<open>
  \<open>found\<close> is set before the value is decoded, so a value that does not decode is found with an error and the
  record \<^verbatim>\<open>json.Unmarshal\<close> had filled in so far, the argument \<open>partial\<close>.
\<close>

definition en_get ::
  "('b, 'v) kv \<Rightarrow> (EnRecord, 'v) codec \<Rightarrow> ('v \<Rightarrow> EnRecord) \<Rightarrow> string \<Rightarrow> 'b \<Rightarrow> EnRecord \<times> bool \<times> string option" where
  "en_get K C partial project b =
     (case db_view K (zero_record, False)
        (\<lambda>bkt. case kv_get K bkt project of
                 None \<Rightarrow> ((zero_record, False), None)
               | Some v \<Rightarrow>
                   (case cd_unmarshal C v of
                      Inl e \<Rightarrow> ((partial v, True), Some e)
                    | Inr r \<Rightarrow> ((r, True), None))) b of
        ((r, found), e) \<Rightarrow> (r, found, e))"

definition en_put ::
  "('b, 'v) kv \<Rightarrow> (EnRecord, 'v) codec \<Rightarrow> time \<Rightarrow> EnRecord \<Rightarrow> 'b \<Rightarrow> 'b \<times> EnError option" where
  "en_put K C now r b =
     (case Validate r of
        Some e \<Rightarrow> (b, Some e)
      | None \<Rightarrow>
          (let r1 = (if en_changed_at r = zero_time then r\<lparr>en_changed_at := now\<rparr> else r)
           in case cd_marshal C r1 of
                Inl e \<Rightarrow> (b, Some (EnStore e))
              | Inr v \<Rightarrow>
                  (case db_update K () (\<lambda>bkt. ((), kv_put K bkt (en_project r1) v)) b of
                     (b', _, None) \<Rightarrow> (b', None)
                   | (b', _, Some e) \<Rightarrow> (b', Some (EnStore e)))))"

section \<open>Facts\<close>

lemma StateEnabled_neq [simp]: "StateEnabled \<noteq> StateDisabled" "StateDisabled \<noteq> StateEnabled"
  by (simp_all add: StateEnabled_def StateDisabled_def)

lemma Validate_None_iff:
  "Validate r = None \<longleftrightarrow>
     (en_state r = StateEnabled \<or> en_state r = StateDisabled \<and> en_reason r \<noteq> []) \<and> en_project r \<noteq> [] \<and> en_actor r \<noteq> []"
  by (auto simp: Validate_def)

locale enablement_store = bolt K + codec_law C
  for K :: "('b, 'v) kv" and C :: "(EnRecord, 'v) codec"
begin

lemma en_put_get:
  assumes "en_put K C now r b = (b', None)" and "kv_begin K b' = None"
  shows "Validate r = None"
    and "en_get K C partial (en_project r) b' = (if en_changed_at r = zero_time then r\<lparr>en_changed_at := now\<rparr> else r, True, None)"
    and "\<forall>k. k \<noteq> en_project r \<longrightarrow> kv_get K b' k = kv_get K b k"
proof -
  let ?r1 = "if en_changed_at r = zero_time then r\<lparr>en_changed_at := now\<rparr> else r"
  show V: "Validate r = None" using assms(1) by (auto simp: en_put_def split: option.splits)
  have proj: "en_project ?r1 = en_project r" by simp
  obtain v where v: "cd_marshal C ?r1 = Inr v"
    using assms(1) V by (auto simp: en_put_def Let_def split: sum.splits)
  have "db_update K () (\<lambda>bkt. ((), kv_put K bkt (en_project r) v)) b = (b', (), None)"
    using assms(1) V v proj by (auto simp: en_put_def Let_def split: prod.splits option.splits)
  then have put: "kv_put K b (en_project r) v = Inr b'"
    by (auto simp: db_update_def split: option.splits sum.splits)
  show "en_get K C partial (en_project r) b' = (?r1, True, None)"
    using assms(2) by (simp add: en_get_def db_view_def get_put [OF put] roundtrip [OF v])
  show "\<forall>k. k \<noteq> en_project r \<longrightarrow> kv_get K b' k = kv_get K b k"
    by (simp add: get_put [OF put])
qed

lemma en_put_error: "en_put K C now r b = (b', Some e) \<Longrightarrow> b' = b"
  by (auto simp: en_put_def db_update_def Let_def split: option.splits sum.splits prod.splits)

end

interpretation refen: enablement_store "ref_kv fits" id_codec for fits
  by unfold_locales (simp add: id_codec_def)

section \<open>Properties\<close>

text \<open>
  a record is stored only if its state is one of the two, a disable carries its reason, and project and actor are
  named; what was stored is what the next read returns, stamped with the time of the write when
  the caller gave none, and no other project's record changes. A refused or failed write
  changes nothing.
\<close>

theorem enablement_put_get:
  assumes "enablement_store K C" and "en_put K C now r b = (b', err)" and "kv_begin K b' = None"
  shows "case err of
      Some e \<Rightarrow> b' = b
    | None \<Rightarrow> (en_state r = StateEnabled \<or> en_state r = StateDisabled \<and> en_reason r \<noteq> [])
        \<and> en_project r \<noteq> [] \<and> en_actor r \<noteq> []
        \<and> en_get K C partial (en_project r) b' =
            (if en_changed_at r = zero_time then r\<lparr>en_changed_at := now\<rparr> else r, True, None)
        \<and> (\<forall>k. k \<noteq> en_project r \<longrightarrow> kv_get K b' k = kv_get K b k)"
proof (cases err)
  case None
  with assms enablement_store.en_put_get [OF assms(1), of now r b b'] show ?thesis
    by (simp add: Validate_None_iff)
next
  case (Some e)
  with assms enablement_store.en_put_error [OF assms(1)] show ?thesis by simp
qed

definition paused :: EnRecord where
  "paused = \<lparr>en_project = ''obs'', en_state = ''disabled'', en_reason = ''maintenance'', en_actor = ''jane'',
     en_changed_at = zero_time\<rparr>"

theorem enablement_put_get_witness:
  "en_get (ref_kv (\<lambda>_. True)) id_codec (\<lambda>r. r) ''obs''
     (fst (en_put (ref_kv (\<lambda>_. True)) id_codec 77 paused bk_empty)) = (paused\<lparr>en_changed_at := 77\<rparr>, True, None)"
proof -
  have "Validate paused = None" by code_simp
  then have "snd (en_put (ref_kv (\<lambda>_. True)) id_codec 77 paused bk_empty) = None"
    by (simp add: en_put_def paused_def id_codec_def Let_def db_update_def ref_kv_def)
  then obtain b' where put: "en_put (ref_kv (\<lambda>_. True)) id_codec 77 paused bk_empty = (b', None)"
    by (metis prod.collapse)
  have "kv_begin (ref_kv (\<lambda>_. True)) b' = None" by (simp add: ref_kv_def)
  from enablement_put_get [OF refen.enablement_store_axioms put this, of "\<lambda>r. r"] show ?thesis
    by (simp add: put) (simp add: paused_def)
qed

end
