(* ===== verification/Config.thy ===== *)
theory Config
  imports Paths
begin

text \<open>
  The configuration loader of \<^verbatim>\<open>config/config.go\<close> and \<^verbatim>\<open>config/fragments.go\<close>: the four roots, the
  project roster merged from the inline list and the drop-in fragments, its validation, and the
  degraded state a partial load leaves. Viper is not part of the repository: what it reads
  and unmarshals is an argument, as are the environment and the directory listing.
\<close>

section \<open>Configuration data\<close>

record DaemonConfig =
  ControlPort :: int
  PidFile :: string

definition DefaultControlPort :: int where
  "DefaultControlPort = 8088"

definition ResolveControlPort :: "DaemonConfig \<Rightarrow> int" where
  "ResolveControlPort d = (if ControlPort d = 0 then DefaultControlPort else ControlPort d)"

record LLMProviderConfig =
  lp_name :: string
  lp_type :: string
  lp_url :: string

record KafkaConfig =
  Brokers :: "string list"
  SchemaRegistryURL :: string
  Topic :: string

record AgentSkillsConfig =
  as_enabled :: bool
  as_expose_via :: "string list"

record SystemConfig =
  MonitorRoot :: string
  DaemonRoot :: string
  BackupsRoot :: string
  ConfigRoot :: string
  AgentSkills :: AgentSkillsConfig
  DaemonCfg :: DaemonConfig
  LLMProviders :: "LLMProviderConfig list"
  Kafka :: KafkaConfig

record DeployConfig =
  dp_kind :: string
  dp_deployment :: string
  dp_command :: "string list"

record BackupConfig =
  CheckInterval :: string
  MaxArchives :: int
  Exclude :: "string list"

record ProjectConfig =
  pc_name :: string
  pc_path :: string
  pc_essential :: bool
  pc_deploy :: DeployConfig
  pc_backup :: BackupConfig
  pc_kind :: string

text \<open>
  What can go wrong with a fragment and with the fragment directory, and the reasons a load is degraded, one per
  message of the source.
\<close>

datatype FragmentError = ReadingFragment string | ParsingFragment string

datatype FragmentWarning = ProjectsDirUnreadable string string | FragmentSkipped string FragmentError

datatype LoadWarning =
    ConfigParseFailed string
  | ConfigUnmarshalFailed string
  | FragmentProblem FragmentWarning
  | ProjectDropped nat string "string list"
  | DuplicateName string

record DelightConfig =
  System :: SystemConfig
  Projects :: "ProjectConfig list"
  Degraded :: bool
  LoadWarnings :: "LoadWarning list"

definition markDegraded :: "LoadWarning \<Rightarrow> DelightConfig \<Rightarrow> DelightConfig" where
  "markDegraded w c = c\<lparr>Degraded := True, LoadWarnings := LoadWarnings c @ [w]\<rparr>"

section \<open>Roots\<close>

definition DefaultInstallRoot :: string where
  "DefaultInstallRoot = ''~/mesh/prod''"

definition DefaultDaemonRoot :: string where
  "DefaultDaemonRoot = ''~/var''"

definition DefaultConfigRoot :: string where
  "DefaultConfigRoot = ''~/etc''"

record osenv =
  getenv :: "string \<Rightarrow> string"
  userHomeDir :: "string option"

definition ResolveRoots :: "osenv \<Rightarrow> SystemConfig \<Rightarrow> SystemConfig" where
  "ResolveRoots env s =
     (let s1 = (if MonitorRoot s = [] then
                  s\<lparr>MonitorRoot := if getenv env ''DELIGHT_INSTALL_ROOT'' \<noteq> [] then getenv env ''DELIGHT_INSTALL_ROOT''
                                   else DefaultInstallRoot\<rparr>
                else s);
          s2 = (if DaemonRoot s1 = [] then s1\<lparr>DaemonRoot := DefaultDaemonRoot\<rparr> else s1);
          s3 = (if ConfigRoot s2 = [] then s2\<lparr>ConfigRoot := DefaultConfigRoot\<rparr> else s2);
          s4 = s3\<lparr>DaemonRoot := expandHome (userHomeDir env) (DaemonRoot s3)\<rparr>;
          s5 = (if BackupsRoot s4 = [] then s4\<lparr>BackupsRoot := fp_join [DaemonRoot s4, ''backups'']\<rparr> else s4);
          s6 = s5\<lparr>MonitorRoot := expandHome (userHomeDir env) (MonitorRoot s5)\<rparr>;
          s7 = s6\<lparr>BackupsRoot := expandHome (userHomeDir env) (BackupsRoot s6)\<rparr>
      in s7\<lparr>ConfigRoot := expandHome (userHomeDir env) (ConfigRoot s7)\<rparr>)"

definition ProjectsDir :: "osenv \<Rightarrow> DelightConfig \<Rightarrow> string" where
  "ProjectsDir env c =
     (if getenv env ''DELIGHT_PROJECTS_DIR'' \<noteq> [] then getenv env ''DELIGHT_PROJECTS_DIR''
      else fp_join [ConfigRoot (System c), ''delightd'', ''projects.d''])"

section \<open>Projects\<close>

definition projectStructuralErrors :: "ProjectConfig \<Rightarrow> string list" where
  "projectStructuralErrors p =
     (if trimSpace (pc_name p) = [] then [''empty name''] else [])
     @ (if trimSpace (pc_path p) = [] then [''empty path''] else [])"

text \<open>The loop of \<^verbatim>\<open>validateProjects\<close> from index \<open>i\<close> on, with the names seen so far.\<close>

fun validate_from ::
  "nat \<Rightarrow> string set \<Rightarrow> ProjectConfig list \<Rightarrow> DelightConfig \<Rightarrow> DelightConfig \<times> ProjectConfig list" where
  "validate_from i seen [] c = (c, [])"
| "validate_from i seen (p # ps) c =
     (if projectStructuralErrors p \<noteq> [] then
        validate_from (i + 1) seen ps (markDegraded (ProjectDropped i (pc_name p) (projectStructuralErrors p)) c)
      else if pc_name p \<in> seen then
        validate_from (i + 1) seen ps (markDegraded (DuplicateName (pc_name p)) c)
      else
        (case validate_from (i + 1) (insert (pc_name p) seen) ps c of (c', valid) \<Rightarrow> (c', p # valid)))"

definition validateProjects :: "DelightConfig \<Rightarrow> DelightConfig \<times> ProjectConfig list" where
  "validateProjects c = validate_from 0 {} (Projects c) c"

section \<open>Fragments\<close>

datatype ReadDirError = DirNotExist | DirUnreadable string

definition isYAMLName :: "string \<Rightarrow> bool" where
  "isYAMLName name \<longleftrightarrow> hasSuffix name ''.yaml'' \<or> hasSuffix name ''.yml''"

text \<open>\<open>viperRead\<close> is viper on one file: the reading error, the unmarshalling error, or the project.\<close>

type_synonym fragment_reader = "string \<Rightarrow> string + (string + ProjectConfig)"

definition ParseFragment :: "fragment_reader \<Rightarrow> string \<Rightarrow> FragmentError + ProjectConfig" where
  "ParseFragment viperRead path =
     (case viperRead path of
        Inl e \<Rightarrow> Inl (ReadingFragment e)
      | Inr (Inl e) \<Rightarrow> Inl (ParsingFragment e)
      | Inr (Inr p) \<Rightarrow> Inr p)"

fun load_entries ::
  "fragment_reader \<Rightarrow> string \<Rightarrow> (string \<times> bool) list \<Rightarrow> ProjectConfig list \<times> FragmentWarning list" where
  "load_entries viperRead dir [] = ([], [])"
| "load_entries viperRead dir ((name, isdir) # es) =
     (case load_entries viperRead dir es of (ps, ws) \<Rightarrow>
        if isdir \<or> \<not> isYAMLName name then (ps, ws)
        else
          (case ParseFragment viperRead (fp_join [dir, name]) of
             Inl e \<Rightarrow> (ps, FragmentSkipped name e # ws)
           | Inr p \<Rightarrow> (p # ps, ws)))"

definition LoadProjectFragments ::
  "fragment_reader \<Rightarrow> (string \<Rightarrow> ReadDirError + (string \<times> bool) list) \<Rightarrow> string
   \<Rightarrow> ProjectConfig list \<times> FragmentWarning list" where
  "LoadProjectFragments viperRead readDir dir =
     (case readDir dir of
        Inl DirNotExist \<Rightarrow> ([], [])
      | Inl (DirUnreadable e) \<Rightarrow> ([], [ProjectsDirUnreadable dir e])
      | Inr es \<Rightarrow> load_entries viperRead dir es)"

text \<open>
  \<^verbatim>\<open>LintFragment\<close>. \<open>stat\<close> answers for a path whether it is missing (or unreadable), a file or a directory.
\<close>

datatype StatResult = StatErr | StatFile | StatDir

datatype LintError = LintParse FragmentError | LintStructural string

datatype LintWarning = PathNotFound string | NotADirectory string | NotAGitRepository string

record LintResult =
  li_path :: string
  li_valid :: bool
  li_project :: "ProjectConfig option"
  li_errors :: "LintError list"
  li_warnings :: "LintWarning list"

definition LintFragment :: "fragment_reader \<Rightarrow> (string \<Rightarrow> StatResult) \<Rightarrow> string \<Rightarrow> LintResult" where
  "LintFragment viperRead stat path =
     (case ParseFragment viperRead path of
        Inl e \<Rightarrow> \<lparr>li_path = path, li_valid = False, li_project = None, li_errors = [LintParse e], li_warnings = []\<rparr>
      | Inr p \<Rightarrow>
          (let errs = projectStructuralErrors p; pp = trimSpace (pc_path p)
           in \<lparr>li_path = path, li_valid = (errs = []), li_project = Some p, li_errors = map LintStructural errs,
               li_warnings =
                 (if pp = [] then []
                  else case stat pp of
                         StatErr \<Rightarrow> [PathNotFound pp]
                       | StatFile \<Rightarrow> [NotADirectory pp]
                       | StatDir \<Rightarrow> if stat (fp_join [pp, ''.git'']) = StatErr then [NotAGitRepository pp] else [])\<rparr>))"

text \<open>The \<^verbatim>\<open>lint\<close> command fails when one of its fragments is invalid, with their number.\<close>

definition lint_command :: "fragment_reader \<Rightarrow> (string \<Rightarrow> StatResult) \<Rightarrow> string list \<Rightarrow> LintResult list \<times> nat option" where
  "lint_command viperRead stat args =
     (let rs = map (LintFragment viperRead stat) args; invalid = length (filter (\<lambda>r. \<not> li_valid r) rs)
      in (rs, if invalid > 0 then Some invalid else None))"

section \<open>Load\<close>

datatype ReadConfig = ConfigRead | ConfigFileNotFound | ConfigMalformed string

text \<open>
  What viper answers: whether one of the four environment bindings fails, how reading the file went, and what
  \<^verbatim>\<open>Unmarshal\<close> leaves in the zero configuration, with its error.
\<close>

record viper =
  vp_bind_err :: "string option"
  vp_read :: ReadConfig
  vp_unmarshalled :: "SystemConfig \<times> ProjectConfig list"
  vp_unmarshal_err :: "string option"

definition Load ::
  "viper \<Rightarrow> osenv \<Rightarrow> fragment_reader \<Rightarrow> (string \<Rightarrow> ReadDirError + (string \<times> bool) list) \<Rightarrow> string + DelightConfig" where
  "Load vp env viperRead readDir =
     (case vp_bind_err vp of
        Some e \<Rightarrow> Inl e
      | None \<Rightarrow>
          (let cfg = \<lparr>System = fst (vp_unmarshalled vp), Projects = snd (vp_unmarshalled vp),
                      Degraded = False, LoadWarnings = []\<rparr>;
               c1 = (case vp_read vp of ConfigMalformed e \<Rightarrow> markDegraded (ConfigParseFailed e) cfg | _ \<Rightarrow> cfg);
               c2 = (case vp_unmarshal_err vp of Some e \<Rightarrow> markDegraded (ConfigUnmarshalFailed e) c1 | None \<Rightarrow> c1);
               c3 = c2\<lparr>System := ResolveRoots env (System c2)\<rparr>
           in case LoadProjectFragments viperRead readDir (ProjectsDir env c3) of
                (fragProjects, fragWarnings) \<Rightarrow>
                  (let c4 = c3\<lparr>Projects := Projects c3 @ fragProjects\<rparr>;
                       c5 = fold (\<lambda>w c. markDegraded (FragmentProblem w) c) fragWarnings c4
                   in case validateProjects c5 of (c6, valid) \<Rightarrow> Inr (c6\<lparr>Projects := valid\<rparr>))))"

section \<open>Facts\<close>

lemma markDegraded_fields [simp]:
  "System (markDegraded w c) = System c" "Projects (markDegraded w c) = Projects c"
  "Degraded (markDegraded w c)" "LoadWarnings (markDegraded w c) = LoadWarnings c @ [w]"
  by (simp_all add: markDegraded_def)

text \<open>A configuration says it is degraded exactly when it carries a reason.\<close>

definition honest :: "DelightConfig \<Rightarrow> bool" where
  "honest c \<longleftrightarrow> (Degraded c \<longleftrightarrow> LoadWarnings c \<noteq> [])"

lemma honest_mark [simp]: "honest (markDegraded w c)"
  by (simp add: honest_def)

lemma honest_update [simp]: "honest (c\<lparr>System := s\<rparr>) = honest c" "honest (c\<lparr>Projects := p\<rparr>) = honest c"
  by (simp_all add: honest_def)

lemma honest_fold: "honest c \<Longrightarrow> honest (fold (\<lambda>w c. markDegraded (FragmentProblem w) c) ws c)"
  by (induction ws arbitrary: c) simp_all

lemma fold_mark_fields [simp]:
  "System (fold (\<lambda>w c. markDegraded (FragmentProblem w) c) ws c) = System c"
  "Projects (fold (\<lambda>w c. markDegraded (FragmentProblem w) c) ws c) = Projects c"
  "LoadWarnings (fold (\<lambda>w c. markDegraded (FragmentProblem w) c) ws c) = LoadWarnings c @ map FragmentProblem ws"
  by (induction ws arbitrary: c) simp_all

lemma validate_from_honest: "honest c \<Longrightarrow> honest (fst (validate_from i seen ps c))"
  by (induction i seen ps c rule: validate_from.induct) (auto split: prod.split)

lemma validate_from_system: "System (fst (validate_from i seen ps c)) = System c"
  by (induction i seen ps c rule: validate_from.induct) (auto split: prod.split)

lemma validate_from_fresh: "p \<in> set (snd (validate_from i seen ps c)) \<Longrightarrow> pc_name p \<notin> seen"
  by (induction i seen ps c rule: validate_from.induct) (auto split: if_splits prod.splits)

lemma validate_from_names: "distinct (map pc_name (snd (validate_from i seen ps c)))"
proof (induction i seen ps c rule: validate_from.induct)
  case (2 i seen p ps c)
  have "pc_name p \<notin> pc_name ` set (snd (validate_from (i + 1) (insert (pc_name p) seen) ps c))"
    using validate_from_fresh by fastforce
  with 2 show ?case by (simp add: split_beta)
qed simp

lemma validate_from_sound: "p \<in> set (snd (validate_from i seen ps c)) \<Longrightarrow> projectStructuralErrors p = []"
  by (induction i seen ps c rule: validate_from.induct) (auto split: if_splits prod.splits)

lemma validate_from_subseq: "subseq (snd (validate_from i seen ps c)) ps"
  by (induction i seen ps c rule: validate_from.induct) (auto split: prod.splits)

lemma validate_from_complete:
  "p \<in> set ps \<Longrightarrow> projectStructuralErrors p = [] \<Longrightarrow>
     pc_name p \<in> seen \<union> pc_name ` set (snd (validate_from i seen ps c))"
proof (induction i seen ps c rule: validate_from.induct)
  case (2 i seen q ps c)
  then show ?case by (cases "p = q") (auto split: prod.splits if_splits)
qed simp

lemma validate_from_warnings:
  "length (LoadWarnings (fst (validate_from i seen ps c))) + length (snd (validate_from i seen ps c))
     = length (LoadWarnings c) + length ps"
  by (induction i seen ps c rule: validate_from.induct) (auto split: prod.splits)

lemmas validate_from_facts =
  validate_from_honest validate_from_system validate_from_names validate_from_sound
  validate_from_subseq validate_from_complete validate_from_warnings

text \<open>The candidates a load starts from: the inline list, then the fragments that parse.\<close>

definition candidates ::
  "viper \<Rightarrow> osenv \<Rightarrow> fragment_reader \<Rightarrow> (string \<Rightarrow> ReadDirError + (string \<times> bool) list) \<Rightarrow> ProjectConfig list" where
  "candidates vp env viperRead readDir =
     snd (vp_unmarshalled vp)
     @ fst (LoadProjectFragments viperRead readDir
         (if getenv env ''DELIGHT_PROJECTS_DIR'' \<noteq> [] then getenv env ''DELIGHT_PROJECTS_DIR''
          else fp_join [ConfigRoot (ResolveRoots env (fst (vp_unmarshalled vp))), ''delightd'', ''projects.d'']))"

lemma Load_shape:
  assumes "vp_bind_err vp = None"
  obtains c where "Load vp env viperRead readDir =
       Inr ((fst (validate_from 0 {} (candidates vp env viperRead readDir) c))
            \<lparr>Projects := snd (validate_from 0 {} (candidates vp env viperRead readDir) c)\<rparr>)"
    and "honest c" and "System c = ResolveRoots env (fst (vp_unmarshalled vp))"
proof -
  define cfg where "cfg = \<lparr>System = fst (vp_unmarshalled vp), Projects = snd (vp_unmarshalled vp),
      Degraded = False, LoadWarnings = []\<rparr>"
  define c1 where "c1 = (case vp_read vp of ConfigMalformed e \<Rightarrow> markDegraded (ConfigParseFailed e) cfg | _ \<Rightarrow> cfg)"
  define c2 where "c2 = (case vp_unmarshal_err vp of Some e \<Rightarrow> markDegraded (ConfigUnmarshalFailed e) c1 | None \<Rightarrow> c1)"
  define c3 where "c3 = c2\<lparr>System := ResolveRoots env (System c2)\<rparr>"
  have cfg: "System cfg = fst (vp_unmarshalled vp)" "Projects cfg = snd (vp_unmarshalled vp)" "honest cfg"
    by (simp_all add: cfg_def honest_def)
  then have c1: "System c1 = fst (vp_unmarshalled vp)" "Projects c1 = snd (vp_unmarshalled vp)" "honest c1"
    by (simp_all add: c1_def split: ReadConfig.split)
  then have c2: "System c2 = fst (vp_unmarshalled vp)" "Projects c2 = snd (vp_unmarshalled vp)" "honest c2"
    by (simp_all add: c2_def split: option.split)
  obtain fp fw where frag: "LoadProjectFragments viperRead readDir (ProjectsDir env c3) = (fp, fw)" by fastforce
  define c5 where "c5 = fold (\<lambda>w c. markDegraded (FragmentProblem w) c) fw (c3\<lparr>Projects := Projects c3 @ fp\<rparr>)"
  have cand: "candidates vp env viperRead readDir = Projects c5"
    using frag c2
    by (cases "getenv env ''DELIGHT_PROJECTS_DIR'' = []") (simp_all add: candidates_def c5_def c3_def ProjectsDir_def)
  have "Load vp env viperRead readDir = (case validateProjects c5 of (c6, valid) \<Rightarrow> Inr (c6\<lparr>Projects := valid\<rparr>))"
    unfolding Load_def Let_def assms option.case cfg_def [symmetric] c1_def [symmetric] c2_def [symmetric]
      c3_def [symmetric] frag prod.case c5_def [symmetric] ..
  moreover have "honest c5" "System c5 = ResolveRoots env (fst (vp_unmarshalled vp))"
    using c2 by (simp_all add: c5_def c3_def honest_fold)
  ultimately show ?thesis
    using that [of c5] by (simp add: validateProjects_def cand split: prod.splits)
qed

section \<open>Properties\<close>


definition demo_project :: "string \<Rightarrow> string \<Rightarrow> ProjectConfig" where
  "demo_project n p = \<lparr>pc_name = n, pc_path = p, pc_essential = False,
     pc_deploy = \<lparr>dp_kind = [], dp_deployment = [], dp_command = []\<rparr>,
     pc_backup = \<lparr>CheckInterval = ''15m'', MaxArchives = 3, Exclude = []\<rparr>, pc_kind = []\<rparr>"

definition empty_system :: SystemConfig where
  "empty_system = \<lparr>MonitorRoot = [], DaemonRoot = [], BackupsRoot = [], ConfigRoot = [],
     AgentSkills = \<lparr>as_enabled = False, as_expose_via = []\<rparr>, DaemonCfg = \<lparr>ControlPort = 0, PidFile = []\<rparr>,
     LLMProviders = [], Kafka = \<lparr>Brokers = [], SchemaRegistryURL = [], Topic = []\<rparr>\<rparr>"

definition demo_viper :: viper where
  "demo_viper = \<lparr>vp_bind_err = None, vp_read = ConfigMalformed ''yaml'', 
     vp_unmarshalled = (empty_system, [demo_project ''a'' ''/a'', demo_project ''b'' '' '', demo_project ''a'' ''/c'']),
     vp_unmarshal_err = None\<rparr>"

definition demo_osenv :: osenv where
  "demo_osenv = \<lparr>getenv = \<lambda>_. [], userHomeDir = Some ''/home/jane''\<rparr>"

definition demo_load :: DelightConfig where
  "demo_load = projr (Load demo_viper demo_osenv (\<lambda>_. Inl ''io'') (\<lambda>_. Inl DirNotExist))"

lemma demo_load_ok: "Load demo_viper demo_osenv (\<lambda>_. Inl ''io'') (\<lambda>_. Inl DirNotExist) = Inr demo_load"
proof -
  have "isl (Load demo_viper demo_osenv (\<lambda>_. Inl ''io'') (\<lambda>_. Inl DirNotExist)) = False" by code_simp
  then show ?thesis by (simp add: demo_load_def)
qed


definition root_or :: "osenv \<Rightarrow> string \<Rightarrow> string \<Rightarrow> string" where
  "root_or env dflt r = expandHome (userHomeDir env) (if r = [] then dflt else r)"

definition install_root :: "osenv \<Rightarrow> string" where
  "install_root env =
     (if getenv env ''DELIGHT_INSTALL_ROOT'' \<noteq> [] then getenv env ''DELIGHT_INSTALL_ROOT'' else DefaultInstallRoot)"

lemma ResolveRoots_eq:
  "ResolveRoots env s =
     s\<lparr>MonitorRoot := root_or env (install_root env) (MonitorRoot s),
       DaemonRoot := root_or env DefaultDaemonRoot (DaemonRoot s),
       BackupsRoot := root_or env (fp_join [root_or env DefaultDaemonRoot (DaemonRoot s), ''backups'']) (BackupsRoot s),
       ConfigRoot := root_or env DefaultConfigRoot (ConfigRoot s)\<rparr>"
  by (cases "MonitorRoot s = []"; cases "DaemonRoot s = []"; cases "ConfigRoot s = []"; cases "BackupsRoot s = []")
    (simp_all add: ResolveRoots_def Let_def root_or_def install_root_def)

lemma root_or_idem:
  assumes "\<forall>h. userHomeDir env = Some h \<longrightarrow> h \<noteq> [] \<and> hd h = CHR ''/''" and "d \<noteq> []"
  shows "root_or env d' (root_or env d r) = root_or env d r"
proof -
  have "p \<noteq> [] \<Longrightarrow> expandHome (userHomeDir env) p \<noteq> []" for p
    using assms(1) fp_join_rooted by (auto simp: expandHome_def split: option.split)
  then show ?thesis using assms by (simp add: root_or_def expandHome_idem)
qed

text \<open>
  resolving the roots twice is the same as resolving them once, given an absolute home directory (or none); the
  backups root then is an explicit one, expanded, or \<^verbatim>\<open>backups\<close> under the resolved daemon root.
\<close>

theorem resolve_roots_idempotent:
  assumes "\<forall>h. userHomeDir env = Some h \<longrightarrow> h \<noteq> [] \<and> hd h = CHR ''/''"
  shows "ResolveRoots env (ResolveRoots env s) = ResolveRoots env s
    \<and> BackupsRoot (ResolveRoots env s) =
        (if BackupsRoot s = [] then expandHome (userHomeDir env) (fp_join [DaemonRoot (ResolveRoots env s), ''backups''])
         else expandHome (userHomeDir env) (BackupsRoot s))"
proof -
  have "install_root env \<noteq> []" "DefaultDaemonRoot \<noteq> []" "DefaultConfigRoot \<noteq> []" "fp_join [d, ''backups''] \<noteq> []" for d
    by (simp_all add: install_root_def DefaultInstallRoot_def DefaultDaemonRoot_def DefaultConfigRoot_def fp_join_def)
  then show ?thesis
    by (simp add: ResolveRoots_eq root_or_idem [OF assms]) (simp add: root_or_def)
qed

theorem resolve_roots_idempotent_witness:
  "ResolveRoots demo_osenv (ResolveRoots demo_osenv empty_system) = ResolveRoots demo_osenv empty_system
   \<and> BackupsRoot (ResolveRoots demo_osenv empty_system) = ''/home/jane/var/backups''"
proof -
  have "BackupsRoot (ResolveRoots demo_osenv empty_system) = ''/home/jane/var/backups''" by code_simp
  with resolve_roots_idempotent [of demo_osenv empty_system] show ?thesis
    by (simp add: demo_osenv_def)
qed

text \<open>
  a fragment passes \<^verbatim>\<open>delightd lint\<close> exactly when loading it alone would keep it: lint and the loader judge a
  project by the same structural rule, and the warnings about its path never decide.
\<close>

theorem lint_agrees_with_load:
  "li_valid (LintFragment viperRead stat path) \<longleftrightarrow>
     (\<exists>p. ParseFragment viperRead path = Inr p \<and> snd (validate_from 0 {} [p] c) = [p])"
  by (auto simp: LintFragment_def Let_def split: sum.split)

end
