(* ===== verification/Gitstate.thy ===== *)
theory Gitstate
  imports Config
begin

text \<open>
  The git oracle of \<^verbatim>\<open>pkg/gitstate/gitstate.go\<close> and the churn check of \<^verbatim>\<open>pkg/watcher/watcher.go\<close>. go-git is
  not part of the repository: an opened repository is the record of what it answers when asked,
  and opening one is an argument. The concurrent sweep is modelled by the order in which its
  goroutines fill their slots.
\<close>

section \<open>What go-git answers\<close>

record headref =
  hr_is_branch :: bool
  hr_short :: string
  hr_hash :: string

text \<open>\<open>gc_remotes\<close> lists the remotes by name with their URLs; a null entry of the map is \<open>None\<close>.\<close>

record gitconfig =
  gc_branch_remote :: "string \<Rightarrow> string option"
  gc_remotes :: "(string \<times> string list option) list"

text \<open>
  \<open>gr_log\<close> is the commit sequence from a hash, up to the end or to the error that stops the iteration;
  \<open>gr_status\<close> answers whether the working tree is clean.
\<close>

record gitrepo =
  gr_head :: "string + headref"
  gr_config :: "string + gitconfig"
  gr_worktree_err :: "string option"
  gr_status :: "string + bool"
  gr_reference :: "string \<Rightarrow> string \<Rightarrow> string option"
  gr_log :: "string \<Rightarrow> (string + string list)"

datatype PathStat = PathOk | PathMissing | PathError string

record gitos =
  go_home :: "string option"
  go_stat :: "string \<Rightarrow> PathStat"
  go_open :: "string \<Rightarrow> string + gitrepo"

section \<open>Operations\<close>

record GitState =
  gs_branch :: string
  gs_dirty :: bool
  gs_unpushed :: int
  gs_has_upstream :: bool
  gs_remote_url :: string
  gs_error :: string
  gs_missing_path :: bool

definition zero_git :: GitState where
  "zero_git = \<lparr>gs_branch = [], gs_dirty = False, gs_unpushed = 0, gs_has_upstream = False, gs_remote_url = [],
     gs_error = [], gs_missing_path = False\<rparr>"

definition ErrPathNotFound :: string where
  "ErrPathNotFound = ''project path not found''"

definition firstURL :: "string list option \<Rightarrow> string" where
  "firstURL r = (case r of Some (u # us) \<Rightarrow> u | _ \<Rightarrow> [])"

definition resolveRemote :: "gitrepo \<Rightarrow> string \<Rightarrow> string \<times> string \<times> bool" where
  "resolveRemote repo branch =
     (case gr_config repo of
        Inl e \<Rightarrow> ([], [], False)
      | Inr cfg \<Rightarrow>
          (let tracked = (case gc_branch_remote cfg branch of Some r \<Rightarrow> r | None \<Rightarrow> [])
           in if tracked \<noteq> [] then (tracked, firstURL (Option.bind (map_of (gc_remotes cfg) tracked) id), True)
              else if ''origin'' \<in> fst ` set (gc_remotes cfg)
                then (''origin'', firstURL (Option.bind (map_of (gc_remotes cfg) ''origin'') id), True)
              else (case gc_remotes cfg of [(n, r)] \<Rightarrow> (n, firstURL r, True) | _ \<Rightarrow> ([], [], False))))"

text \<open>\<open>stop = None\<close> is the zero hash, which no commit has.\<close>

definition countCommitsUntil :: "gitrepo \<Rightarrow> string \<Rightarrow> string option \<Rightarrow> int" where
  "countCommitsUntil repo from stop =
     (case gr_log repo from of
        Inl e \<Rightarrow> 0
      | Inr cs \<Rightarrow> int (length (takeWhile (\<lambda>c. Some c \<noteq> stop) cs)))"

definition countUnpushed :: "gitrepo \<Rightarrow> headref \<Rightarrow> string \<Rightarrow> bool \<Rightarrow> int \<times> bool" where
  "countUnpushed repo head remoteName hasRemote =
     (if \<not> hasRemote then (countCommitsUntil repo (hr_hash head) None, False)
      else
        (case gr_reference repo remoteName (hr_short head) of
           None \<Rightarrow> (countCommitsUntil repo (hr_hash head) None, False)
         | Some upstream \<Rightarrow> (countCommitsUntil repo (hr_hash head) (Some upstream), True)))"

text \<open>The package's own copy of \<^verbatim>\<open>expandHome\<close>.\<close>

definition git_expandHome :: "string option \<Rightarrow> string \<Rightarrow> string" where
  "git_expandHome home path =
     (if path = ''~'' \<or> hasPrefix path ''~/'' then
        (case home of Some h \<Rightarrow> fp_join [h, trimPrefix path ''~''] | None \<Rightarrow> path)
      else path)"

lemma git_expandHome_eq [simp]: "git_expandHome = expandHome"
  by (simp add: git_expandHome_def expandHome_def fun_eq_iff)

definition Collect :: "gitos \<Rightarrow> string \<Rightarrow> GitState" where
  "Collect os path =
     (let st = zero_git; resolved = git_expandHome (go_home os) path
      in case go_stat os resolved of
           PathMissing \<Rightarrow> st\<lparr>gs_error := ErrPathNotFound, gs_missing_path := True\<rparr>
         | PathError e \<Rightarrow> st\<lparr>gs_error := e\<rparr>
         | PathOk \<Rightarrow>
        (case go_open os resolved of
           Inl e \<Rightarrow> st\<lparr>gs_error := e\<rparr>
         | Inr repo \<Rightarrow>
        (case gr_head repo of
           Inl e \<Rightarrow> st\<lparr>gs_error := e\<rparr>
         | Inr head \<Rightarrow>
        (let st1 = (if hr_is_branch head then st\<lparr>gs_branch := hr_short head\<rparr> else st)
         in case resolveRemote repo (gs_branch st1) of (remoteName, remoteURL, hasRemote) \<Rightarrow>
        (let st2 = st1\<lparr>gs_remote_url := remoteURL\<rparr>
         in case gr_worktree_err repo of
              Some e \<Rightarrow> st2\<lparr>gs_error := e\<rparr>
            | None \<Rightarrow>
        (case gr_status repo of
           Inl e \<Rightarrow> st2\<lparr>gs_error := e\<rparr>
         | Inr isClean \<Rightarrow>
             (case countUnpushed repo head remoteName hasRemote of (n, up) \<Rightarrow>
                st2\<lparr>gs_dirty := \<not> isClean, gs_unpushed := n, gs_has_upstream := up\<rparr>)))))))"

text \<open>\<open>late\<close>: the timer fires before the read is done.\<close>

definition collectWithTimeout :: "gitos \<Rightarrow> bool \<Rightarrow> string \<Rightarrow> GitState" where
  "collectWithTimeout os late path =
     (if late then zero_git\<lparr>gs_error := ''git state read exceeded 5s''\<rparr> else Collect os path)"

record ProjectGit =
  pg_name :: string
  pg_git :: GitState

text \<open>
  \<open>CollectAll\<close>: every goroutine writes the slot of its index; \<open>order\<close> is the order in which they finish, and
  \<open>late i\<close> whether the read of project \<open>i\<close> ran out of time. The entries are sorted by name; a loaded roster has no two
  projects of one name, so every sort gives the same list.
\<close>

definition zero_slot :: ProjectGit where
  "zero_slot = \<lparr>pg_name = [], pg_git = zero_git\<rparr>"

definition slot :: "gitos \<Rightarrow> (nat \<Rightarrow> bool) \<Rightarrow> ProjectConfig list \<Rightarrow> nat \<Rightarrow> ProjectGit" where
  "slot os late projects i =
     \<lparr>pg_name = pc_name (projects ! i), pg_git = collectWithTimeout os (late i) (pc_path (projects ! i))\<rparr>"

definition CollectAll :: "gitos \<Rightarrow> (nat \<Rightarrow> bool) \<Rightarrow> nat list \<Rightarrow> ProjectConfig list \<Rightarrow> ProjectGit list" where
  "CollectAll os late order projects =
     sort_key pg_name
       (fold (\<lambda>i out. out[i := slot os late projects i]) order (replicate (length projects) zero_slot))"

definition RemoteURL :: "gitos \<Rightarrow> string \<Rightarrow> string" where
  "RemoteURL os path =
     (case go_open os (git_expandHome (go_home os) path) of
        Inl e \<Rightarrow> []
      | Inr repo \<Rightarrow>
          (let branch = (case gr_head repo of Inr h \<Rightarrow> if hr_is_branch h then hr_short h else [] | Inl e \<Rightarrow> [])
           in fst (snd (resolveRemote repo branch))))"

text \<open>\<^verbatim>\<open>HasChurn\<close> opens the configured path as it is written; \<open>notExists\<close> is go-git's own error for no repository.\<close>

datatype ChurnError = NotARepository string | OpenFailed string | NoWorktree string | NoStatus string

definition HasChurn :: "(string \<Rightarrow> bool) \<Rightarrow> gitos \<Rightarrow> string \<Rightarrow> ChurnError + bool" where
  "HasChurn notExists os projectPath =
     (case go_open os projectPath of
        Inl e \<Rightarrow> Inl (if notExists e then NotARepository projectPath else OpenFailed e)
      | Inr r \<Rightarrow>
          (case gr_worktree_err r of
             Some e \<Rightarrow> Inl (NoWorktree e)
           | None \<Rightarrow>
               (case gr_status r of
                  Inl e \<Rightarrow> Inl (NoStatus e)
                | Inr isClean \<Rightarrow> Inr (\<not> isClean))))"

section \<open>Facts\<close>

lemma fold_slots_length [simp]: "length (fold (\<lambda>i out. out[i := f i]) is xs) = length xs"
  by (induction "is" arbitrary: xs) simp_all

lemma fold_slots_nth:
  "i < length xs \<Longrightarrow> fold (\<lambda>i out. out[i := f i]) is xs ! i = (if i \<in> set is then f i else xs ! i)"
  by (induction "is" arbitrary: xs) (auto simp: nth_list_update)

lemma fold_slots_all:
  assumes "set is = {..<n}"
  shows "fold (\<lambda>i out. out[i := f i]) is (replicate n z) = map f [0..<n]"
  by (rule nth_equalityI) (use assms in \<open>auto simp: fold_slots_nth\<close>)

lemma Collect_ok:
  assumes "gs_error (Collect os path) = []"
    and "\<forall>p e. go_stat os p = PathError e \<longrightarrow> e \<noteq> []" and "\<forall>p e. go_open os p = Inl e \<longrightarrow> e \<noteq> []"
    and "\<forall>p repo e. go_open os p = Inr repo \<longrightarrow>
          (gr_head repo = Inl e \<or> gr_worktree_err repo = Some e \<or> gr_status repo = Inl e \<longrightarrow> e \<noteq> [])"
  obtains repo head isClean where "go_stat os (expandHome (go_home os) path) = PathOk"
    and "go_open os (expandHome (go_home os) path) = Inr repo" and "gr_head repo = Inr head"
    and "gr_worktree_err repo = None" and "gr_status repo = Inr isClean"
    and "gs_dirty (Collect os path) = (\<not> isClean)"
proof -
  let ?p = "expandHome (go_home os) path"
  have stat: "go_stat os ?p = PathOk"
    using assms(1,2) by (cases "go_stat os ?p") (auto simp: Collect_def ErrPathNotFound_def)
  obtain repo where repo: "go_open os ?p = Inr repo"
    using assms(1,3) stat by (cases "go_open os ?p") (auto simp: Collect_def)
  obtain head where head: "gr_head repo = Inr head"
    using assms(1,4) stat repo by (cases "gr_head repo") (fastforce simp: Collect_def)+
  have wt: "gr_worktree_err repo = None"
    using assms(1,4) stat repo head
    by (cases "gr_worktree_err repo") (fastforce simp: Collect_def Let_def split: prod.splits)+
  obtain c where st: "gr_status repo = Inr c"
    using assms(1,4) stat repo head wt
    by (cases "gr_status repo") (fastforce simp: Collect_def Let_def split: prod.splits)+
  have "gs_dirty (Collect os path) = (\<not> c)"
    using stat repo head wt st by (simp add: Collect_def Let_def split: prod.splits)
  with stat repo head wt st that show thesis by blast
qed

section \<open>Properties\<close>

text \<open>
  the concurrent sweep answers the same whatever order its goroutines finish in: one entry per project, sorted by
  name, each with the state read for that project's own path, or with the timeout as its own
  error; a slow or broken tree never changes or removes another project's entry.
\<close>

theorem sweep_independent_of_order:
  assumes "set order = {..<length projects}"
  shows "CollectAll os late order projects =
      sort_key pg_name (map (slot os late projects) [0..<length projects])
    \<and> sorted (map pg_name (CollectAll os late order projects))
    \<and> mset (map pg_name (CollectAll os late order projects)) = mset (map pc_name projects)
    \<and> (\<forall>i < length projects. slot os late projects i \<in> set (CollectAll os late order projects))"
proof -
  have C: "CollectAll os late order projects = sort_key pg_name (map (slot os late projects) [0..<length projects])"
    unfolding CollectAll_def fold_slots_all [OF assms] ..
  have "map pg_name (map (slot os late projects) [0..<length projects]) = map pc_name projects"
    by (rule nth_equalityI) (simp_all add: slot_def)
  then have "mset (map pg_name (CollectAll os late order projects)) = mset (map pc_name projects)"
    unfolding C mset_map mset_sort by (metis mset_map)
  then show ?thesis unfolding C by simp
qed

definition clean_repo :: gitrepo where
  "clean_repo = \<lparr>gr_head = Inr \<lparr>hr_is_branch = True, hr_short = ''main'', hr_hash = ''c3''\<rparr>,
     gr_config = Inr \<lparr>gc_branch_remote = \<lambda>_. None, gc_remotes = [(''github'', Some [''git@h:p''])]\<rparr>,
     gr_worktree_err = None, gr_status = Inr True, gr_reference = \<lambda>r b. Some ''c1'',
     gr_log = \<lambda>_. Inr [''c3'', ''c2'', ''c1'', ''c0'']\<rparr>"

definition demo_os :: "gitrepo \<Rightarrow> gitos" where
  "demo_os r = \<lparr>go_home = Some ''/h'', go_stat = \<lambda>p. if p = ''/gone'' then PathMissing else PathOk,
     go_open = \<lambda>p. Inr r\<rparr>"

theorem sweep_independent_of_order_witness:
  "CollectAll (demo_os clean_repo) (\<lambda>_. False) [1, 0] [demo_project ''b'' ''/b'', demo_project ''a'' ''/gone''] =
   CollectAll (demo_os clean_repo) (\<lambda>_. False) [0, 1] [demo_project ''b'' ''/b'', demo_project ''a'' ''/gone'']"
proof -
  let ?ps = "[demo_project ''b'' ''/b'', demo_project ''a'' ''/gone'']"
  have "set [1, 0] = {..<length ?ps}" "set [0, 1] = {..<length ?ps}" by (auto simp: lessThan_Suc)
  from sweep_independent_of_order [OF this(1), THEN conjunct1] sweep_independent_of_order [OF this(2), THEN conjunct1]
  show ?thesis by (simp only:)
qed

text \<open>
  a git state without an error was really read: the path existed, the repository opened, it has a readable head
  and a worktree whose status was computed, and dirty is the negation of what that status
  said. A missing path is told apart from every other failure. (The errors of the operating
  system and of go-git are assumed to carry a message.)
\<close>

theorem git_state_without_error_was_read:
  assumes "\<forall>p e. go_stat os p = PathError e \<longrightarrow> e \<noteq> [] \<and> e \<noteq> ErrPathNotFound"
    and "\<forall>p e. go_open os p = Inl e \<longrightarrow> e \<noteq> []"
    and "\<forall>p repo e. go_open os p = Inr repo \<longrightarrow>
          (gr_head repo = Inl e \<or> gr_worktree_err repo = Some e \<or> gr_status repo = Inl e \<longrightarrow> e \<noteq> [])"
  shows "(gs_error (Collect os path) = [] \<longrightarrow>
        (\<exists>repo head. go_open os (expandHome (go_home os) path) = Inr repo \<and> gr_head repo = Inr head
           \<and> gr_worktree_err repo = None \<and> gr_status repo = Inr (\<not> gs_dirty (Collect os path))))
    \<and> (gs_missing_path (Collect os path) \<longleftrightarrow> go_stat os (expandHome (go_home os) path) = PathMissing)"
proof
  show "gs_error (Collect os path) = [] \<longrightarrow>
      (\<exists>repo head. go_open os (expandHome (go_home os) path) = Inr repo \<and> gr_head repo = Inr head
         \<and> gr_worktree_err repo = None \<and> gr_status repo = Inr (\<not> gs_dirty (Collect os path)))"
  proof
    assume err: "gs_error (Collect os path) = []"
    from assms(1) have stat: "\<forall>p e. go_stat os p = PathError e \<longrightarrow> e \<noteq> []" by blast
    show "\<exists>repo head. go_open os (expandHome (go_home os) path) = Inr repo \<and> gr_head repo = Inr head
         \<and> gr_worktree_err repo = None \<and> gr_status repo = Inr (\<not> gs_dirty (Collect os path))"
      by (rule Collect_ok [OF err stat assms(2,3)]) auto
  qed
  show "gs_missing_path (Collect os path) \<longleftrightarrow> go_stat os (expandHome (go_home os) path) = PathMissing"
    by (auto simp: Collect_def zero_git_def Let_def split: PathStat.splits sum.splits option.splits prod.splits if_splits)
qed

theorem git_state_without_error_was_read_witness:
  "gs_missing_path (Collect (demo_os clean_repo) ''/gone'') \<and> \<not> gs_missing_path (Collect (demo_os clean_repo) ''/b'')"
  using git_state_without_error_was_read [of "demo_os clean_repo" "''/gone''"]
    git_state_without_error_was_read [of "demo_os clean_repo" "''/b''"]
  by (auto simp: demo_os_def clean_repo_def expandHome_def hasPrefix_def split: if_splits)

text \<open>
  the unpushed count of a branch with an upstream is the number of commits the log yields before the upstream, and
  of one without an upstream every commit; but a history whose log cannot be opened reports
  zero unpushed commits and no error, so the tree is served as clean and pushed: the count fails
  open.
\<close>

theorem unpushed_fails_open:
  assumes "go_stat os (expandHome (go_home os) path) = PathOk"
    and "go_open os (expandHome (go_home os) path) = Inr repo" and "gr_head repo = Inr head"
    and "gr_worktree_err repo = None" and "gr_status repo = Inr True"
    and "gr_log repo (hr_hash head) = Inl e"
  shows "gs_error (Collect os path) = [] \<and> gs_unpushed (Collect os path) = 0 \<and> \<not> gs_dirty (Collect os path)"
  using assms
  by (simp add: Collect_def Let_def zero_git_def countUnpushed_def countCommitsUntil_def split: prod.splits option.splits if_splits)

theorem unpushed_fails_open_witness:
  "gs_unpushed (Collect (demo_os (clean_repo\<lparr>gr_log := \<lambda>_. Inl ''object not found''\<rparr>)) ''/b'') = 0
   \<and> gs_unpushed (Collect (demo_os clean_repo) ''/b'') = 2"
proof -
  have "gs_unpushed (Collect (demo_os clean_repo) ''/b'') = 2" by code_simp
  with unpushed_fails_open [of "demo_os (clean_repo\<lparr>gr_log := \<lambda>_. Inl ''object not found''\<rparr>)" "''/b''"]
  show ?thesis by (simp add: demo_os_def clean_repo_def expandHome_def hasPrefix_def)
qed

end
