(* ===== verification/Auth.thy ===== *)
theory Auth
  imports Prelude Paths
begin

text \<open>
  The gate of the control port: \<^verbatim>\<open>pkg/httpapi/auth.go\<close> and the route table \<^verbatim>\<open>Mux\<close> builds in
  \<^verbatim>\<open>pkg/httpapi/httpapi.go\<close>. A reply carries its status, whether it challenges for a bearer,
  and its body; the body of every error reply is the error text.
\<close>

section \<open>Requests and replies\<close>

record request =
  rq_method :: string
  rq_path :: "string list"
  rq_authorization :: string
  rq_query_type :: string
  rq_body :: bytes

text \<open>An error text is a literal or a format with the values it is filled with.\<close>

datatype errtext = Msg string | Fmt string "string list"

record 'b reply =
  rp_status :: nat
  rp_challenge :: bool
  rp_body :: "errtext + 'b"

text \<open>\<^verbatim>\<open>writeJSON\<close> with an \<^verbatim>\<open>errorResponse\<close>, and with any other body.\<close>

definition writeError :: "nat \<Rightarrow> errtext \<Rightarrow> 'b reply" where
  "writeError status msg = \<lparr>rp_status = status, rp_challenge = False, rp_body = Inl msg\<rparr>"

definition writeJSON :: "nat \<Rightarrow> 'b \<Rightarrow> 'b reply" where
  "writeJSON status payload = \<lparr>rp_status = status, rp_challenge = False, rp_body = Inr payload\<rparr>"

text \<open>
  A handler that panics is recovered by \<^verbatim>\<open>net/http\<close>, which drops the connection without a reply: status \<open>0\<close>.
\<close>

definition aborted :: "'b reply" where
  "aborted = \<lparr>rp_status = 0, rp_challenge = False, rp_body = Inl (Msg ''connection aborted'')\<rparr>"

section \<open>The bearer gate\<close>

definition bearerPrefix :: string where
  "bearerPrefix = ''Bearer ''"

text \<open>
  \<open>next\<close> is the wrapped handler, which may change the server's state; \<open>token\<close> is the provisioned one, empty when
  there is none. \<^verbatim>\<open>subtle.ConstantTimeCompare\<close> answers 1 exactly on equal byte slices.
\<close>

definition requireBearer ::
  "bytes \<Rightarrow> (request \<Rightarrow> 's \<Rightarrow> 's \<times> 'b reply) \<Rightarrow> request \<Rightarrow> 's \<Rightarrow> 's \<times> 'b reply" where
  "requireBearer token next_handler r s =
     (if length token = 0 then (s, writeError 503 (Msg ''control token not provisioned''))
      else if \<not> hasPrefix (rq_authorization r) bearerPrefix then
        (s, (writeError 401 (Msg ''missing or invalid bearer token''))\<lparr>rp_challenge := True\<rparr>)
      else
        (let presented = trimPrefix (rq_authorization r) bearerPrefix
         in if presented \<noteq> token then
              (s, (writeError 401 (Msg ''missing or invalid bearer token''))\<lparr>rp_challenge := True\<rparr>)
            else next_handler r s))"

definition method_of :: "string \<Rightarrow> string" where
  "method_of pattern = takeWhile (\<lambda>c. c \<noteq> CHR '' '') pattern"

definition isMutatingPattern :: "string \<Rightarrow> bool" where
  "isMutatingPattern pattern \<longleftrightarrow> method_of pattern \<in> {''POST'', ''PUT'', ''PATCH'', ''DELETE''}"

section \<open>The route table\<close>

datatype route =
    RHealth | RReadyz | RMetrics | RDiscovery | RProjectState | RBackup | RReset
  | RProjectsAll | RRegistrations | RRegister | RStateAll | RStateGet | RStatePut
  | RGitAll | RProjectGit | RResolve | RServicesAll | RServiceByName | RIntrospect
  | RFurnishPieces | RFurnishHealth | RFurnishUp | RFurnishDown | RMCP

text \<open>The patterns recorded, the mutations left open, and the table: pattern, whether it is gated, handler.\<close>

record muxstate =
  mx_patterns :: "string list"
  mx_open :: "string list"
  mx_table :: "(string \<times> bool \<times> route) list"

definition register :: "string \<Rightarrow> route \<Rightarrow> muxstate \<Rightarrow> muxstate" where
  "register pattern h m =
     m\<lparr>mx_patterns := mx_patterns m @ [pattern],
       mx_table := mx_table m @ [(pattern, isMutatingPattern pattern, h)]\<rparr>"

definition registerCitizenRoute :: "string \<Rightarrow> route \<Rightarrow> muxstate \<Rightarrow> muxstate" where
  "registerCitizenRoute pattern h m =
     m\<lparr>mx_patterns := mx_patterns m @ [pattern], mx_open := mx_open m @ [pattern],
       mx_table := mx_table m @ [(pattern, False, h)]\<rparr>"

text \<open>
  \<^verbatim>\<open>Mux\<close>: a new table and new patterns; the list of open mutations is the server's and is not reset.
\<close>

definition Mux :: "bool \<Rightarrow> string list \<Rightarrow> muxstate" where
  "Mux mcpEnabled openMutations =
     (let m = \<lparr>mx_patterns = [], mx_open = openMutations, mx_table = []\<rparr>;
          m = register ''GET /health'' RHealth m;
          m = register ''GET /readyz'' RReadyz m;
          m = register ''GET /metrics'' RMetrics m;
          m = register ''GET /discovery/llms'' RDiscovery m;
          m = register ''GET /projects/{name}/state'' RProjectState m;
          m = register ''POST /projects/{name}/backup'' RBackup m;
          m = register ''POST /projects/{name}/reset'' RReset m;
          m = register ''GET /projects'' RProjectsAll m;
          m = register ''GET /registrations'' RRegistrations m;
          m = registerCitizenRoute ''POST /register'' RRegister m;
          m = register ''GET /state'' RStateAll m;
          m = register ''GET /state/{name}'' RStateGet m;
          m = register ''PUT /state/{name}'' RStatePut m;
          m = register ''GET /git'' RGitAll m;
          m = register ''GET /projects/{name}/git'' RProjectGit m;
          m = register ''GET /resolve/{name}'' RResolve m;
          m = register ''GET /services'' RServicesAll m;
          m = register ''GET /services/{name}'' RServiceByName m;
          m = register ''GET /projects/{name}/introspect'' RIntrospect m;
          m = register ''GET /furnish/pieces'' RFurnishPieces m;
          m = register ''GET /furnish/health'' RFurnishHealth m;
          m = register ''GET /furnish/health/{piece}'' RFurnishHealth m;
          m = register ''POST /furnish/{piece}/up'' RFurnishUp m;
          m = register ''POST /furnish/{piece}/down'' RFurnishDown m
      in if mcpEnabled then register ''POST /mcp'' RMCP m else m)"

section \<open>Dispatch\<close>

text \<open>
  \<^verbatim>\<open>http.ServeMux\<close> on these patterns: a pattern's segments match the path's one by one, a segment in braces matches
  any one nonempty segment and yields it, and a pattern for GET serves HEAD as well.
  A request for which a pattern matches the path but none the method gets 405, any other 404.
\<close>

definition path_segments :: "string \<Rightarrow> string list" where
  "path_segments pattern = tl (splitOn (CHR ''/'') pattern)"

definition is_wildcard :: "string \<Rightarrow> bool" where
  "is_wildcard seg \<longleftrightarrow> hasPrefix seg ''{''"

fun match_segments :: "string list \<Rightarrow> string list \<Rightarrow> string option" where
  "match_segments [] [] = Some []"
| "match_segments (p # ps) (x # xs) =
     (if is_wildcard p then if x = [] \<or> match_segments ps xs = None then None else Some x
      else if p = x then match_segments ps xs else None)"
| "match_segments _ _ = None"

definition method_matches :: "string \<Rightarrow> string \<Rightarrow> bool" where
  "method_matches pm m \<longleftrightarrow> pm = m \<or> pm = ''GET'' \<and> m = ''HEAD''"

datatype dispatch = Found bool route string | MethodNotAllowed | NotFound

fun dispatch_in :: "(string \<times> bool \<times> route) list \<Rightarrow> request \<Rightarrow> dispatch" where
  "dispatch_in [] r = NotFound"
| "dispatch_in ((pat, gated, h) # t) r =
     (case match_segments (path_segments pat) (rq_path r) of
        None \<Rightarrow> dispatch_in t r
      | Some v \<Rightarrow>
          if method_matches (method_of pat) (rq_method r) then Found gated h v
          else (case dispatch_in t r of NotFound \<Rightarrow> MethodNotAllowed | d \<Rightarrow> d))"

text \<open>A request through the mux: the gate where the route has one, then the handler.\<close>

definition serve_mux ::
  "muxstate \<Rightarrow> bytes \<Rightarrow> (route \<Rightarrow> string \<Rightarrow> request \<Rightarrow> 's \<Rightarrow> 's \<times> 'b reply) \<Rightarrow> request \<Rightarrow> 's \<Rightarrow> 's \<times> 'b reply" where
  "serve_mux m token handler r s =
     (case dispatch_in (mx_table m) r of
        NotFound \<Rightarrow> (s, writeError 404 (Msg ''404 page not found''))
      | MethodNotAllowed \<Rightarrow> (s, writeError 405 (Msg ''Method Not Allowed''))
      | Found gated h v \<Rightarrow>
          if gated then requireBearer token (handler h v) r s else handler h v r s)"

section \<open>Facts\<close>

lemma dispatch_in_Found:
  "dispatch_in t r = Found g h v \<Longrightarrow>
     \<exists>pat. (pat, g, h) \<in> set t \<and> method_matches (method_of pat) (rq_method r)
       \<and> match_segments (path_segments pat) (rq_path r) = Some v"
  by (induction t r rule: dispatch_in.induct) (auto split: option.splits if_splits dispatch.splits)

lemma requireBearer_refuses:
  assumes "token = [] \<or> rq_authorization r \<noteq> bearerPrefix @ token"
  shows "\<exists>rep. requireBearer token nh r s = (s, rep) \<and>
     rp_status rep = (if token = [] then 503 else 401) \<and> (rp_challenge rep \<longleftrightarrow> token \<noteq> [])"
  using assms by (auto simp: requireBearer_def writeError_def Let_def gostr)

lemma requireBearer_passes:
  "token \<noteq> [] \<Longrightarrow> rq_authorization r = bearerPrefix @ token \<Longrightarrow> requireBearer token nh r s = nh r s"
  by (simp add: requireBearer_def Let_def)

lemma Mux_table:
  "mx_table (Mux mcp o1) =
     [(''GET /health'', False, RHealth), (''GET /readyz'', False, RReadyz), (''GET /metrics'', False, RMetrics),
      (''GET /discovery/llms'', False, RDiscovery), (''GET /projects/{name}/state'', False, RProjectState),
      (''POST /projects/{name}/backup'', True, RBackup), (''POST /projects/{name}/reset'', True, RReset),
      (''GET /projects'', False, RProjectsAll), (''GET /registrations'', False, RRegistrations),
      (''POST /register'', False, RRegister), (''GET /state'', False, RStateAll),
      (''GET /state/{name}'', False, RStateGet), (''PUT /state/{name}'', True, RStatePut),
      (''GET /git'', False, RGitAll), (''GET /projects/{name}/git'', False, RProjectGit),
      (''GET /resolve/{name}'', False, RResolve), (''GET /services'', False, RServicesAll),
      (''GET /services/{name}'', False, RServiceByName), (''GET /projects/{name}/introspect'', False, RIntrospect),
      (''GET /furnish/pieces'', False, RFurnishPieces), (''GET /furnish/health'', False, RFurnishHealth),
      (''GET /furnish/health/{piece}'', False, RFurnishHealth), (''POST /furnish/{piece}/up'', True, RFurnishUp),
      (''POST /furnish/{piece}/down'', True, RFurnishDown)]
     @ (if mcp then [(''POST /mcp'', True, RMCP)] else [])"
proof (cases mcp)
  case True
  then have "mcp = True" by simp
  show ?thesis unfolding \<open>mcp = True\<close> by code_simp
next
  case False
  then have "mcp = False" by simp
  show ?thesis unfolding \<open>mcp = False\<close> by code_simp
qed

definition gated_properly :: "(string \<times> bool \<times> route) list \<Rightarrow> bool" where
  "gated_properly t \<longleftrightarrow>
     list_all (\<lambda>(pat, g, h).
       g = (method_of pat \<noteq> ''GET'' \<and> pat \<noteq> ''POST /register'') \<and> method_of pat \<noteq> ''HEAD'' \<and>
       (pat = ''POST /register'') = (h = RRegister)) t"

lemma Mux_gated: "gated_properly (mx_table (Mux mcp op))"
proof -
  have "gated_properly (mx_table (Mux True []))" "gated_properly (mx_table (Mux False []))" by code_simp+
  moreover have "mx_table (Mux mcp op) = mx_table (Mux mcp [])" by (simp only: Mux_table)
  ultimately show ?thesis by (cases mcp) simp_all
qed

lemma Mux_Found:
  assumes "dispatch_in (mx_table (Mux mcp op)) r = Found g h v"
  shows "if rq_method r \<in> {''GET'', ''HEAD''} then \<not> g \<and> h \<noteq> RRegister
    else if g then h \<noteq> RRegister else h = RRegister \<and> rq_path r = [''register'']"
proof -
  obtain pat where pat: "(pat, g, h) \<in> set (mx_table (Mux mcp op))" "method_matches (method_of pat) (rq_method r)"
    "match_segments (path_segments pat) (rq_path r) = Some v"
    using dispatch_in_Found [OF assms] by blast
  have props: "g = (method_of pat \<noteq> ''GET'' \<and> pat \<noteq> ''POST /register'')" "(pat = ''POST /register'') = (h = RRegister)"
    "method_of pat \<noteq> ''HEAD''"
    using Mux_gated [of mcp op] pat(1) by (auto simp: gated_properly_def list_all_iff)
  have reg: "path_segments ''POST /register'' = [''register'']" "method_of ''POST /register'' = ''POST''"
    "is_wildcard ''register'' = False" by code_simp+
  have seg: "rq_path r = [''register'']" if "pat = ''POST /register''"
    using pat(3) that reg by (cases "rq_path r") (auto split: if_splits elim: match_segments.elims)
  show ?thesis
  proof (cases "pat = ''POST /register''")
    case True
    then have "rq_method r = ''POST''" using pat(2) reg by (simp add: method_matches_def)
    with True props seg show ?thesis by simp
  next
    case False
    with props pat(2) show ?thesis by (auto simp: method_matches_def)
  qed
qed

section \<open>Properties\<close>

text \<open>
  C10: no request can change anything without the bearer except a frood's announcement: whatever the handlers do, a
  request with a method other than GET and HEAD whose Authorization is not the provisioned
  token (or when none is provisioned) leaves the server as it was and is answered 401, 503, 404 or
  405, unless it is for \<^verbatim>\<open>/register\<close>; and no request with GET or HEAD is ever asked for the token.
\<close>

theorem mutations_need_the_bearer:
  "(rq_method r \<notin> {''GET'', ''HEAD''} \<and> rq_path r \<noteq> [''register'']
      \<and> (token = [] \<or> rq_authorization r \<noteq> ''Bearer '' @ token) \<longrightarrow>
        fst (serve_mux (Mux mcp op) token handler r s) = s
        \<and> rp_status (snd (serve_mux (Mux mcp op) token handler r s)) \<in> {401, 503, 404, 405})
   \<and> (rq_method r \<in> {''GET'', ''HEAD''} \<longrightarrow>
        serve_mux (Mux mcp op) token handler r s =
          (case dispatch_in (mx_table (Mux mcp op)) r of
             Found g h v \<Rightarrow> handler h v r s
           | MethodNotAllowed \<Rightarrow> (s, writeError 405 (Msg ''Method Not Allowed''))
           | NotFound \<Rightarrow> (s, writeError 404 (Msg ''404 page not found''))))"
proof (cases "dispatch_in (mx_table (Mux mcp op)) r")
  case (Found g h v)
  note M = Mux_Found [OF Found]
  have gate: "\<exists>rep. requireBearer token (handler h v) r s = (s, rep) \<and> rp_status rep \<in> {401, 503, 404, 405}"
    if "token = [] \<or> rq_authorization r \<noteq> ''Bearer '' @ token"
    using requireBearer_refuses [of token r "handler h v" s] that by (auto simp: bearerPrefix_def)
  show ?thesis
  proof (cases "rq_method r \<in> {''GET'', ''HEAD''}")
    case True
    with M have "\<not> g" by simp
    with True Found show ?thesis by (simp add: serve_mux_def)
  next
    case False
    with M Found gate show ?thesis by (cases g) (auto simp: serve_mux_def)
  qed
qed (simp_all add: serve_mux_def writeError_def)

theorem mutations_need_the_bearer_witness:
  "fst (serve_mux (Mux True []) ''s3cret'' (\<lambda>h v r s. (s + 1, writeJSON 200 ()))
     \<lparr>rq_method = ''POST'', rq_path = [''projects'', ''a'', ''reset''], rq_authorization = ''Bearer guess'',
      rq_query_type = [], rq_body = []\<rparr> (0::nat)) = 0"
  using mutations_need_the_bearer [of "\<lparr>rq_method = ''POST'', rq_path = [''projects'', ''a'', ''reset''],
      rq_authorization = ''Bearer guess'', rq_query_type = [], rq_body = []\<rparr>" "''s3cret''" True "[]"
      "\<lambda>h v r s. (s + 1, writeJSON 200 ())" "0::nat"]
  by simp

end
