(* ===== verification/Register.thy ===== *)
theory Register
  imports Registry Auth Config
begin

text \<open>
  The announcement of a frood: \<^verbatim>\<open>pkg/httpapi/register.go\<close> with the schema-registry client of
  \<^verbatim>\<open>pkg/schemaregistry/client.go\<close>. The network answers through \<open>httpGet\<close>, the protobuf
  library decodes the request and judges a full name through arguments; the registry is that of
  the theory Registry. An event counts as emitted when the publisher takes it.
\<close>

section \<open>The schema registry client\<close>

definition unreserved :: "char \<Rightarrow> bool" where
  "unreserved c \<longleftrightarrow>
     (let n = (of_char c :: nat) in 48 \<le> n \<and> n \<le> 57 \<or> 65 \<le> n \<and> n \<le> 90 \<or> 97 \<le> n \<and> n \<le> 122)
     \<or> c \<in> set ''-_.~$&+:=@''"

definition hexDigit :: "nat \<Rightarrow> char" where
  "hexDigit n = (if n < 10 then char_of (48 + n) else char_of (55 + n))"

text \<open>\<^verbatim>\<open>url.PathEscape\<close>.\<close>

definition pathEscape :: "string \<Rightarrow> string" where
  "pathEscape s = concat (map (\<lambda>c. if unreserved c then [c]
     else [CHR 0x25, hexDigit (of_char c div 16), hexDigit (of_char c mod 16)]) s)"

text \<open>The client; its requests give up after the timeout, in nanoseconds.\<close>

record Client =
  cl_baseURL :: string
  cl_timeout :: int

definition NewClient :: "string \<Rightarrow> Client" where
  "NewClient baseURL = \<lparr>cl_baseURL = trimRightChar (CHR ''/'') baseURL, cl_timeout = 5 * second_ns\<rparr>"

lemma NewClient_fields [simp]: "cl_baseURL (NewClient url) = trimRightChar (CHR ''/'') url"
  by (simp add: NewClient_def)

datatype SubjectError = NotConfigured | Transport string | UnexpectedStatus nat

definition SubjectExists :: "(string \<Rightarrow> string + nat) \<Rightarrow> Client \<Rightarrow> string \<Rightarrow> SubjectError + bool" where
  "SubjectExists httpGet c subject =
     (let baseURL = cl_baseURL c
      in if baseURL = [] then Inl NotConfigured
         else
           (case httpGet (baseURL @ ''/subjects/'' @ pathEscape subject @ ''/versions'') of
              Inl e \<Rightarrow> Inl (Transport e)
            | Inr status \<Rightarrow>
                if status = 200 then Inr True else if status = 404 then Inr False
                else Inl (UnexpectedStatus status)))"

section \<open>Requests\<close>

record RegisterRequest =
  rr_project :: string
  rr_identity :: "Identity option"
  rr_contracts :: "ContractDescriptor option"
  rr_endpoints :: "Endpoint list"

record RegisterResponse =
  rp_identity :: "Identity option"
  rp_endpoint :: Endpoint
  rp_lease_ttl_seconds :: int

record NotRegistered =
  nr_project :: string
  nr_endpoint :: string
  nr_code :: string
  nr_reason :: errtext
  nr_occurred_at :: time

definition identity_project :: "RegisterRequest \<Rightarrow> string" where
  "identity_project req = (case rr_identity req of None \<Rightarrow> [] | Some i \<Rightarrow> id_project i)"

definition emits_of :: "ContractDescriptor option \<Rightarrow> ContractRef list" where
  "emits_of d = (case d of None \<Rightarrow> [] | Some c \<Rightarrow> cd_emits c)"

definition consumes_of :: "ContractDescriptor option \<Rightarrow> ContractRef list" where
  "consumes_of d = (case d of None \<Rightarrow> [] | Some c \<Rightarrow> cd_consumes c)"

definition serves_of :: "ContractDescriptor option \<Rightarrow> ContractRef list" where
  "serves_of d = (case d of None \<Rightarrow> [] | Some c \<Rightarrow> cd_serves c)"

section \<open>The environment of one request and the state it may change\<close>

record 'v regenv =
  re_cfg :: DelightConfig
  re_read_err :: bool
  re_decode :: "bytes \<Rightarrow> string + RegisterRequest"
  re_http :: "string \<Rightarrow> string + nat"
  re_valid_name :: "string \<Rightarrow> bool"
  re_now :: time
  re_marshal :: "RegisterResponse \<Rightarrow> string + RegisterResponse"
  re_codec :: "(Registration, 'v) codec"
  re_publisher :: "(NotRegistered \<Rightarrow> bool) option"

text \<open>The registry (\<open>None\<close> is Go's nil) and the events on the bus.\<close>

record 'b regstate =
  rs_reg :: "'b option"
  rs_events :: "NotRegistered list"

section \<open>Checks\<close>

definition requiredEmitSubject :: string where
  "requiredEmitSubject = ''observability.v1.ServiceHealthHeartbeat''"

definition guaranteeHealthCheck :: "(string \<Rightarrow> string + nat) \<Rightarrow> Endpoint \<Rightarrow> string option" where
  "guaranteeHealthCheck httpGet e =
     (let scheme = (if ep_scheme e = [] then ''http'' else ep_scheme e)
      in case httpGet (scheme @ ''://'' @ ep_address e @ ''/health'') of
           Inl err \<Rightarrow> Some err
         | Inr status \<Rightarrow> if status < 200 \<or> status \<ge> 300 then Some (''/health returned '' @ showNat status) else None)"

definition managesProject :: "DelightConfig \<Rightarrow> string \<Rightarrow> bool" where
  "managesProject cfg name \<longleftrightarrow> list_ex (\<lambda>p. pc_name p = name) (Projects cfg)"

definition firstEndpointAddress :: "Endpoint list \<Rightarrow> string" where
  "firstEndpointAddress es = (case es of [] \<Rightarrow> [] | e # _ \<Rightarrow> ep_address e)"

definition hasSubject :: "ContractRef list \<Rightarrow> string \<Rightarrow> bool" where
  "hasSubject refs subject \<longleftrightarrow> list_ex (\<lambda>r. cr_subject r = subject) refs"

text \<open>A refusal: the HTTP status, the stable code and the reason.\<close>

type_synonym refusal = "nat \<times> string \<times> errtext"

fun verify_subjects :: "(string \<Rightarrow> SubjectError + bool) \<Rightarrow> ContractRef list \<Rightarrow> refusal option" where
  "verify_subjects exists [] = None"
| "verify_subjects exists (ref # refs) =
     (case exists (cr_subject ref) of
        Inl e \<Rightarrow> Some (503, ''verify_unavailable'',
          Fmt ''could not verify subject %q against the schema registry: %v'' [cr_subject ref])
      | Inr ok \<Rightarrow>
          if \<not> ok then Some (422, ''unknown_subject'',
            Fmt ''subject %q is not registered with the schema registry'' [cr_subject ref])
          else verify_subjects exists refs)"

fun verify_serves :: "(string \<Rightarrow> bool) \<Rightarrow> ContractRef list \<Rightarrow> refusal option" where
  "verify_serves valid [] = None"
| "verify_serves valid (ref # refs) =
     (if \<not> valid (cr_subject ref) then Some (422, ''malformed_serves'',
        Fmt ''serves subject %q is not a well-formed fully-qualified name'' [cr_subject ref])
      else verify_serves valid refs)"

definition verifyContracts ::
  "(string \<Rightarrow> SubjectError + bool) \<Rightarrow> (string \<Rightarrow> bool) \<Rightarrow> ContractDescriptor option \<Rightarrow> refusal option" where
  "verifyContracts exists valid d =
     (if \<not> hasSubject (emits_of d) requiredEmitSubject then
        Some (422, ''missing_required_subject'', Fmt ''descriptor must emit the required subject %q'' [requiredEmitSubject])
      else
        (case verify_subjects exists (emits_of d) of
           Some x \<Rightarrow> Some x
         | None \<Rightarrow>
             (case verify_subjects exists (consumes_of d) of
                Some x \<Rightarrow> Some x
              | None \<Rightarrow> verify_serves valid (serves_of d))))"

section \<open>The handler\<close>

definition emitNotRegistered ::
  "'v regenv \<Rightarrow> string \<Rightarrow> string \<Rightarrow> string \<Rightarrow> errtext \<Rightarrow> 'b regstate \<Rightarrow> 'b regstate" where
  "emitNotRegistered env project endpoint code reason s =
     (case re_publisher env of
        None \<Rightarrow> s
      | Some publish \<Rightarrow>
          let ev = \<lparr>nr_project = project, nr_endpoint = endpoint, nr_code = code, nr_reason = reason,
                    nr_occurred_at = re_now env\<rparr>
          in if publish ev then s\<lparr>rs_events := rs_events s @ [ev]\<rparr> else s)"

definition notRegistered ::
  "'v regenv \<Rightarrow> nat \<Rightarrow> string \<Rightarrow> string \<Rightarrow> string \<Rightarrow> errtext \<Rightarrow> 'b regstate \<Rightarrow> 'b regstate \<times> RegisterResponse reply" where
  "notRegistered env status project endpoint code reason s =
     (emitNotRegistered env project endpoint code reason s, writeError status reason)"

definition new_registration :: "'v regenv \<Rightarrow> RegisterRequest \<Rightarrow> Endpoint \<Rightarrow> Registration" where
  "new_registration env req endpoint =
     \<lparr>rg_project = rr_project req, rg_identity = rr_identity req, rg_contracts = rr_contracts req,
      rg_endpoint = Some endpoint, rg_registered_at = Some (re_now env),
      rg_lease_expires_at = Some (re_now env + DefaultLeaseTTL)\<rparr>"

text \<open>Step 5: record, answer, or report the failure. A nil registry is dereferenced.\<close>

definition record_registration ::
  "('b, 'v) kv \<Rightarrow> 'v regenv \<Rightarrow> RegisterRequest \<Rightarrow> Endpoint \<Rightarrow> 'b regstate \<Rightarrow> 'b regstate \<times> RegisterResponse reply" where
  "record_registration K env req endpoint s =
     (case rs_reg s of
        None \<Rightarrow> (s, aborted)
      | Some b \<Rightarrow>
          (case Upsert K (re_codec env) (new_registration env req endpoint) b of
             (b', holder, Some e) \<Rightarrow>
               if holder \<noteq> [] then
                 notRegistered env 409 (rr_project req) (ep_address endpoint) ''endpoint_held''
                   (Fmt ''endpoint %q is already held by project %q'' [ep_address endpoint, holder]) (s\<lparr>rs_reg := Some b'\<rparr>)
               else (s\<lparr>rs_reg := Some b'\<rparr>, writeError 500 (Msg ''failed to record registration''))
           | (b', holder, None) \<Rightarrow>
               (case re_marshal env \<lparr>rp_identity = rr_identity req, rp_endpoint = endpoint,
                                     rp_lease_ttl_seconds = DefaultLeaseTTL div second_ns\<rparr> of
                  Inl e \<Rightarrow> (s\<lparr>rs_reg := Some b'\<rparr>, writeError 500 (Msg ''failed to encode RegisterResponse''))
                | Inr resp \<Rightarrow> (s\<lparr>rs_reg := Some b'\<rparr>, writeJSON 200 resp))))"

definition handleRegister ::
  "('b, 'v) kv \<Rightarrow> 'v regenv \<Rightarrow> bytes \<Rightarrow> 'b regstate \<Rightarrow> 'b regstate \<times> RegisterResponse reply" where
  "handleRegister K env body s =
     (if re_read_err env then notRegistered env 400 [] [] ''unreadable_body'' (Msg ''could not read request body'') s
      else
        (case re_decode env (take 1048576 body) of
           Inl e \<Rightarrow> notRegistered env 400 [] [] ''malformed_request'' (Fmt ''invalid RegisterRequest: %v'' [e]) s
         | Inr req \<Rightarrow>
        (let project = rr_project req; endpointAddr = firstEndpointAddress (rr_endpoints req)
         in if \<not> managesProject (re_cfg env) project then
              notRegistered env 404 project endpointAddr ''unknown_project'' (Msg ''project not found'') s
            else if identity_project req \<noteq> project then
              notRegistered env 422 project endpointAddr ''inconsistent_identity''
                (Fmt ''internally inconsistent: request.project=%q but identity.project=%q'' [project, identity_project req]) s
            else if endpointAddr = [] then
              notRegistered env 422 project [] ''no_endpoint'' (Msg ''no endpoint with an address was reported'') s
            else
              (case verifyContracts
                  (SubjectExists (re_http env) (NewClient (SchemaRegistryURL (Kafka (System (re_cfg env))))))
                  (re_valid_name env) (rr_contracts req) of
                 Some (status, code, reason) \<Rightarrow> notRegistered env status project endpointAddr code reason s
               | None \<Rightarrow>
                   (case guaranteeHealthCheck (re_http env) (hd (rr_endpoints req)) of
                      Some e \<Rightarrow> notRegistered env 422 project endpointAddr ''unreachable''
                        (Fmt ''endpoint %q did not pass its /health guarantee: %v'' [endpointAddr, e]) s
                    | None \<Rightarrow> record_registration K env req (hd (rr_endpoints req)) s)))))"

section \<open>Facts\<close>

lemma verify_subjects_None:
  "verify_subjects exists refs = None \<longleftrightarrow> (\<forall>r \<in> set refs. exists (cr_subject r) = Inr True)"
  by (induction exists refs rule: verify_subjects.induct) (auto split: sum.splits)

lemma verify_serves_None: "verify_serves valid refs = None \<longleftrightarrow> (\<forall>r \<in> set refs. valid (cr_subject r))"
  by (induction valid refs rule: verify_serves.induct) auto

lemma verifyContracts_None:
  "verifyContracts exists valid d = None \<longleftrightarrow>
     requiredEmitSubject \<in> cr_subject ` set (emits_of d)
     \<and> (\<forall>r \<in> set (emits_of d @ consumes_of d). exists (cr_subject r) = Inr True)
     \<and> (\<forall>r \<in> set (serves_of d). valid (cr_subject r))"
proof -
  have "verifyContracts exists valid d = None \<longleftrightarrow>
      hasSubject (emits_of d) requiredEmitSubject \<and> verify_subjects exists (emits_of d) = None
      \<and> verify_subjects exists (consumes_of d) = None \<and> verify_serves valid (serves_of d) = None"
    by (simp add: verifyContracts_def split: option.split)
  moreover have "hasSubject (emits_of d) requiredEmitSubject \<longleftrightarrow> requiredEmitSubject \<in> cr_subject ` set (emits_of d)"
    by (force simp: hasSubject_def list_ex_iff)
  ultimately show ?thesis by (simp add: verify_subjects_None verify_serves_None ball_Un)
qed

lemma verify_subjects_status: "verify_subjects exists refs = Some (st, c, r) \<Longrightarrow> st \<in> {422, 503}"
  by (induction exists refs rule: verify_subjects.induct) (auto split: sum.splits if_splits)

lemma verify_serves_status: "verify_serves valid refs = Some (st, c, r) \<Longrightarrow> st \<in> {422, 503}"
  by (induction valid refs rule: verify_serves.induct) (auto split: if_splits)

lemma verifyContracts_status: "verifyContracts exists valid d = Some (st, c, r) \<Longrightarrow> st \<in> {422, 503}"
  by (auto simp: verifyContracts_def split: option.splits if_splits dest: verify_subjects_status verify_serves_status)

lemma SubjectExists_True:
  "SubjectExists httpGet (NewClient url) subject = Inr True \<longleftrightarrow>
     trimRightChar (CHR ''/'') url \<noteq> []
     \<and> httpGet (trimRightChar (CHR ''/'') url @ ''/subjects/'' @ pathEscape subject @ ''/versions'') = Inr 200"
  by (auto simp: SubjectExists_def Let_def split: sum.splits if_splits)

text \<open>What a request must satisfy to reach the registry.\<close>

definition admissible :: "'v regenv \<Rightarrow> RegisterRequest \<Rightarrow> bool" where
  "admissible env req \<longleftrightarrow>
     managesProject (re_cfg env) (rr_project req) \<and> identity_project req = rr_project req
     \<and> firstEndpointAddress (rr_endpoints req) \<noteq> []
     \<and> verifyContracts (SubjectExists (re_http env) (NewClient (SchemaRegistryURL (Kafka (System (re_cfg env))))))
         (re_valid_name env) (rr_contracts req) = None
     \<and> guaranteeHealthCheck (re_http env) (hd (rr_endpoints req)) = None"

definition refusing :: "'v regenv \<Rightarrow> 'b regstate \<Rightarrow> 'b regstate \<times> RegisterResponse reply \<Rightarrow> bool" where
  "refusing env s out \<longleftrightarrow>
     (\<exists>status project endpoint code reason. status \<in> {400, 404, 422, 503}
        \<and> out = notRegistered env status project endpoint code reason s)"

lemma refusingI:
  "status \<in> {400, 404, 422, 503} \<Longrightarrow> refusing env s (notRegistered env status project endpoint code reason s)"
  unfolding refusing_def by blast

lemma handleRegister_inadmissible:
  assumes "\<not> re_read_err env" and "re_decode env (take 1048576 body) = Inr req" and "\<not> admissible env req"
  shows "refusing env s (handleRegister K env body s)"
proof (cases "verifyContracts (SubjectExists (re_http env) (NewClient (SchemaRegistryURL (Kafka (System (re_cfg env))))))
         (re_valid_name env) (rr_contracts req)")
  case None
  with assms show ?thesis
    by (cases "guaranteeHealthCheck (re_http env) (hd (rr_endpoints req))")
      (auto simp: handleRegister_def admissible_def Let_def intro: refusingI)
next
  case (Some x)
  obtain st c r where x: "x = (st, c, r)" by (cases x)
  with Some verifyContracts_status have "st \<in> {422, 503}" by blast
  then have "refusing env s (notRegistered env st project endpoint c r s)" for project endpoint
    by (intro refusingI) auto
  with assms(1,2) Some x show ?thesis
    by (simp add: handleRegister_def Let_def refusingI)
qed

lemma handleRegister_cases:
  obtains (refused) "refusing env s (handleRegister K env body s)"
  | (admitted) req where "re_decode env (take 1048576 body) = Inr req" "admissible env req"
      "handleRegister K env body s = record_registration K env req (hd (rr_endpoints req)) s"
proof (cases "re_read_err env \<or> isl (re_decode env (take 1048576 body))")
  case True
  then have "refusing env s (handleRegister K env body s)"
    by (auto simp: handleRegister_def isl_def intro: refusingI)
  then show ?thesis by (rule refused)
next
  case False
  then obtain req where dec: "re_decode env (take 1048576 body) = Inr req" "\<not> re_read_err env"
    by (metis sum.collapse(2))
  show ?thesis
  proof (cases "admissible env req")
    case True
    with dec have "handleRegister K env body s = record_registration K env req (hd (rr_endpoints req)) s"
      by (simp add: handleRegister_def admissible_def)
    with dec True show ?thesis by (intro admitted)
  next
    case False
    with handleRegister_inadmissible dec refused show ?thesis by blast
  qed
qed

lemma admissible_facts:
  assumes "admissible env req"
  shows "rr_project req \<in> pc_name ` set (Projects (re_cfg env))" and "identity_project req = rr_project req"
    and "rr_endpoints req \<noteq> []" and "ep_address (hd (rr_endpoints req)) \<noteq> []"
    and "requiredEmitSubject \<in> cr_subject ` set (emits_of (rr_contracts req))"
    and "\<forall>r \<in> set (emits_of (rr_contracts req) @ consumes_of (rr_contracts req)).
           SubjectExists (re_http env) (NewClient (SchemaRegistryURL (Kafka (System (re_cfg env))))) (cr_subject r) = Inr True"
    and "guaranteeHealthCheck (re_http env) (hd (rr_endpoints req)) = None"
proof -
  show "rr_project req \<in> pc_name ` set (Projects (re_cfg env))"
    using assms by (force simp: admissible_def managesProject_def list_ex_iff)
qed (use assms in \<open>auto simp: admissible_def firstEndpointAddress_def verifyContracts_None split: list.splits\<close>)

lemma reg_address_new: "reg_address (new_registration env req ep) = ep_address ep"
  by (simp add: reg_address_def new_registration_def)

lemma record_registration_cases:
  assumes "registry_store K (re_codec env)" and "rs_reg s = Some b"
    and "record_registration K env req ep s = (s', rep)"
  obtains (held) h where "rs_reg s' = Some b" "rp_status rep = 409" "h \<noteq> rr_project req"
      "s' = emitNotRegistered env (rr_project req) (ep_address ep) ''endpoint_held''
         (Fmt ''endpoint %q is already held by project %q'' [ep_address ep, h]) s"
      "rp_body rep = Inl (Fmt ''endpoint %q is already held by project %q'' [ep_address ep, h])"
  | (failed) "s' = s" "rp_status rep = 500"
  | (recorded) b' where "s' = s\<lparr>rs_reg := Some b'\<rparr>" "rp_status rep \<in> {200, 500}"
      "live K (re_codec env) b' = (live K (re_codec env) b)(rr_project req \<mapsto> new_registration env req ep)"
      "ep_address ep \<noteq> [] \<Longrightarrow> \<forall>k r. k \<noteq> rr_project req \<and> live K (re_codec env) b k = Some r \<longrightarrow> reg_address r \<noteq> ep_address ep"
proof (cases rule: registry_store.Upsert_cases [OF assms(1), of "new_registration env req ep" b, case_names uheld ufailed urecorded])
  case (uheld h r)
  have same: "s\<lparr>rs_reg := Some b\<rparr> = s" using assms(2) by simp
  show ?thesis
  proof (cases "h = []")
    case True
    with uheld(1) assms(2,3) same have "s' = s" "rp_status rep = 500"
      by (auto simp: record_registration_def writeError_def)
    then show ?thesis by (rule failed)
  next
    case False
    with uheld(1,2) assms(2,3) same show ?thesis
      by (intro held [of h]) (auto simp: record_registration_def notRegistered_def writeError_def new_registration_def
          emitNotRegistered_def Let_def split: option.splits)
  qed
next
  case (ufailed e)
  have "s\<lparr>rs_reg := Some b\<rparr> = s" using assms(2) by simp
  with ufailed assms(2,3) have "s' = s" "rp_status rep = 500"
    by (auto simp: record_registration_def writeError_def)
  then show ?thesis by (rule failed)
next
  case (urecorded b')
  have "s' = s\<lparr>rs_reg := Some b'\<rparr>" "rp_status rep \<in> {200, 500}"
    using urecorded(1) assms(2,3)
    by (auto simp: record_registration_def writeError_def writeJSON_def split: sum.splits)
  then show ?thesis
    using urecorded(2,3) by (intro recorded [of b']) (simp_all add: reg_address_new, simp_all add: new_registration_def)
qed

definition demo_cfg :: DelightConfig where
  "demo_cfg = \<lparr>System = \<lparr>MonitorRoot = ''/m'', DaemonRoot = ''/d'', BackupsRoot = ''/b'', ConfigRoot = ''/c'',
      AgentSkills = \<lparr>as_enabled = False, as_expose_via = []\<rparr>, DaemonCfg = \<lparr>ControlPort = 0, PidFile = []\<rparr>,
      LLMProviders = [], Kafka = \<lparr>Brokers = [], SchemaRegistryURL = ''http://sr'', Topic = []\<rparr>\<rparr>,
    Projects = [\<lparr>pc_name = ''obs'', pc_path = ''/m/obs'', pc_essential = True,
      pc_deploy = \<lparr>dp_kind = [], dp_deployment = [], dp_command = []\<rparr>,
      pc_backup = \<lparr>CheckInterval = [], MaxArchives = 3, Exclude = []\<rparr>, pc_kind = []\<rparr>],
    Degraded = False, LoadWarnings = []\<rparr>"

definition demo_req :: RegisterRequest where
  "demo_req = \<lparr>rr_project = ''obs'', rr_identity = Some \<lparr>id_service_name = ''obs'', id_project = ''obs'', id_version = ''1''\<rparr>,
    rr_contracts = Some \<lparr>cd_emits = [\<lparr>cr_subject = requiredEmitSubject, cr_version = ''1''\<rparr>],
      cd_consumes = [], cd_serves = []\<rparr>,
    rr_endpoints = [\<lparr>ep_scheme = [], ep_address = ''h:1''\<rparr>]\<rparr>"

definition demo_env :: "(bytes \<Rightarrow> string + RegisterRequest) \<Rightarrow> Registration regenv" where
  "demo_env dec = \<lparr>re_cfg = demo_cfg, re_read_err = False, re_decode = dec, re_http = (\<lambda>_. Inr 200),
    re_valid_name = (\<lambda>_. True), re_now = 5, re_marshal = Inr, re_codec = id_codec, re_publisher = Some (\<lambda>_. True)\<rparr>"

definition demo_regstate :: "Registration bucket regstate" where
  "demo_regstate = \<lparr>rs_reg = Some bk_empty, rs_events = []\<rparr>"

lemmas demo_defs = demo_env_def demo_regstate_def

lemma demo_cfg_facts: "SchemaRegistryURL (Kafka (System demo_cfg)) = ''http://sr''"
  by (simp add: demo_cfg_def)

lemma demo_req_ok:
  "rr_project demo_req = ''obs'' \<and> identity_project demo_req = ''obs'' \<and> firstEndpointAddress (rr_endpoints demo_req) = ''h:1''"
  "hd (rr_endpoints demo_req) = \<lparr>ep_scheme = [], ep_address = ''h:1''\<rparr>"
  "managesProject demo_cfg ''obs''"
  "verifyContracts (SubjectExists (\<lambda>_. Inr 200) (NewClient ''http://sr'')) (\<lambda>_. True) (rr_contracts demo_req) = None"
  "guaranteeHealthCheck (\<lambda>_. Inr 200) \<lparr>ep_scheme = [], ep_address = ''h:1''\<rparr> = None"
  by code_simp+

section \<open>Properties\<close>

text \<open>
  C11: a frood joins only if it may: whenever a registration request is answered 200 or changes the live registry at
  all, the claimed project is in the roster and is the one its identity reports, it emits the
  heartbeat contract, the schema registry answered 200 for every subject it emits or consumes, its
  reported endpoint passed the health guarantee, no other project holds that address, and the
  one change is the project's own entry, leased for the default time from now.
\<close>

theorem registration_admits_only_checked_froods:
  assumes "registry_store K (re_codec env)" and "rs_reg s = Some b"
    and "handleRegister K env body s = (s', rep)" and "rs_reg s' = Some b'"
    and "rp_status rep = 200 \<or> live K (re_codec env) b' \<noteq> live K (re_codec env) b"
  shows "\<exists>req ep. re_decode env (take 1048576 body) = Inr req
    \<and> rr_project req \<in> pc_name ` set (Projects (re_cfg env)) \<and> identity_project req = rr_project req
    \<and> requiredEmitSubject \<in> cr_subject ` set (emits_of (rr_contracts req))
    \<and> (\<forall>r \<in> set (emits_of (rr_contracts req) @ consumes_of (rr_contracts req)).
         SubjectExists (re_http env) (NewClient (SchemaRegistryURL (Kafka (System (re_cfg env))))) (cr_subject r) = Inr True)
    \<and> guaranteeHealthCheck (re_http env) ep = None \<and> ep = hd (rr_endpoints req) \<and> ep_address ep \<noteq> []
    \<and> (\<forall>k r. k \<noteq> rr_project req \<and> live K (re_codec env) b k = Some r \<longrightarrow> reg_address r \<noteq> ep_address ep)
    \<and> live K (re_codec env) b' = (live K (re_codec env) b)(rr_project req \<mapsto> new_registration env req ep)"
proof (cases rule: handleRegister_cases [of env s K body])
  case refused
  then have "rs_reg s' = rs_reg s" "rp_status rep \<in> {400, 404, 422, 503}"
    using assms(3)
    by (auto simp: refusing_def notRegistered_def writeError_def emitNotRegistered_def Let_def split: option.splits)
  with assms show ?thesis by auto
next
  case (admitted req)
  note facts = admissible_facts [OF admitted(2)]
  from assms(3) admitted(3) have rec: "record_registration K env req (hd (rr_endpoints req)) s = (s', rep)" by simp
  show ?thesis
  proof (cases rule: record_registration_cases [OF assms(1,2) rec, case_names held failed recorded])
    case (recorded b1)
    then have "b1 = b'" using assms(4) by simp
    with recorded facts admitted(1) show ?thesis
      by (intro exI [of _ req] exI [of _ "hd (rr_endpoints req)"]) auto
  qed (use assms in auto)
qed

theorem registration_admits_only_checked_froods_witness:
  "\<exists>b'. rs_reg (fst (handleRegister demo_kv (demo_env (\<lambda>_. Inr demo_req)) [] demo_regstate)) = Some b'
     \<and> live demo_kv id_codec b' ''obs'' \<noteq> None"
proof -
  let ?out = "handleRegister demo_kv (demo_env (\<lambda>_. Inr demo_req)) [] demo_regstate"
  have ok: "rp_status (snd ?out) = 200 \<and> rs_reg (fst ?out) \<noteq> None"
    by (simp add: demo_defs demo_cfg_facts demo_req_ok handleRegister_def record_registration_def Upsert_def id_codec_def ref_kv_def
        db_update_def reg_address_def writeJSON_def new_registration_def Let_def)
  then obtain b' where b': "rs_reg (fst ?out) = Some b'" by blast
  have env: "re_codec (demo_env (\<lambda>_. Inr demo_req)) = id_codec" "re_decode (demo_env (\<lambda>_. Inr demo_req)) = (\<lambda>_. Inr demo_req)"
    by (simp_all add: demo_env_def)
  have st: "rs_reg demo_regstate = Some bk_empty" by (simp add: demo_regstate_def)
  have store: "registry_store demo_kv (re_codec (demo_env (\<lambda>_. Inr demo_req)))" unfolding env by (rule demo_store)
  from registration_admits_only_checked_froods [OF store st surjective_pairing b'] ok
  show ?thesis unfolding env using b' by (auto simp: demo_req_def)
qed

text \<open>
  C38: no refusal is silent: with a publisher that delivers, every reply other than 200 and 500 puts exactly one
  \<^verbatim>\<open>NotRegistered\<close> event on the bus, with the very reason the caller was given. The two failures
  answered 500 put none there, and where the registry could not be opened an admissible
  request is not answered at all: the handler dereferences nil.
\<close>

theorem refusals_are_never_silent:
  assumes "registry_store K (re_codec env)" and "re_publisher env = Some (\<lambda>_. True)"
    and "handleRegister K env body s = (s', rep)"
  shows "if rp_status rep \<in> {0, 200, 500} then rs_events s' = rs_events s
    else \<exists>ev. rs_events s' = rs_events s @ [ev] \<and> rp_body rep = Inl (nr_reason ev)"
proof (cases rule: handleRegister_cases [of env s K body])
  case refused
  then show ?thesis using assms(2,3)
    by (auto simp: refusing_def notRegistered_def writeError_def emitNotRegistered_def Let_def)
next
  case (admitted req)
  from assms(3) admitted(3) have rec: "record_registration K env req (hd (rr_endpoints req)) s = (s', rep)" by simp
  show ?thesis
  proof (cases "rs_reg s")
    case None
    with rec show ?thesis by (auto simp: record_registration_def aborted_def)
  next
    case (Some b)
    show ?thesis
    proof (cases rule: record_registration_cases [OF assms(1) Some rec, case_names held failed recorded])
      case (held h)
      with assms(2) show ?thesis by (simp add: emitNotRegistered_def Let_def)
    qed auto
  qed
qed

theorem refusals_are_never_silent_witness:
  "\<exists>ev. rs_events (fst (handleRegister demo_kv (demo_env (\<lambda>_. Inl ''eof'')) [] demo_regstate)) = [ev]"
proof -
  let ?env = "demo_env (\<lambda>_. Inl ''eof'')"
  have store: "registry_store demo_kv (re_codec ?env)" and pub: "re_publisher ?env = Some (\<lambda>_. True)"
    by (simp_all add: demo_env_def demo_store)
  have "rp_status (snd (handleRegister demo_kv ?env [] demo_regstate)) = 400"
    by (simp add: demo_defs handleRegister_def notRegistered_def writeError_def)
  with refusals_are_never_silent [OF store pub surjective_pairing, of "[]" demo_regstate]
  show ?thesis by (auto simp: demo_regstate_def)
qed

end
