(* ===== verification/HttpApi.thy ===== *)
theory HttpApi
  imports StateMachine Registry Enablement Gitstate Auth Register
begin

text \<open>
  The handlers of the control port that answer from the daemon's own state: \<^verbatim>\<open>pkg/httpapi/httpapi.go\<close>,
  \<^verbatim>\<open>pkg/httpapi/enablement.go\<close> and \<^verbatim>\<open>pkg/introspect/introspect.go\<close>. Each handler takes what
  its \<^verbatim>\<open>Server\<close> field holds as an argument and returns its reply, with the state it may
  change before it. \<open>marshal\<close> is \<^verbatim>\<open>protojson\<close>: it fails or yields the JSON value, of any type.
\<close>

section \<open>Liveness and readiness\<close>

record healthResponse =
  hl_status :: string
  hl_active_projects :: nat
  hl_dry_run :: bool
  hl_degraded :: bool
  hl_warnings :: "LoadWarning list"

definition handleHealth :: "DelightConfig \<Rightarrow> bool \<Rightarrow> healthResponse reply" where
  "handleHealth cfg dryRun =
     writeJSON 200
       \<lparr>hl_status = (if Degraded cfg then ''degraded'' else ''ok''), hl_active_projects = length (Projects cfg),
        hl_dry_run = dryRun, hl_degraded = Degraded cfg, hl_warnings = LoadWarnings cfg\<rparr>"

record readinessCheck =
  rc_name :: string
  rc_ok :: bool
  rc_error :: string

record readinessResponse =
  rd_ready :: bool
  rd_checks :: "readinessCheck list"

text \<open>The loop over the named roots; \<open>readDir\<close> answers with the error of \<^verbatim>\<open>os.ReadDir\<close>, if any.\<close>

fun check_roots :: "(string \<Rightarrow> string option) \<Rightarrow> (string \<times> string) list \<Rightarrow> readinessCheck" where
  "check_roots readDir [] = \<lparr>rc_name = ''roots_readable'', rc_ok = True, rc_error = []\<rparr>"
| "check_roots readDir ((name, path) # roots) =
     (if path = [] then \<lparr>rc_name = ''roots_readable'', rc_ok = False, rc_error = name @ '' is unset''\<rparr>
      else
        (case readDir path of
           Some err \<Rightarrow> \<lparr>rc_name = ''roots_readable'', rc_ok = False, rc_error = name @ '' ('' @ path @ ''): '' @ err\<rparr>
         | None \<Rightarrow> check_roots readDir roots))"

definition checkRootsReadable :: "(string \<Rightarrow> string option) \<Rightarrow> SystemConfig \<Rightarrow> readinessCheck" where
  "checkRootsReadable readDir sys =
     check_roots readDir
       [(''monitor_root'', MonitorRoot sys), (''daemon_root'', DaemonRoot sys), (''config_root'', ConfigRoot sys)]"

definition checkClusterReady :: "string option \<Rightarrow> readinessCheck" where
  "checkClusterReady clusterReady =
     (case clusterReady of
        Some err \<Rightarrow> \<lparr>rc_name = ''apiserver_reachable'', rc_ok = False, rc_error = err\<rparr>
      | None \<Rightarrow> \<lparr>rc_name = ''apiserver_reachable'', rc_ok = True, rc_error = []\<rparr>)"

definition handleReadyz :: "(string \<Rightarrow> string option) \<Rightarrow> DelightConfig \<Rightarrow> string option \<Rightarrow> readinessResponse reply" where
  "handleReadyz readDir cfg clusterReady =
     (let checks = [checkRootsReadable readDir (System cfg), checkClusterReady clusterReady];
          ready = fold (\<lambda>c ready. if \<not> rc_ok c then False else ready) checks True;
          code = (if \<not> ready then 503 else 200)
      in writeJSON code \<lparr>rd_ready = ready, rd_checks = checks\<rparr>)"

section \<open>The roster\<close>

datatype Kind = KIND_WATCHER | KIND_LISTENER

definition projectKind :: "string \<Rightarrow> Kind" where
  "projectKind s = (if toLower (trimSpace s) = ''listener'' then KIND_LISTENER else KIND_WATCHER)"

record ProjectMsg =
  pm_name :: string
  pm_path :: string
  pm_essential :: "bool option"
  pm_deploy :: DeployConfig
  pm_remote_url :: "string option"
  pm_kind :: Kind

definition projectToProto :: "ProjectConfig \<Rightarrow> string \<Rightarrow> ProjectMsg" where
  "projectToProto p remoteURL =
     \<lparr>pm_name = pc_name p, pm_path = pc_path p, pm_essential = Some (pc_essential p), pm_deploy = pc_deploy p,
      pm_remote_url = (if remoteURL \<noteq> [] then Some remoteURL else None), pm_kind = projectKind (pc_kind p)\<rparr>"

text \<open>The marshalling loops: the first message that does not encode fails the whole list.\<close>

fun marshal_all :: "('m \<Rightarrow> string + 'j) \<Rightarrow> 'm list \<Rightarrow> string + 'j list" where
  "marshal_all marshal [] = Inr []"
| "marshal_all marshal (m # ms) =
     (case marshal m of
        Inl e \<Rightarrow> Inl e
      | Inr raw \<Rightarrow> (case marshal_all marshal ms of Inl e \<Rightarrow> Inl e | Inr raws \<Rightarrow> Inr (raw # raws)))"

definition handleProjectsAll :: "(ProjectMsg \<Rightarrow> string + 'j) \<Rightarrow> gitos \<Rightarrow> DelightConfig \<Rightarrow> 'j list reply" where
  "handleProjectsAll marshal os cfg =
     (case marshal_all marshal (map (\<lambda>p. projectToProto p (RemoteURL os (pc_path p))) (Projects cfg)) of
        Inl e \<Rightarrow> writeError 500 (Msg ''failed to encode roster'')
      | Inr projects \<Rightarrow> writeJSON 200 projects)"

definition handleRegistrations ::
  "('b, 'v) kv \<Rightarrow> (Registration, 'v) codec \<Rightarrow> (Registration \<Rightarrow> string + 'j) \<Rightarrow> 'b option \<Rightarrow> 'j list reply" where
  "handleRegistrations K C marshal reg =
     (let regs = (case reg of None \<Rightarrow> [] | Some b \<Rightarrow> rs_registrations (SetAll K C b))
      in case marshal_all marshal regs of
           Inl e \<Rightarrow> writeError 500 (Msg ''failed to encode registrations'')
         | Inr raws \<Rightarrow> writeJSON 200 raws)"

section \<open>Git state\<close>

text \<open>The warnings \<open>logGitErrors\<close> writes: project and error.\<close>

definition logGitErrors :: "ProjectGit list \<Rightarrow> (string \<times> string) list" where
  "logGitErrors projects =
     map (\<lambda>p. (pg_name p, gs_error (pg_git p))) (filter (\<lambda>p. gs_error (pg_git p) \<noteq> []) projects)"

definition handleGitAll :: "gitos \<Rightarrow> (nat \<Rightarrow> bool) \<Rightarrow> nat list \<Rightarrow> DelightConfig \<Rightarrow> ProjectGit list reply" where
  "handleGitAll os late order cfg = writeJSON 200 (CollectAll os late order (Projects cfg))"

definition handleProjectGit :: "gitos \<Rightarrow> DelightConfig \<Rightarrow> string \<Rightarrow> ProjectGit reply" where
  "handleProjectGit os cfg name =
     (case find (\<lambda>p. pc_name p = name) (Projects cfg) of
        None \<Rightarrow> writeError 404 (Msg ''project not found'')
      | Some p \<Rightarrow> writeJSON 200 \<lparr>pg_name = pc_name p, pg_git = Collect os (pc_path p)\<rparr>)"

section \<open>Composed services\<close>

datatype ServiceType = SERVICE_TYPE_UNSPECIFIED | SERVICE_TYPE_SERVICE | SERVICE_TYPE_MODEL

record GitFacet =
  gf_clean :: "bool option"
  gf_branch :: string
  gf_unpushed :: int
  gf_error :: string

record Service =
  sv_name :: string
  sv_type :: ServiceType
  sv_git :: GitFacet
  sv_reachable :: "bool option"
  sv_backup :: "string option"
  sv_endpoint :: "Endpoint option"

text \<open>\<^verbatim>\<open>int32(n)\<close> keeps the low 32 bits.\<close>

definition int32 :: "int \<Rightarrow> int" where
  "int32 n = sint (word_of_int n :: 32 word)"

definition composeGitFacet :: "GitState \<Rightarrow> GitFacet" where
  "composeGitFacet gs =
     \<lparr>gf_clean = (if gs_error gs = [] then Some (\<not> gs_dirty gs) else None), gf_branch = gs_branch gs,
      gf_unpushed = int32 (gs_unpushed gs), gf_error = gs_error gs\<rparr>"

definition composeService ::
  "('b, 'v) kv \<Rightarrow> (Registration, 'v) codec \<Rightarrow> (string \<Rightarrow> Machine option) \<Rightarrow> 'b option \<Rightarrow> ProjectConfig \<Rightarrow> GitState \<Rightarrow> Service" where
  "composeService K C machines reg p gs =
     (let svc = \<lparr>sv_name = pc_name p, sv_type = SERVICE_TYPE_SERVICE, sv_git = composeGitFacet gs,
                 sv_reachable = None, sv_backup = None, sv_endpoint = None\<rparr>;
          svc = (case machines (pc_name p) of
                   Some m \<Rightarrow> svc\<lparr>sv_backup := Some (state_string (GetState m))\<rparr>
                 | None \<Rightarrow> svc)
      in case reg of
           None \<Rightarrow> svc
         | Some b \<Rightarrow>
             (case Get K C (pc_name p) b of
                None \<Rightarrow> svc
              | Some r \<Rightarrow> svc\<lparr>sv_endpoint := rg_endpoint r, sv_reachable := Some True\<rparr>))"

definition parseServiceType :: "string \<Rightarrow> ServiceType \<times> bool" where
  "parseServiceType s =
     (let t = toLower (trimSpace s)
      in if t = ''service'' then (SERVICE_TYPE_SERVICE, True)
         else if t = ''model'' then (SERVICE_TYPE_MODEL, True)
         else (SERVICE_TYPE_UNSPECIFIED, False))"

text \<open>The loop over the roster: filter, marshal, append; a failed encoding fails the request.\<close>

fun services_loop ::
  "(ProjectConfig \<Rightarrow> Service) \<Rightarrow> (Service \<Rightarrow> string + 'j) \<Rightarrow> ServiceType \<Rightarrow> ProjectConfig list \<Rightarrow> 'j list \<Rightarrow> string + 'j list" where
  "services_loop compose marshal want [] services = Inr services"
| "services_loop compose marshal want (p # ps) services =
     (let svc = compose p
      in if want \<noteq> SERVICE_TYPE_UNSPECIFIED \<and> sv_type svc \<noteq> want then services_loop compose marshal want ps services
         else
           (case marshal svc of
              Inl e \<Rightarrow> Inl e
            | Inr raw \<Rightarrow> services_loop compose marshal want ps (services @ [raw])))"

text \<open>\<open>gitByName\<close> as Go builds it: a later entry overwrites an earlier one, a missing name reads the zero state.\<close>

definition gitByName :: "ProjectGit list \<Rightarrow> string \<Rightarrow> GitState" where
  "gitByName gits name =
     (case map_of (rev (map (\<lambda>pg. (pg_name pg, pg_git pg)) gits)) name of Some g \<Rightarrow> g | None \<Rightarrow> zero_git)"

definition handleServicesAll ::
  "('b, 'v) kv \<Rightarrow> (Registration, 'v) codec \<Rightarrow> (Service \<Rightarrow> string + 'j) \<Rightarrow> (string \<Rightarrow> Machine option) \<Rightarrow> 'b option
   \<Rightarrow> gitos \<Rightarrow> (nat \<Rightarrow> bool) \<Rightarrow> nat list \<Rightarrow> DelightConfig \<Rightarrow> string \<Rightarrow> 'j list reply" where
  "handleServicesAll K C marshal machines reg os late order cfg queryType =
     (let raw = trimSpace queryType;
          serve = (\<lambda>want.
            let gits = CollectAll os late order (Projects cfg)
            in case services_loop (\<lambda>p. composeService K C machines reg p (gitByName gits (pc_name p))) marshal want
                      (Projects cfg) [] of
                 Inl e \<Rightarrow> writeError 500 (Msg ''failed to encode services'')
               | Inr services \<Rightarrow> writeJSON 200 services)
      in if raw \<noteq> [] then
           (case parseServiceType raw of
              (t, ok) \<Rightarrow> if \<not> ok then writeError 400 (Msg (''unknown service type: '' @ raw)) else serve t)
         else serve SERVICE_TYPE_UNSPECIFIED)"

definition handleServiceByName ::
  "('b, 'v) kv \<Rightarrow> (Registration, 'v) codec \<Rightarrow> (Service \<Rightarrow> string + 'j) \<Rightarrow> (string \<Rightarrow> Machine option) \<Rightarrow> 'b option
   \<Rightarrow> gitos \<Rightarrow> DelightConfig \<Rightarrow> string \<Rightarrow> 'j reply" where
  "handleServiceByName K C marshal machines reg os cfg name =
     (case find (\<lambda>p. pc_name p = name) (Projects cfg) of
        None \<Rightarrow> writeError 404 (Msg ''service not found'')
      | Some p \<Rightarrow>
          (case marshal (composeService K C machines reg p (Collect os (pc_path p))) of
             Inl e \<Rightarrow> writeError 500 (Msg ''failed to encode service'')
           | Inr raw \<Rightarrow> writeJSON 200 raw))"

record ResolvedService =
  rv_name :: string
  rv_scheme :: string
  rv_address :: string

definition handleResolve ::
  "('b, 'v) kv \<Rightarrow> (Registration, 'v) codec \<Rightarrow> (ResolvedService \<Rightarrow> string + 'j) \<Rightarrow> 'b option \<Rightarrow> string \<Rightarrow> 'j reply" where
  "handleResolve K C marshal reg name =
     (case reg of
        None \<Rightarrow> writeError 404 (Msg ''service not resolvable'')
      | Some b \<Rightarrow>
          (case Get K C name b of
             None \<Rightarrow> writeError 404 (Msg ''service not resolvable'')
           | Some r \<Rightarrow>
               (case marshal \<lparr>rv_name = name,
                              rv_scheme = (case rg_endpoint r of None \<Rightarrow> [] | Some ep \<Rightarrow> ep_scheme ep),
                              rv_address = (case rg_endpoint r of None \<Rightarrow> [] | Some ep \<Rightarrow> ep_address ep)\<rparr> of
                  Inl e \<Rightarrow> writeError 500 (Msg ''failed to encode resolution'')
                | Inr raw \<Rightarrow> writeJSON 200 raw)))"

section \<open>Machine control\<close>

definition handleProjectState :: "(string \<Rightarrow> Machine option) \<Rightarrow> string \<Rightarrow> Diagnostics reply" where
  "handleProjectState machines name =
     (case machines name of
        None \<Rightarrow> writeError 404 (Msg ''project not found'')
      | Some m \<Rightarrow> writeJSON 200 (GetDiagnostics m))"

definition transition_text :: "TransitionError \<Rightarrow> errtext" where
  "transition_text e = (case e of InBackoff t \<Rightarrow> Fmt ''in backoff period until %v'' [showInt t] | UnknownEvent s \<Rightarrow> Fmt ''unknown event: %s'' [s])"

record projectActionResponse =
  pa_status :: string
  pa_project :: string

definition handleBackup ::
  "(int \<Rightarrow> duration) \<Rightarrow> reading \<Rightarrow> string \<Rightarrow> (string \<Rightarrow> Machine option)
   \<Rightarrow> (string \<Rightarrow> Machine option) \<times> projectActionResponse reply" where
  "handleBackup f2i rd name machines =
     (case machines name of
        None \<Rightarrow> (machines, writeError 404 (Msg ''project not found''))
      | Some m \<Rightarrow>
          (case Transition f2i rd EventTriggerBackup m of
             (m', Some err) \<Rightarrow> (machines(name \<mapsto> m'), writeError 409 (transition_text err))
           | (m', None) \<Rightarrow>
               (machines(name \<mapsto> m'), writeJSON 200 \<lparr>pa_status = ''backup_triggered'', pa_project = name\<rparr>)))"

definition handleReset ::
  "(int \<Rightarrow> duration) \<Rightarrow> reading \<Rightarrow> string \<Rightarrow> (string \<Rightarrow> Machine option)
   \<Rightarrow> (string \<Rightarrow> Machine option) \<times> projectActionResponse reply" where
  "handleReset f2i rd name machines =
     (case machines name of
        None \<Rightarrow> (machines, writeError 404 (Msg ''project not found''))
      | Some m \<Rightarrow>
          (case Transition f2i rd EventClearError m of
             (m', Some err) \<Rightarrow> (machines(name \<mapsto> m'), writeError 409 (transition_text err))
           | (m', None) \<Rightarrow>
               (machines(name \<mapsto> m'), writeJSON 200 \<lparr>pa_status = ''error_cleared'', pa_project = name\<rparr>)))"

definition mcpEnabled :: "DelightConfig \<Rightarrow> bool" where
  "mcpEnabled cfg \<longleftrightarrow>
     as_enabled (AgentSkills (System cfg)) \<and> ''mcp'' \<in> set (as_expose_via (AgentSkills (System cfg)))"

section \<open>Introspection\<close>

record ServiceBackupStatus =
  ServiceName :: string
  IsKnownToDaemon :: bool
  IsActivelyBackingUp :: bool
  HasBashFragment :: bool

definition ServiceStatus :: "(string \<Rightarrow> bool) \<Rightarrow> (string \<Rightarrow> Machine option) \<Rightarrow> string \<Rightarrow> ServiceBackupStatus" where
  "ServiceStatus hasFragment machines name =
     (let status = \<lparr>ServiceName = name, IsKnownToDaemon = False, IsActivelyBackingUp = False,
                    HasBashFragment = hasFragment name\<rparr>
      in case machines name of
           None \<Rightarrow> status
         | Some m \<Rightarrow> status\<lparr>IsKnownToDaemon := True, IsActivelyBackingUp := GetState m = StateBackingUp\<rparr>)"

definition introspect_Handler :: "(string \<Rightarrow> bool) \<Rightarrow> (string \<Rightarrow> Machine option) \<Rightarrow> string \<Rightarrow> ServiceBackupStatus reply" where
  "introspect_Handler hasFragment machines name = writeJSON 200 (ServiceStatus hasFragment machines name)"

section \<open>The enablement surface\<close>

text \<open>
  \<^verbatim>\<open>Format("2006-01-02T15:04:05Z07:00")\<close> of an instant in UTC: the civil date by eras of 400 years counted from
  March 1 of the year 0, which is 306 days before the zero instant.
\<close>

definition pad :: "nat \<Rightarrow> int \<Rightarrow> string" where
  "pad w n = (let s = showInt n in replicate (w - length s) (CHR ''0'') @ s)"

definition civil :: "int \<Rightarrow> int \<times> int \<times> int" where
  "civil days =
     (let z = days + 306; era = z div 146097; doe = z - era * 146097;
          yoe = (doe - doe div 1460 + doe div 36524 - doe div 146096) div 365;
          doy = doe - (365 * yoe + yoe div 4 - yoe div 100); mp = (5 * doy + 2) div 153;
          month = (if mp < 10 then mp + 3 else mp - 9)
      in (yoe + era * 400 + (if month \<le> 2 then 1 else 0), month, doy - (153 * mp + 2) div 5 + 1))"

definition formatUTC :: "time \<Rightarrow> string" where
  "formatUTC t =
     (let secs = t div second_ns; s = secs mod 86400
      in case civil (secs div 86400) of (y, m, d) \<Rightarrow>
           pad 4 y @ ''-'' @ pad 2 m @ ''-'' @ pad 2 d @ ''T'' @ pad 2 (s div 3600) @ '':'' @ pad 2 (s mod 3600 div 60)
           @ '':'' @ pad 2 (s mod 60) @ ''Z'')"

record stateResponse =
  sr_project :: string
  sr_state :: string
  sr_recorded :: bool
  sr_reason :: string
  sr_actor :: string
  sr_changed_at :: string

definition renderState :: "string \<Rightarrow> EnRecord \<Rightarrow> bool \<Rightarrow> stateResponse" where
  "renderState project rec found =
     (if \<not> found then
        \<lparr>sr_project = project, sr_state = StateDisabled, sr_recorded = False, sr_reason = [], sr_actor = [],
         sr_changed_at = []\<rparr>
      else
        \<lparr>sr_project = project, sr_state = en_state rec, sr_recorded = True, sr_reason = en_reason rec,
         sr_actor = en_actor rec, sr_changed_at = formatUTC (en_changed_at rec)\<rparr>)"

definition knownProject :: "DelightConfig \<Rightarrow> string \<Rightarrow> bool" where
  "knownProject cfg name \<longleftrightarrow> list_ex (\<lambda>p. pc_name p = name) (Projects cfg)"

text \<open>The bodies of this surface: the fixed degraded body, one project, or the whole roster.\<close>

datatype stateBody = DegradedBody | OneState stateResponse | AllStates "stateResponse list"

definition en_error_text :: "EnError \<Rightarrow> errtext" where
  "en_error_text e = (case e of
      ReasonRequired \<Rightarrow> Msg ''disable requires a reason''
    | UnknownState st \<Rightarrow> Fmt ''unknown state %q (want %q or %q)'' [st, StateEnabled, StateDisabled]
    | NoProject \<Rightarrow> Msg ''record has no project''
    | NoActor \<Rightarrow> Msg ''record has no actor''
    | EnStore s \<Rightarrow> Msg s)"

text \<open>An enablement store is what its two methods do to a state: \<open>Get\<close> and \<open>Put\<close>.\<close>

record 'e enstore =
  es_get :: "string \<Rightarrow> 'e \<Rightarrow> EnRecord \<times> bool \<times> string option"
  es_put :: "EnRecord \<Rightarrow> 'e \<Rightarrow> 'e \<times> EnError option"

fun state_loop :: "'e enstore \<Rightarrow> 'e \<Rightarrow> ProjectConfig list \<Rightarrow> string + stateResponse list" where
  "state_loop E b [] = Inr []"
| "state_loop E b (p # ps) =
     (case es_get E (pc_name p) b of
        (rec, found, Some err) \<Rightarrow> Inl err
      | (rec, found, None) \<Rightarrow>
          (case state_loop E b ps of Inl e \<Rightarrow> Inl e | Inr out \<Rightarrow> Inr (renderState (pc_name p) rec found # out)))"

definition handleStateAll :: "'e enstore \<Rightarrow> DelightConfig \<Rightarrow> 'e option \<Rightarrow> stateBody reply" where
  "handleStateAll E cfg st =
     (case st of
        None \<Rightarrow> writeJSON 503 DegradedBody
      | Some b \<Rightarrow>
          (case state_loop E b (Projects cfg) of
             Inl err \<Rightarrow> writeError 500 (Msg err)
           | Inr out \<Rightarrow> writeJSON 200 (AllStates out)))"

definition handleStateGet :: "'e enstore \<Rightarrow> DelightConfig \<Rightarrow> string \<Rightarrow> 'e option \<Rightarrow> stateBody reply" where
  "handleStateGet E cfg name st =
     (case st of
        None \<Rightarrow> writeJSON 503 DegradedBody
      | Some b \<Rightarrow>
          if \<not> knownProject cfg name then writeError 404 (Msg ''project not found'')
          else
            (case es_get E name b of
               (rec, found, Some err) \<Rightarrow> writeError 500 (Msg err)
             | (rec, found, None) \<Rightarrow> writeJSON 200 (OneState (renderState name rec found))))"

text \<open>\<open>decodeBody\<close> is \<^verbatim>\<open>json.Decoder\<close> into the struct of state, reason and actor.\<close>

definition handleStatePut ::
  "'e enstore \<Rightarrow> (bytes \<Rightarrow> string + string \<times> string \<times> string) \<Rightarrow> DelightConfig \<Rightarrow> string \<Rightarrow> bytes \<Rightarrow> 'e option
   \<Rightarrow> 'e option \<times> stateBody reply" where
  "handleStatePut E decodeBody cfg name body st =
     (case st of
        None \<Rightarrow> (None, writeJSON 503 DegradedBody)
      | Some b \<Rightarrow>
          if \<not> knownProject cfg name then (Some b, writeError 404 (Msg ''project not found''))
          else
            (case decodeBody body of
               Inl err \<Rightarrow> (Some b, writeError 400 (Msg (''body does not parse: '' @ err)))
             | Inr (state, reason, actor) \<Rightarrow>
                 (case es_put E \<lparr>en_project = name, en_state = state, en_reason = reason, en_actor = actor,
                                 en_changed_at = zero_time\<rparr> b of
                    (b', Some err) \<Rightarrow> (Some b', writeError 400 (en_error_text err))
                  | (b', None) \<Rightarrow>
                      (case es_get E name b' of
                         (rec, found, Some err) \<Rightarrow> (Some b', writeError 500 (Msg err))
                       | (rec, found, None) \<Rightarrow> (Some b', writeJSON 200 (OneState (renderState name rec found)))))))"

text \<open>The bbolt store behind that interface.\<close>

definition bolt_enstore ::
  "('b, 'v) kv \<Rightarrow> (EnRecord, 'v) codec \<Rightarrow> ('v \<Rightarrow> EnRecord) \<Rightarrow> time \<Rightarrow> 'b enstore" where
  "bolt_enstore K C partial now = \<lparr>es_get = en_get K C partial, es_put = en_put K C now\<rparr>"

section \<open>Facts\<close>

lemma check_roots_ok:
  "rc_ok (check_roots readDir roots) \<longleftrightarrow> (\<forall>(n, p) \<in> set roots. p \<noteq> [] \<and> readDir p = None)"
  by (induction readDir roots rule: check_roots.induct) (auto split: option.split)

lemma marshal_all_Inr:
  "marshal_all marshal ms = Inr raws \<longleftrightarrow> list_all2 (\<lambda>m raw. marshal m = Inr raw) ms raws"
proof (induction ms arbitrary: raws)
  case Nil
  show ?case by (cases raws) auto
next
  case (Cons m ms)
  show ?case
    by (cases raws; cases "marshal m"; cases "marshal_all marshal ms") (auto simp flip: Cons.IH)
qed

lemma composeService_simps:
  "sv_name (composeService K C machines reg p gs) = pc_name p"
  "sv_type (composeService K C machines reg p gs) = SERVICE_TYPE_SERVICE"
  "sv_git (composeService K C machines reg p gs) = composeGitFacet gs"
  "sv_backup (composeService K C machines reg p gs) = map_option (\<lambda>m. state_string (GetState m)) (machines (pc_name p))"
  by (simp_all add: composeService_def Let_def split: option.splits)

lemma services_loop_eq:
  assumes "\<forall>p. sv_type (compose p) = SERVICE_TYPE_SERVICE"
  shows "services_loop compose marshal want ps acc =
    (if want = SERVICE_TYPE_MODEL then Inr acc
     else case marshal_all marshal (map compose ps) of Inl e \<Rightarrow> Inl e | Inr raws \<Rightarrow> Inr (acc @ raws))"
proof (induction ps arbitrary: acc)
  case (Cons p ps)
  with assms show ?case by (cases want) (simp_all add: Let_def split: sum.split)
qed simp

lemma state_loop_Inr:
  "state_loop E b ps = Inr out \<Longrightarrow>
     list_all2 (\<lambda>p r. \<exists>rec found. es_get E (pc_name p) b = (rec, found, None) \<and> r = renderState (pc_name p) rec found) ps out"
proof (induction ps arbitrary: out)
  case (Cons p ps)
  then show ?case
    by (cases "es_get E (pc_name p) b"; cases "snd (snd (es_get E (pc_name p) b))"; cases "state_loop E b ps") auto
qed simp

lemma formatUTC_epoch:
  "formatUTC (719162 * 86400 * second_ns) = ''1970-01-01T00:00:00Z''"
  "formatUTC ((719162 * 86400 + 1709210096) * second_ns + 5) = ''2024-02-29T12:34:56Z''"
  "formatUTC zero_time = ''0001-01-01T00:00:00Z''"
  by code_simp+

lemma Get_live: "kv_begin K b = None \<Longrightarrow> Get K C k b = live K C b k"
  by (auto simp: Get_def db_view_def live_def decode_def split: option.split sum.split)

lemma gitByName_slot:
  assumes "distinct (map pc_name ps)" and "set order = {..<length ps}" and "i < length ps"
  shows "gitByName (CollectAll os late order ps) (pc_name (ps ! i)) = collectWithTimeout os (late i) (pc_path (ps ! i))"
proof -
  let ?pair = "\<lambda>pg. (pg_name pg, pg_git pg)"
  let ?gits = "CollectAll os late order ps"
  have C: "?gits = sort_key pg_name (map (slot os late ps) [0..<length ps])"
    unfolding CollectAll_def fold_slots_all [OF assms(2)] ..
  have names: "map pg_name (map (slot os late ps) [0..<length ps]) = map pc_name ps"
    by (rule nth_equalityI) (simp_all add: slot_def)
  have "mset (map pg_name ?gits) = mset (map pc_name ps)"
    unfolding names [symmetric] by (simp add: C multiset.map_comp)
  then have "distinct (map pg_name ?gits)"
    using assms(1) by (metis distinct_count_atmost_1 mset_eq_imp_distinct_iff)
  then have "distinct (map fst (rev (map ?pair ?gits)))"
    by (simp add: rev_map [symmetric] comp_def)
  moreover have "?pair (slot os late ps i) \<in> set (rev (map ?pair ?gits))"
    using assms(3) by (auto simp: C)
  ultimately have "map_of (rev (map ?pair ?gits)) (pc_name (ps ! i)) = Some (collectWithTimeout os (late i) (pc_path (ps ! i)))"
    by (intro map_of_is_SomeI) (simp_all add: slot_def)
  then show ?thesis by (simp add: gitByName_def)
qed

section \<open>The contract of the enablement home\<close>

text \<open>
  What the handlers rely on: a put that succeeded validated its record, the next read that succeeds returns it with
  its time stamped and every other project as it was, and a put that failed changed nothing.
\<close>

locale enablement_home =
  fixes E :: "'e enstore" and now :: time
  assumes put_valid: "es_put E r b = (b', None) \<Longrightarrow> Validate r = None"
    and put_get: "es_put E r b = (b', None) \<Longrightarrow> snd (snd (es_get E (en_project r) b')) = None \<Longrightarrow>
      es_get E (en_project r) b' = (if en_changed_at r = zero_time then r\<lparr>en_changed_at := now\<rparr> else r, True, None)"
    and put_others: "es_put E r b = (b', None) \<Longrightarrow> snd (snd (es_get E (en_project r) b')) = None \<Longrightarrow>
      k \<noteq> en_project r \<Longrightarrow> es_get E k b' = es_get E k b"
    and put_failed: "es_put E r b = (b', Some e) \<Longrightarrow> b' = b"
begin

lemma statePut_refused:
  assumes "handleStatePut E dec cfg name body st = (st', rep)" and "rp_status rep \<notin> {200, 500}"
  shows "st' = st"
proof (cases st)
  case (Some b)
  show ?thesis
  proof (cases "knownProject cfg name \<and> (\<exists>x. dec body = Inr x)")
    case True
    then obtain state reason actor where dec: "dec body = Inr (state, reason, actor)" by (metis prod_cases3)
    let ?r = "\<lparr>en_project = name, en_state = state, en_reason = reason, en_actor = actor, en_changed_at = zero_time\<rparr>"
    obtain b' e where put: "es_put E ?r b = (b', e)" by fastforce
    show ?thesis
    proof (cases e)
      case None
      with True assms Some dec put show ?thesis
        by (auto simp: handleStatePut_def writeError_def writeJSON_def split: prod.splits option.splits)
    next
      case (Some err)
      with put have "b' = b" by (simp add: put_failed)
      with True assms \<open>st = Some b\<close> dec put Some show ?thesis by (simp add: handleStatePut_def)
    qed
  next
    case False
    with assms Some show ?thesis by (cases "dec body") (auto simp: handleStatePut_def split: if_splits)
  qed
qed (use assms in \<open>simp add: handleStatePut_def\<close>)

lemma statePut_stored:
  assumes "handleStatePut E dec cfg name body (Some b) = (st', rep)" and "rp_status rep = 200"
  obtains b' state reason actor where "st' = Some b'" and "knownProject cfg name" and "dec body = Inr (state, reason, actor)"
    and "Validate \<lparr>en_project = name, en_state = state, en_reason = reason, en_actor = actor, en_changed_at = zero_time\<rparr> = None"
    and "es_get E name b' = (\<lparr>en_project = name, en_state = state, en_reason = reason, en_actor = actor, en_changed_at = now\<rparr>, True, None)"
    and "\<forall>k. k \<noteq> name \<longrightarrow> es_get E k b' = es_get E k b"
    and "rep = writeJSON 200 (OneState \<lparr>sr_project = name, sr_state = state, sr_recorded = True, sr_reason = reason,
           sr_actor = actor, sr_changed_at = formatUTC now\<rparr>)"
proof -
  have known: "knownProject cfg name" using assms by (auto simp: handleStatePut_def writeError_def split: if_splits)
  then obtain x where "dec body = Inr x"
    using assms by (cases "dec body") (auto simp: handleStatePut_def writeError_def)
  then obtain state reason actor where dec: "dec body = Inr (state, reason, actor)" by (metis prod_cases3)
  let ?r = "\<lparr>en_project = name, en_state = state, en_reason = reason, en_actor = actor, en_changed_at = zero_time\<rparr>"
  obtain b' e where "es_put E ?r b = (b', e)" by fastforce
  moreover from this have "e = None"
    using assms known dec by (cases e) (auto simp: handleStatePut_def writeError_def)
  ultimately have put: "es_put E ?r b = (b', None)" by simp
  obtain rec found err where get: "es_get E name b' = (rec, found, err)" by (metis prod_cases3)
  have "err = None" using assms known dec put get by (cases err) (auto simp: handleStatePut_def writeError_def)
  with get have noerr: "snd (snd (es_get E (en_project ?r) b')) = None" by simp
  from put_get [OF put noerr] have get': "es_get E name b' = (?r\<lparr>en_changed_at := now\<rparr>, True, None)" by simp
  show thesis
  proof (rule that [OF _ known dec put_valid [OF put]])
    show "st' = Some b'" using assms known dec put get' by (simp add: handleStatePut_def)
    show "es_get E name b' = (\<lparr>en_project = name, en_state = state, en_reason = reason, en_actor = actor, en_changed_at = now\<rparr>, True, None)"
      using get' by simp
    show "\<forall>k. k \<noteq> name \<longrightarrow> es_get E k b' = es_get E k b" using put_others [OF put noerr] by simp
    show "rep = writeJSON 200 (OneState \<lparr>sr_project = name, sr_state = state, sr_recorded = True, sr_reason = reason,
        sr_actor = actor, sr_changed_at = formatUTC now\<rparr>)"
      using assms known dec put get' by (simp add: handleStatePut_def renderState_def)
  qed
qed

end

context enablement_store
begin

lemma en_put_ok_begin: "en_put K C now r b = (b', None) \<Longrightarrow> kv_begin K b = None"
  by (auto simp: en_put_def db_update_def Let_def split: option.splits sum.splits)

lemma en_get_ok_begin: "snd (snd (en_get K C partial k b)) = None \<Longrightarrow> kv_begin K b = None"
  by (cases "kv_begin K b") (simp_all add: en_get_def db_view_def)

lemma en_get_cong: "kv_begin K b = None \<Longrightarrow> kv_begin K b' = None \<Longrightarrow> kv_get K b' k = kv_get K b k \<Longrightarrow>
    en_get K C partial k b' = en_get K C partial k b"
  by (simp add: en_get_def db_view_def)

end

sublocale enablement_store \<subseteq> home: enablement_home "bolt_enstore K C partial now" now for partial now
proof unfold_locales
  fix r b b' and k :: string
  assume "es_put (bolt_enstore K C partial now) r b = (b', None)"
  then have put: "en_put K C now r b = (b', None)" by (simp add: bolt_enstore_def)
  show "Validate r = None"
    using put by (auto simp: en_put_def split: option.splits)
  assume "snd (snd (es_get (bolt_enstore K C partial now) (en_project r) b')) = None"
  then have ok: "kv_begin K b' = None" by (auto simp: bolt_enstore_def dest: en_get_ok_begin)
  note facts = en_put_get [OF put ok]
  show "es_get (bolt_enstore K C partial now) (en_project r) b' =
      (if en_changed_at r = zero_time then r\<lparr>en_changed_at := now\<rparr> else r, True, None)"
    using facts(2) by (simp add: bolt_enstore_def)
  assume "k \<noteq> en_project r"
  with facts(3) show "es_get (bolt_enstore K C partial now) k b' = es_get (bolt_enstore K C partial now) k b"
    by (simp add: bolt_enstore_def en_get_cong [OF en_put_ok_begin [OF put] ok])
next
  fix r b b' e
  assume "es_put (bolt_enstore K C partial now) r b = (b', Some e)"
  then show "b' = b" by (simp add: bolt_enstore_def en_put_error)
qed

context enablement_store
begin

lemma home_contract: "enablement_home (bolt_enstore K C partial now) now"
  by (rule home.enablement_home_axioms)

end

interpretation refhome: enablement_home "bolt_enstore (ref_kv fits) id_codec partial now" now for fits partial now
  by (rule refen.home.enablement_home_axioms)

section \<open>Properties\<close>

text \<open>
  readiness is provable: \<^verbatim>\<open>/readyz\<close> answers 200 with \<open>ready\<close> set exactly when the three roots are set and
  readable and the apiserver answered its probe, and 503 otherwise; it lists both checks, and
  the first unusable root in the order monitor, daemon, config is the one it names.
\<close>

theorem readyz_iff_every_check_passes:
  "let rep = handleReadyz readDir cfg cluster; sys = System cfg;
       usable = (\<lambda>p. p \<noteq> [] \<and> readDir p = None);
       ready = (usable (MonitorRoot sys) \<and> usable (DaemonRoot sys) \<and> usable (ConfigRoot sys) \<and> cluster = None)
   in rp_status rep = (if ready then 200 else 503)
     \<and> (\<exists>roots api. rp_body rep = Inr \<lparr>rd_ready = ready, rd_checks = [roots, api]\<rparr>
         \<and> rc_ok roots = (usable (MonitorRoot sys) \<and> usable (DaemonRoot sys) \<and> usable (ConfigRoot sys))
         \<and> rc_ok api = (cluster = None)
         \<and> takeWhile (\<lambda>c. c \<noteq> CHR '' '') (rc_error roots) =
             (if \<not> usable (MonitorRoot sys) then ''monitor_root''
              else if \<not> usable (DaemonRoot sys) then ''daemon_root''
              else if \<not> usable (ConfigRoot sys) then ''config_root'' else []))"
  by (cases cluster) (simp_all add: handleReadyz_def checkRootsReadable_def checkClusterReady_def writeJSON_def Let_def
      split: option.split)

text \<open>
  C20: the composed roster is exact: for a roster without duplicate names and a sweep in which every project is read,
  in whatever order the reads finish, \<^verbatim>\<open>/services\<close> lists every project once in roster order,
  each with the git state of its own path (the clean flag absent when the read failed), the
  state of its own machine, and the endpoint its live registration holds, reachable only
  then; a filter on models lists nothing, an unknown filter is refused, and an entry that does
  not encode fails the whole answer.
\<close>

theorem services_compose_the_roster:
  assumes "distinct (map pc_name (Projects cfg))" and "set order = {..<length (Projects cfg)}" and "kv_begin K b = None"
  shows "handleServicesAll K C marshal machines (Some b) os late order cfg q =
    (let t = trimSpace q; project = (\<lambda>i. Projects cfg ! i);
         git = (\<lambda>i. collectWithTimeout os (late i) (pc_path (project i)));
         held = (\<lambda>i. live K C b (pc_name (project i)))
     in if t \<noteq> [] \<and> \<not> snd (parseServiceType t) then writeError 400 (Msg (''unknown service type: '' @ t))
        else case marshal_all marshal
               (if t \<noteq> [] \<and> fst (parseServiceType t) = SERVICE_TYPE_MODEL then []
                else map (\<lambda>i. \<lparr>sv_name = pc_name (project i), sv_type = SERVICE_TYPE_SERVICE,
                    sv_git = \<lparr>gf_clean = (if gs_error (git i) = [] then Some (\<not> gs_dirty (git i)) else None),
                      gf_branch = gs_branch (git i), gf_unpushed = int32 (gs_unpushed (git i)), gf_error = gs_error (git i)\<rparr>,
                    sv_reachable = (if held i = None then None else Some True),
                    sv_backup = map_option (\<lambda>m. state_string (GetState m)) (machines (pc_name (project i))),
                    sv_endpoint = Option.bind (held i) rg_endpoint\<rparr>) [0..<length (Projects cfg)]) of
             Inl e \<Rightarrow> writeError 500 (Msg ''failed to encode services'')
           | Inr raws \<Rightarrow> writeJSON 200 raws)"
proof -
  let ?git = "\<lambda>i. collectWithTimeout os (late i) (pc_path (Projects cfg ! i))"
  let ?compose = "\<lambda>p. composeService K C machines (Some b) p (gitByName (CollectAll os late order (Projects cfg)) (pc_name p))"
  have comp: "map ?compose (Projects cfg) = map (\<lambda>i. composeService K C machines (Some b) (Projects cfg ! i) (?git i)) [0..<length (Projects cfg)]"
    by (rule nth_equalityI) (simp_all add: gitByName_slot [OF assms(1,2)])
  have svc: "composeService K C machines (Some b) p gs = \<lparr>sv_name = pc_name p, sv_type = SERVICE_TYPE_SERVICE,
      sv_git = composeGitFacet gs, sv_reachable = (if live K C b (pc_name p) = None then None else Some True),
      sv_backup = map_option (\<lambda>m. state_string (GetState m)) (machines (pc_name p)),
      sv_endpoint = Option.bind (live K C b (pc_name p)) rg_endpoint\<rparr>" for p gs
    by (simp add: composeService_def Get_live [OF assms(3)] Let_def split: option.split)
  have types: "\<forall>p. sv_type (?compose p) = SERVICE_TYPE_SERVICE" by (simp add: composeService_simps)
  have loop: "services_loop ?compose marshal want ps [] =
      (if want = SERVICE_TYPE_MODEL then Inr [] else marshal_all marshal (map ?compose ps))" for want ps
    using services_loop_eq [OF types, of marshal want ps "[]"] by (simp split: sum.splits)
  show ?thesis
    unfolding handleServicesAll_def Let_def
    unfolding loop comp
    unfolding svc composeGitFacet_def
    by (cases "trimSpace q = []"; cases "snd (parseServiceType (trimSpace q))";
        cases "fst (parseServiceType (trimSpace q)) = SERVICE_TYPE_MODEL") (simp_all add: split_beta)
qed

theorem services_compose_the_roster_witness:
  "\<exists>svc. rp_body (handleServicesAll demo_kv id_codec Inr (\<lambda>_. None) (Some demo_bucket)
       \<lparr>go_home = None, go_stat = (\<lambda>_. PathMissing), go_open = (\<lambda>_. Inl ''no'')\<rparr> (\<lambda>_. False) [0] demo_cfg []) = Inr [svc]
     \<and> sv_name svc = ''obs'' \<and> sv_reachable svc = Some True \<and> gf_clean (sv_git svc) = None"
proof -
  have hyps: "distinct (map pc_name (Projects demo_cfg))" "set [0] = {..<length (Projects demo_cfg)}"
    "kv_begin demo_kv demo_bucket = None"
    by (auto simp: demo_cfg_def ref_kv_def)
  show ?thesis
    unfolding services_compose_the_roster [OF hyps]
    by (simp add: demo_live) (simp add: demo_cfg_def collectWithTimeout_def Collect_def ErrPathNotFound_def writeJSON_def)
qed

text \<open>
  C31: the enablement surface fails closed: without a store every route answers 503 and nothing is written; a project
  is never reported in another state than \<open>disabled\<close> unless its record was read and says
  so; a write answered neither 200 nor 500 has changed nothing.
\<close>

theorem state_surface_fails_closed:
  assumes "enablement_store K C" and "E = bolt_enstore K C partial now"
  shows "handleStateAll E cfg None = writeJSON 503 DegradedBody \<and> handleStateGet E cfg name None = writeJSON 503 DegradedBody
    \<and> handleStatePut E dec cfg name body None = (None, writeJSON 503 DegradedBody)
    \<and> (\<forall>b r. rp_body (handleStateGet E cfg name (Some b)) = Inr (OneState r) \<and> sr_state r \<noteq> StateDisabled \<longrightarrow>
         knownProject cfg name \<and> (\<exists>rec. es_get E name b = (rec, True, None) \<and> en_state rec = sr_state r))
    \<and> (\<forall>b rs r. rp_body (handleStateAll E cfg (Some b)) = Inr (AllStates rs) \<longrightarrow>
         map sr_project rs = map pc_name (Projects cfg)
         \<and> (r \<in> set rs \<and> sr_state r \<noteq> StateDisabled \<longrightarrow>
             (\<exists>rec. es_get E (sr_project r) b = (rec, True, None) \<and> en_state rec = sr_state r)))
    \<and> (\<forall>st st' rep. handleStatePut E dec cfg name body st = (st', rep) \<and> rp_status rep \<notin> {200, 500} \<longrightarrow> st' = st)"
proof (intro conjI allI impI)
  fix b r
  assume "rp_body (handleStateGet E cfg name (Some b)) = Inr (OneState r) \<and> sr_state r \<noteq> StateDisabled"
  then show "knownProject cfg name" "\<exists>rec. es_get E name b = (rec, True, None) \<and> en_state rec = sr_state r"
    by (auto simp: handleStateGet_def writeError_def writeJSON_def renderState_def split: if_splits prod.splits option.splits)
next
  fix b rs r
  assume "rp_body (handleStateAll E cfg (Some b)) = Inr (AllStates rs)"
  then have "state_loop E b (Projects cfg) = Inr rs"
    by (auto simp: handleStateAll_def writeError_def writeJSON_def split: sum.splits)
  note all2 = state_loop_Inr [OF this]
  show "map sr_project rs = map pc_name (Projects cfg)"
    using all2 by (auto simp: list_all2_conv_all_nth renderState_def intro!: nth_equalityI)
  assume "r \<in> set rs \<and> sr_state r \<noteq> StateDisabled"
  with all2 show "\<exists>rec. es_get E (sr_project r) b = (rec, True, None) \<and> en_state rec = sr_state r"
    by (fastforce simp: list_all2_conv_all_nth in_set_conv_nth renderState_def split: if_splits)
next
  fix st st' and rep :: "stateBody reply"
  assume "handleStatePut E dec cfg name body st = (st', rep) \<and> rp_status rep \<notin> {200, 500}"
  then show "st' = st"
    using enablement_home.statePut_refused [OF enablement_store.home_contract [OF assms(1)]] assms(2)
    by blast
qed (simp_all add: handleStateAll_def handleStateGet_def handleStatePut_def)

theorem state_surface_fails_closed_witness:
  "handleStateAll (bolt_enstore (ref_kv (\<lambda>_. True)) id_codec (\<lambda>r. r) 7) demo_cfg None = writeJSON 503 DegradedBody"
  using state_surface_fails_closed [OF refen.enablement_store_axioms [of "\<lambda>_. True"] refl, of "\<lambda>r. r" 7 demo_cfg "[]" "\<lambda>_. Inl []" "[]"]
  by blast

text \<open>
  C30: a write answered 200 is what the next read serves: the project is in the roster, the body parsed, the state is
  one of the two with the required reason and actor, the reply is the stored record, a following
  GET of the project gives the same reply, and every other project's GET is as before.
\<close>

theorem state_put_is_what_get_serves:
  assumes "enablement_store K C" and "E = bolt_enstore K C partial now"
    and "handleStatePut E dec cfg name body (Some b) = (st', rep)" and "rp_status rep = 200"
  shows "\<exists>state reason actor. dec body = Inr (state, reason, actor) \<and> knownProject cfg name
    \<and> (state = ''enabled'' \<or> state = ''disabled'' \<and> reason \<noteq> []) \<and> actor \<noteq> []
    \<and> rp_body rep = Inr (OneState \<lparr>sr_project = name, sr_state = state, sr_recorded = True, sr_reason = reason,
         sr_actor = actor, sr_changed_at = formatUTC now\<rparr>)
    \<and> handleStateGet E cfg name st' = rep
    \<and> (\<forall>k. k \<noteq> name \<longrightarrow> handleStateGet E cfg k st' = handleStateGet E cfg k (Some b))"
proof -
  have home: "enablement_home E now" unfolding assms(2) by (rule enablement_store.home_contract [OF assms(1)])
  obtain b' state reason actor where st: "st' = Some b'" "knownProject cfg name" "dec body = Inr (state, reason, actor)"
    "Validate \<lparr>en_project = name, en_state = state, en_reason = reason, en_actor = actor, en_changed_at = zero_time\<rparr> = None"
    "es_get E name b' = (\<lparr>en_project = name, en_state = state, en_reason = reason, en_actor = actor, en_changed_at = now\<rparr>, True, None)"
    "\<forall>k. k \<noteq> name \<longrightarrow> es_get E k b' = es_get E k b"
    "rep = writeJSON 200 (OneState \<lparr>sr_project = name, sr_state = state, sr_recorded = True, sr_reason = reason,
       sr_actor = actor, sr_changed_at = formatUTC now\<rparr>)"
    by (rule enablement_home.statePut_stored [OF home assms(3,4)])
  have "handleStateGet E cfg name st' = rep"
    using st(1,2,5,7) by (simp add: handleStateGet_def renderState_def)
  moreover have "handleStateGet E cfg k st' = handleStateGet E cfg k (Some b)" if "k \<noteq> name" for k
    using st(1,6) that by (simp add: handleStateGet_def)
  moreover have "(state = ''enabled'' \<or> state = ''disabled'' \<and> reason \<noteq> []) \<and> actor \<noteq> []"
    using st(4) by (auto simp: Validate_None_iff StateEnabled_def StateDisabled_def)
  ultimately show ?thesis
    using st(2,3,7) by (intro exI [of _ state] exI [of _ reason] exI [of _ actor]) (simp add: writeJSON_def)
qed

definition demo_put :: "EnRecord bucket option \<times> stateBody reply" where
  "demo_put = handleStatePut (bolt_enstore (ref_kv (\<lambda>_. True)) id_codec (\<lambda>r. r) 7)
     (\<lambda>_. Inr (''disabled'', ''maintenance'', ''jane'')) demo_cfg ''obs'' [] (Some bk_empty)"

lemma demo_put_ok: "rp_status (snd demo_put) = 200"
proof -
  have "knownProject demo_cfg ''obs''" by code_simp
  moreover have "Validate \<lparr>en_project = ''obs'', en_state = ''disabled'', en_reason = ''maintenance'', en_actor = ''jane'',
      en_changed_at = zero_time\<rparr> = None" by code_simp
  ultimately show ?thesis
    by (simp add: demo_put_def handleStatePut_def bolt_enstore_def en_put_def en_get_def id_codec_def ref_kv_def
        db_update_def db_view_def writeJSON_def Let_def split: option.split)
qed

theorem state_put_is_what_get_serves_witness:
  "\<exists>r. rp_body (snd demo_put) = Inr (OneState r) \<and> sr_state r = ''disabled'' \<and> sr_reason r = ''maintenance''"
proof -
  have run: "handleStatePut (bolt_enstore (ref_kv (\<lambda>_. True)) id_codec (\<lambda>r. r) 7)
     (\<lambda>_. Inr (''disabled'', ''maintenance'', ''jane'')) demo_cfg ''obs'' [] (Some bk_empty) = (fst demo_put, snd demo_put)"
    by (simp add: demo_put_def)
  from state_put_is_what_get_serves [OF refen.enablement_store_axioms refl run demo_put_ok] show ?thesis by auto
qed

end
