(* ===== verification/Furnish.thy ===== *)
theory Furnish
  imports Auth Paths
begin

text \<open>
  Converging the declared pieces onto the cluster: \<^verbatim>\<open>pkg/furnish/furnish.go\<close>, the client of \<^verbatim>\<open>pkg/kube/client.go\<close>,
  the routes of \<^verbatim>\<open>pkg/httpapi/furnish.go\<close> and the command line that calls them. The
  apiserver, its discovery and kustomize are not part of the repository: they answer through the
  record \<open>cluster\<close> and the argument \<open>kustomize\<close>. \<open>'c\<close> is the state of the cluster together with
  the client's discovery cache.
\<close>

section \<open>Objects and errors\<close>

text \<open>\<open>ko_replicas\<close> and \<open>ko_ready\<close> are \<^verbatim>\<open>spec.replicas\<close> and \<^verbatim>\<open>status.readyReplicas\<close> when present as integers.\<close>

record kobject =
  ko_group :: string
  ko_version :: string
  ko_kind :: string
  ko_namespace :: string
  ko_name :: string
  ko_replicas :: "int option"
  ko_ready :: "int option"

text \<open>An error with what \<^verbatim>\<open>errors.Is\<close> and \<^verbatim>\<open>errors.As\<close> find in its chain; wrapping keeps all but the text.\<close>

record kerr =
  ke_text :: string
  ke_not_found :: bool
  ke_deadline :: bool
  ke_api_status :: bool

definition plain_error :: "string \<Rightarrow> kerr" where
  "plain_error t = \<lparr>ke_text = t, ke_not_found = False, ke_deadline = False, ke_api_status = False\<rparr>"

definition wrap :: "string \<Rightarrow> kerr \<Rightarrow> kerr" where
  "wrap text e = e\<lparr>ke_text := text @ ke_text e\<rparr>"

datatype Scope = ScopeNamespace | ScopeRoot

record mapping =
  mp_resource :: string
  mp_scope :: Scope

datatype maperr = NoMatch kerr | OtherMapError kerr

text \<open>\<open>cl_mapping\<close> is the mapper, which may fill its cache; \<open>cl_reset\<close> is absent for one that cannot be reset.\<close>

record 'c cluster =
  cl_mapping :: "string \<Rightarrow> string \<Rightarrow> string \<Rightarrow> 'c \<Rightarrow> 'c \<times> (maperr + mapping)"
  cl_reset :: "('c \<Rightarrow> 'c) option"
  cl_get :: "string \<Rightarrow> string option \<Rightarrow> string \<Rightarrow> 'c \<Rightarrow> kerr + kobject"
  cl_apply :: "string \<Rightarrow> string option \<Rightarrow> kobject \<Rightarrow> 'c \<Rightarrow> 'c \<times> kerr option"
  cl_delete :: "string \<Rightarrow> string option \<Rightarrow> string \<Rightarrow> 'c \<Rightarrow> 'c \<times> kerr option"

section \<open>The client\<close>

definition map_error :: "maperr \<Rightarrow> kerr" where
  "map_error e = (case e of NoMatch k \<Rightarrow> k | OtherMapError k \<Rightarrow> k)"

definition RESTMapping :: "'c cluster \<Rightarrow> string \<Rightarrow> string \<Rightarrow> string \<Rightarrow> 'c \<Rightarrow> 'c \<times> (kerr + mapping)" where
  "RESTMapping L grp kind version c =
     (case cl_mapping L grp kind version c of
        (c1, Inr m) \<Rightarrow> (c1, Inr m)
      | (c1, Inl (OtherMapError e)) \<Rightarrow> (c1, Inl e)
      | (c1, Inl (NoMatch e)) \<Rightarrow>
          (case cl_reset L of
             None \<Rightarrow> (c1, Inl e)
           | Some reset \<Rightarrow>
               (case cl_mapping L grp kind version (reset c1) of
                  (c2, Inr m) \<Rightarrow> (c2, Inr m)
                | (c2, Inl e2) \<Rightarrow> (c2, Inl (map_error e2)))))"

text \<open>
  \<^verbatim>\<open>LazyClient\<close>: the memoized client, if any, and what one call does with the outcome of \<^verbatim>\<open>FromKubeconfig\<close>.
\<close>

definition LazyClient :: "'err + 'k \<Rightarrow> 'k option \<Rightarrow> 'k option \<times> ('err + 'k)" where
  "LazyClient built memo =
     (case memo of
        Some c \<Rightarrow> (memo, Inr c)
      | None \<Rightarrow> (case built of Inl err \<Rightarrow> (None, Inl err) | Inr c \<Rightarrow> (Some c, Inr c)))"

section \<open>Pieces\<close>

text \<open>\<open>parse\<close> is the YAML library on the aggregator file.\<close>

definition Pieces :: "(string \<Rightarrow> string + bytes) \<Rightarrow> (bytes \<Rightarrow> string + string list) \<Rightarrow> string \<Rightarrow> string + string list" where
  "Pieces readFile parse kubeDir =
     (let path = fp_join [kubeDir, ''kustomization.yaml'']
      in case readFile path of
           Inl err \<Rightarrow> Inl (''furnish: no aggregator at '' @ path @ '' (point the manifest root at a checkout's kube/): '' @ err)
         | Inr b \<Rightarrow>
             (case parse b of
                Inl err \<Rightarrow> Inl (''furnish: '' @ path @ '' does not parse: '' @ err)
              | Inr resources \<Rightarrow>
                  if resources = [] then Inl (''furnish: '' @ path @ '' declares no resources'') else Inr resources))"

text \<open>
  \<open>kustomize\<close> is that library on a directory: the objects, each read as a map or not. The first that does not read fails
  the piece.
\<close>

fun read_objects :: "string \<Rightarrow> (string + kobject) list \<Rightarrow> kerr + kobject list" where
  "read_objects dir [] = Inr []"
| "read_objects dir (x # xs) =
     (case x of
        Inl e \<Rightarrow> Inl (plain_error (''furnish: read object in '' @ dir @ '': '' @ e))
      | Inr obj \<Rightarrow> (case read_objects dir xs of Inl e \<Rightarrow> Inl e | Inr objs \<Rightarrow> Inr (obj # objs)))"

definition buildPiece :: "(string \<Rightarrow> string + (string + kobject) list) \<Rightarrow> string \<Rightarrow> kerr + kobject list" where
  "buildPiece kustomize dir =
     (case kustomize dir of
        Inl e \<Rightarrow> Inl (plain_error (''furnish: build '' @ dir @ '': '' @ e))
      | Inr resources \<Rightarrow> read_objects dir resources)"

type_synonym resource_interface = "string \<times> string option"

definition resourceFor :: "'c cluster \<Rightarrow> kobject \<Rightarrow> 'c \<Rightarrow> 'c \<times> (kerr + resource_interface)" where
  "resourceFor L u c =
     (case RESTMapping L (ko_group u) (ko_kind u) (ko_version u) c of
        (c1, Inl e) \<Rightarrow> (c1, Inl (wrap (''furnish: resolve '' @ ko_kind u @ '': '') e))
      | (c1, Inr m) \<Rightarrow>
          if mp_scope m = ScopeNamespace then
            if ko_namespace u = [] then
              (c1, Inl (plain_error (''furnish: '' @ ko_kind u @ ''/'' @ ko_name u
                 @ '' declares no namespace (every piece's namespaced objects must set one)'')))
            else (c1, Inr (mp_resource m, Some (ko_namespace u)))
          else (c1, Inr (mp_resource m, None)))"

section \<open>Up and down\<close>

record UpResult =
  Applied :: "string list"
  Failed :: "string \<Rightarrow> string option"

definition object_key :: "kobject \<Rightarrow> string" where
  "object_key u = ko_kind u @ ''/'' @ ko_name u"

text \<open>One turn of the loop of \<^verbatim>\<open>Up\<close>: the result so far, the keys failed so far and the first error.\<close>

definition up_object ::
  "'c cluster \<Rightarrow> kobject \<Rightarrow> 'c \<times> UpResult \<times> kerr option \<Rightarrow> 'c \<times> UpResult \<times> kerr option" where
  "up_object L u s =
     (case s of (c, result, firstErr) \<Rightarrow>
        (let key = object_key u; first = (\<lambda>e. if firstErr = None then Some e else firstErr)
         in case resourceFor L u c of
              (c1, Inl e) \<Rightarrow> (c1, result\<lparr>Failed := (Failed result)(key \<mapsto> ke_text e)\<rparr>, first e)
            | (c1, Inr (res, ns)) \<Rightarrow>
                (case cl_apply L res ns u c1 of
                   (c2, Some e) \<Rightarrow>
                     (let objErr = wrap (''furnish: apply '' @ key @ '': '') e
                      in (c2, result\<lparr>Failed := (Failed result)(key \<mapsto> ke_text objErr)\<rparr>, first objErr))
                 | (c2, None) \<Rightarrow> (c2, result\<lparr>Applied := Applied result @ [key]\<rparr>, firstErr))))"

definition zero_result :: UpResult where
  "zero_result = \<lparr>Applied = [], Failed = Map.empty\<rparr>"

text \<open>The number of failed keys is the size of the map, over the keys of the piece.\<close>

definition failed_count :: "kobject list \<Rightarrow> UpResult \<Rightarrow> nat" where
  "failed_count objs result = length (filter (\<lambda>k. Failed result k \<noteq> None) (remdups (map object_key objs)))"

definition Up ::
  "'c cluster \<Rightarrow> (string \<Rightarrow> string + (string + kobject) list) \<Rightarrow> string \<Rightarrow> 'c \<Rightarrow> 'c \<times> UpResult \<times> kerr option" where
  "Up L kustomize pieceDir c =
     (case buildPiece kustomize pieceDir of
        Inl err \<Rightarrow> (c, zero_result, Some err)
      | Inr objs \<Rightarrow>
          (case fold (up_object L) objs (c, zero_result, None) of
             (c', result, firstErr) \<Rightarrow>
               if failed_count objs result > 0 then
                 (c', result, map_option (wrap (''furnish: '' @ showNat (failed_count objs result) @ '' of ''
                    @ showNat (length objs) @ '' object(s) failed to apply in '' @ pieceDir @ '': '')) firstErr)
               else (c', result, None)))"

fun down_loop :: "'c cluster \<Rightarrow> kobject list \<Rightarrow> 'c \<Rightarrow> 'c \<times> kerr option" where
  "down_loop L [] c = (c, None)"
| "down_loop L (u # us) c =
     (case resourceFor L u c of
        (c1, Inl e) \<Rightarrow> (c1, Some e)
      | (c1, Inr (res, ns)) \<Rightarrow>
          (case cl_delete L res ns (ko_name u) c1 of
             (c2, Some e) \<Rightarrow>
               if \<not> ke_not_found e then (c2, Some (wrap (''furnish: delete '' @ object_key u @ '': '') e))
               else down_loop L us c2
           | (c2, None) \<Rightarrow> down_loop L us c2))"

definition Down :: "'c cluster \<Rightarrow> (string \<Rightarrow> string + (string + kobject) list) \<Rightarrow> string \<Rightarrow> 'c \<Rightarrow> 'c \<times> kerr option" where
  "Down L kustomize pieceDir c =
     (case buildPiece kustomize pieceDir of
        Inl err \<Rightarrow> (c, Some err)
      | Inr objs \<Rightarrow> down_loop L objs c)"

section \<open>Health\<close>

record Item =
  it_kind :: string
  it_name :: string
  it_replicas :: "int option"
  it_ready :: int
  it_absent :: bool
  it_indeterminate :: bool
  it_reason :: string

definition to_int32 :: "int \<Rightarrow> int" where
  "to_int32 n = sint (word_of_int n :: 32 word)"

definition liveItem :: "'c cluster \<Rightarrow> kobject \<Rightarrow> 'c \<Rightarrow> 'c \<times> Item" where
  "liveItem L u c =
     (let item = \<lparr>it_kind = ko_kind u, it_name = ko_name u, it_replicas = None, it_ready = 0, it_absent = False,
                  it_indeterminate = False, it_reason = []\<rparr>
      in case resourceFor L u c of
           (c1, Inl e) \<Rightarrow> (c1, item\<lparr>it_indeterminate := True, it_reason := ke_text e\<rparr>)
         | (c1, Inr (res, ns)) \<Rightarrow>
             (case cl_get L res ns (ko_name u) c1 of
                Inl e \<Rightarrow>
                  if ke_not_found e then (c1, item\<lparr>it_absent := True\<rparr>)
                  else (c1, item\<lparr>it_indeterminate := True, it_reason := ''get '' @ object_key u @ '': '' @ ke_text e\<rparr>)
              | Inr obj \<Rightarrow>
                  (let item = (case ko_replicas obj of Some r \<Rightarrow> item\<lparr>it_replicas := Some (to_int32 r)\<rparr> | None \<Rightarrow> item);
                       item = (case ko_ready obj of Some r \<Rightarrow> item\<lparr>it_ready := to_int32 r\<rparr> | None \<Rightarrow> item)
                   in (c1, item))))"

fun live_items :: "'c cluster \<Rightarrow> kobject list \<Rightarrow> 'c \<Rightarrow> 'c \<times> Item list" where
  "live_items L [] c = (c, [])"
| "live_items L (u # us) c =
     (case liveItem L u c of (c1, item) \<Rightarrow> (case live_items L us c1 of (c2, items) \<Rightarrow> (c2, item # items)))"

definition Health ::
  "'c cluster \<Rightarrow> (string \<Rightarrow> string + (string + kobject) list) \<Rightarrow> string \<Rightarrow> 'c \<Rightarrow> 'c \<times> (kerr + Item list)" where
  "Health L kustomize pieceDir c =
     (case buildPiece kustomize pieceDir of
        Inl err \<Rightarrow> (c, Inl err)
      | Inr objs \<Rightarrow> (case live_items L objs c of (c', items) \<Rightarrow> (c', Inr items)))"

datatype rung = GREEN | RED | INDETERMINATE

record ladderEntry =
  le_kind :: string
  le_name :: string
  le_state :: rung
  le_detail :: string

definition item_state :: "Item \<Rightarrow> rung \<times> string" where
  "item_state item =
     (if it_indeterminate item then (INDETERMINATE, it_reason item)
      else if it_absent item then (RED, ''declared but absent'')
      else if it_kind item = ''Deployment'' \<or> it_kind item = ''StatefulSet'' then
        (let want = (case it_replicas item of Some n \<Rightarrow> n | None \<Rightarrow> 1)
         in (if it_ready item < want then RED else GREEN, showInt (it_ready item) @ ''/'' @ showInt want @ '' ready''))
      else (GREEN, ''present''))"

definition ladder_entry :: "Item \<Rightarrow> ladderEntry" where
  "ladder_entry item =
     \<lparr>le_kind = it_kind item, le_name = it_name item, le_state = fst (item_state item), le_detail = snd (item_state item)\<rparr>"

definition PieceHealth :: "Item list \<Rightarrow> bool \<times> ladderEntry list" where
  "PieceHealth items =
     fold (\<lambda>item (healthy, results). (healthy \<and> fst (item_state item) = GREEN, results @ [ladder_entry item]))
       items (True, [])"

section \<open>The routes\<close>

definition furnishMutateTimeout :: string where
  "furnishMutateTimeout = ''1m0s''"

definition furnishHealthTimeout :: string where
  "furnishHealthTimeout = ''15s''"

datatype furnishBody =
    FPieces string "string list"
  | FHealth bool "string \<Rightarrow> ladderEntry list option"
  | FUp string "string list"
  | FDown string
  | FFailure errtext "UpResult option"

definition writeFurnishError :: "string \<Rightarrow> string \<Rightarrow> string \<Rightarrow> kerr \<Rightarrow> UpResult option \<Rightarrow> furnishBody reply" where
  "writeFurnishError op piece timeout err extra =
     (if ke_deadline err then
        writeJSON 504 (FFailure (Fmt ''%s %s: deadline exceeded after %s waiting on the cluster: %v''
          [op, piece, timeout, ke_text err]) extra)
      else if ke_api_status err then writeJSON 502 (FFailure (Msg (ke_text err)) extra)
      else writeJSON 500 (FFailure (Msg (ke_text err)) extra))"

text \<open>
  What the routes are wired with: \<open>fu_client\<close> is \<open>None\<close> while not wired, else what the provider answers at the
  call; \<open>fu_pieces\<close> is the aggregator as \<^verbatim>\<open>Pieces\<close> reads it.
\<close>

record 'c furnishing =
  fu_kubeDir :: string
  fu_pieces :: "string + string list"
  fu_kustomize :: "string \<Rightarrow> string + (string + kobject) list"
  fu_client :: "(string + 'c cluster) option"

definition furnishCluster :: "'c furnishing \<Rightarrow> furnishBody reply + 'c cluster" where
  "furnishCluster F =
     (case fu_client F of
        None \<Rightarrow> Inl (writeError 503 (Msg ''furnish not wired: no cluster client''))
      | Some (Inl err) \<Rightarrow> Inl (writeError 503 (Msg (''cluster unavailable: '' @ err)))
      | Some (Inr L) \<Rightarrow> Inr L)"

definition furnishPiece :: "'c furnishing \<Rightarrow> string \<Rightarrow> furnishBody reply + string" where
  "furnishPiece F name =
     (case fu_pieces F of
        Inl err \<Rightarrow> Inl (writeError 500 (Msg err))
      | Inr pieces \<Rightarrow>
          if list_ex (\<lambda>p. p = name) pieces then Inr (fp_join [fu_kubeDir F, name])
          else Inl (writeError 404 (Fmt ''unknown piece %q'' [name])))"

definition handleFurnishPieces :: "'c furnishing \<Rightarrow> furnishBody reply" where
  "handleFurnishPieces F =
     (case fu_pieces F of
        Inl err \<Rightarrow> writeError 500 (Msg err)
      | Inr pieces \<Rightarrow> writeJSON 200 (FPieces (fu_kubeDir F) pieces))"

text \<open>The loop over the named pieces: one that does not render is one INDETERMINATE entry.\<close>

fun health_loop ::
  "'c cluster \<Rightarrow> 'c furnishing \<Rightarrow> string list \<Rightarrow> 'c \<Rightarrow> bool \<Rightarrow> (string \<Rightarrow> ladderEntry list option)
   \<Rightarrow> 'c \<times> bool \<times> (string \<Rightarrow> ladderEntry list option)" where
  "health_loop L F [] c healthy results = (c, healthy, results)"
| "health_loop L F (p # ps) c healthy results =
     (case Health L (fu_kustomize F) (fp_join [fu_kubeDir F, p]) c of
        (c1, Inl err) \<Rightarrow>
          health_loop L F ps c1 False
            (results(p \<mapsto> [\<lparr>le_kind = ''piece'', le_name = p, le_state = INDETERMINATE, le_detail = ke_text err\<rparr>]))
      | (c1, Inr items) \<Rightarrow>
          (case PieceHealth items of
             (ok, ladder) \<Rightarrow> health_loop L F ps c1 (if \<not> ok then False else healthy) (results(p \<mapsto> ladder))))"

text \<open>An empty \<open>piece\<close> is the route without one.\<close>

definition handleFurnishHealth :: "'c furnishing \<Rightarrow> string \<Rightarrow> 'c \<Rightarrow> 'c \<times> furnishBody reply" where
  "handleFurnishHealth F piece c =
     (case (if piece \<noteq> [] then (case furnishPiece F piece of Inl rep \<Rightarrow> Inl rep | Inr dir \<Rightarrow> Inr [piece])
            else (case fu_pieces F of Inl err \<Rightarrow> Inl (writeError 500 (Msg err)) | Inr pieces \<Rightarrow> Inr pieces)) of
        Inl rep \<Rightarrow> (c, rep)
      | Inr names \<Rightarrow>
          (case furnishCluster F of
             Inl rep \<Rightarrow> (c, rep)
           | Inr L \<Rightarrow>
               (case health_loop L F names c True Map.empty of
                  (c', healthy, results) \<Rightarrow>
                    (c', writeJSON (if \<not> healthy then 503 else 200) (FHealth healthy results)))))"

definition handleFurnishUp :: "'c furnishing \<Rightarrow> string \<Rightarrow> 'c \<Rightarrow> 'c \<times> furnishBody reply" where
  "handleFurnishUp F name c =
     (case furnishPiece F name of
        Inl rep \<Rightarrow> (c, rep)
      | Inr dir \<Rightarrow>
          (case furnishCluster F of
             Inl rep \<Rightarrow> (c, rep)
           | Inr L \<Rightarrow>
               (case Up L (fu_kustomize F) dir c of
                  (c', result, Some err) \<Rightarrow>
                    (c', writeFurnishError ''furnish.up'' name furnishMutateTimeout err (Some result))
                | (c', result, None) \<Rightarrow> (c', writeJSON 200 (FUp name (Applied result))))))"

definition handleFurnishDown :: "'c furnishing \<Rightarrow> string \<Rightarrow> 'c \<Rightarrow> 'c \<times> furnishBody reply" where
  "handleFurnishDown F name c =
     (case furnishPiece F name of
        Inl rep \<Rightarrow> (c, rep)
      | Inr dir \<Rightarrow>
          (case furnishCluster F of
             Inl rep \<Rightarrow> (c, rep)
           | Inr L \<Rightarrow>
               (case Down L (fu_kustomize F) dir c of
                  (c', Some err) \<Rightarrow> (c', writeFurnishError ''furnish.down'' name furnishMutateTimeout err None)
                | (c', None) \<Rightarrow> (c', writeJSON 200 (FDown name)))))"

section \<open>The command line\<close>

text \<open>
  \<open>send\<close> is one request to the control port: a transport error, or status code, status text and body. The result is
  what is printed and the error, if any, that sets the exit code.
\<close>

definition furnishDo ::
  "(request \<Rightarrow> string + nat \<times> string \<times> string) \<Rightarrow> string \<Rightarrow> string \<Rightarrow> string \<Rightarrow> string option \<times> string option" where
  "furnishDo send addr method path =
     (case send \<lparr>rq_method = method, rq_path = path_segments path, rq_authorization = [], rq_query_type = [], rq_body = []\<rparr> of
        Inl err \<Rightarrow> (None, Some (''furnish: cannot reach delightd at '' @ addr
          @ '' (is the daemon up? try 'delightd status'): '' @ err))
      | Inr (code, status, body) \<Rightarrow>
          (let b = trimSpace body; out = (if b \<noteq> [] then Some b else None)
           in if code div 100 \<noteq> 2 then (out, Some (''furnish: '' @ method @ '' '' @ path @ '' -> '' @ status))
              else (out, None)))"

datatype furnish_command = CmdList | CmdHealth "string option" | CmdUp string | CmdDown string

definition furnishCmd ::
  "(request \<Rightarrow> string + nat \<times> string \<times> string) \<Rightarrow> string \<Rightarrow> furnish_command \<Rightarrow> string option \<times> string option" where
  "furnishCmd send addr cmd = (case cmd of
      CmdList \<Rightarrow> furnishDo send addr ''GET'' ''/furnish/pieces''
    | CmdHealth None \<Rightarrow> furnishDo send addr ''GET'' ''/furnish/health''
    | CmdHealth (Some p) \<Rightarrow> furnishDo send addr ''GET'' (''/furnish/health/'' @ p)
    | CmdUp p \<Rightarrow> furnishDo send addr ''POST'' (''/furnish/'' @ p @ ''/up'')
    | CmdDown p \<Rightarrow> furnishDo send addr ''POST'' (''/furnish/'' @ p @ ''/down''))"

definition healthcheckCmd :: "(request \<Rightarrow> string + nat \<times> string \<times> string) \<Rightarrow> string \<Rightarrow> string option \<times> string option" where
  "healthcheckCmd send addr = furnishDo send addr ''GET'' ''/readyz''"

section \<open>The contract of the apiserver\<close>

text \<open>
  \<open>placed objs c u\<close>: the object is there, in its own namespace if it has one. \<open>untouched objs names c c'\<close>: no object
  of another name differs between the two states.
\<close>

type_synonym object_id = "string \<times> string option \<times> string"

definition placed :: "('c \<Rightarrow> object_id \<Rightarrow> kobject option) \<Rightarrow> 'c \<Rightarrow> kobject \<Rightarrow> bool" where
  "placed objs c u \<longleftrightarrow>
     (\<exists>res ns. (ns = None \<or> ns = Some (ko_namespace u) \<and> ko_namespace u \<noteq> []) \<and> objs c (res, ns, ko_name u) \<noteq> None)"

definition untouched :: "('c \<Rightarrow> object_id \<Rightarrow> kobject option) \<Rightarrow> string set \<Rightarrow> 'c \<Rightarrow> 'c \<Rightarrow> bool" where
  "untouched objs names c c' \<longleftrightarrow> (\<forall>res ns n. n \<notin> names \<longrightarrow> objs c' (res, ns, n) = objs c (res, ns, n))"

text \<open>
  \<open>objs\<close> are the objects the apiserver stores and has not marked for deletion, by resource, namespace and name. The
  mapper and its cache do not touch them; an accepted apply stores its object, an accepted delete
  removes or marks it; one that failed may have happened or not (a timeout), but to no
  other object; not found means there was none.
\<close>

locale apiserver =
  fixes L :: "'c cluster" and objs :: "'c \<Rightarrow> object_id \<Rightarrow> kobject option"
  assumes mapping_keeps: "cl_mapping L g k v c = (c', m) \<Longrightarrow> objs c' = objs c"
    and reset_keeps: "cl_reset L = Some f \<Longrightarrow> objs (f c) = objs c"
    and apply_accepted: "cl_apply L res ns u c = (c', None) \<Longrightarrow>
      \<exists>obj. objs c' = (objs c)((res, ns, ko_name u) \<mapsto> obj)"
    and apply_failed: "cl_apply L res ns u c = (c', Some e) \<Longrightarrow> key \<noteq> (res, ns, ko_name u) \<Longrightarrow> objs c' key = objs c key"
    and delete_accepted: "cl_delete L res ns n c = (c', None) \<Longrightarrow> objs c' = (objs c)((res, ns, n) := None)"
    and delete_failed: "cl_delete L res ns n c = (c', Some e) \<Longrightarrow> key \<noteq> (res, ns, n) \<Longrightarrow> objs c' key = objs c key"
    and delete_not_found: "cl_delete L res ns n c = (c', Some e) \<Longrightarrow> ke_not_found e \<Longrightarrow> objs c' (res, ns, n) = None"
begin

lemma RESTMapping_keeps: "RESTMapping L g k v c = (c', m) \<Longrightarrow> objs c' = objs c"
  by (auto simp: RESTMapping_def split: prod.splits sum.splits maperr.splits option.splits dest: mapping_keeps)
    (metis mapping_keeps reset_keeps)+

lemma resourceFor_keeps: "resourceFor L u c = (c', m) \<Longrightarrow> objs c' = objs c"
  by (auto simp: resourceFor_def split: prod.splits sum.splits if_splits dest: RESTMapping_keeps)

lemma resourceFor_namespace:
  "resourceFor L u c = (c', Inr (res, ns)) \<Longrightarrow> ns = None \<or> ns = Some (ko_namespace u) \<and> ko_namespace u \<noteq> []"
  by (auto simp: resourceFor_def split: prod.splits sum.splits if_splits)

lemma untouched_trans: "untouched objs A c c1 \<Longrightarrow> untouched objs B c1 c2 \<Longrightarrow> untouched objs (A \<union> B) c c2"
  by (simp add: untouched_def)

lemma untouched_refl [simp]: "objs c' = objs c \<Longrightarrow> untouched objs A c c'"
  by (simp add: untouched_def)

lemma placed_mono: "\<forall>k. objs c k \<noteq> None \<longrightarrow> objs c' k \<noteq> None \<Longrightarrow> placed objs c w \<Longrightarrow> placed objs c' w"
  unfolding placed_def by blast

lemma up_object_cases:
  assumes "up_object L u (c, r, fe) = (c', r', fe')"
  obtains (failed) t e where "r' = r\<lparr>Failed := (Failed r)(object_key u \<mapsto> t)\<rparr>"
      "fe' = (if fe = None then Some e else fe)" "untouched objs {ko_name u} c c'"
  | (applied) "r' = r\<lparr>Applied := Applied r @ [object_key u]\<rparr>" "fe' = fe" "untouched objs {ko_name u} c c'" "placed objs c' u"
      "\<forall>w. placed objs c w \<longrightarrow> placed objs c' w"
proof (cases "snd (resourceFor L u c)")
  case (Inl e)
  then obtain c1 where res: "resourceFor L u c = (c1, Inl e)" by (metis prod.collapse)
  with assms resourceFor_keeps [OF res] show ?thesis by (intro failed) (auto simp: up_object_def Let_def)
next
  case (Inr rn)
  obtain res ns where "rn = (res, ns)" by (cases rn)
  with Inr obtain c1 where rf: "resourceFor L u c = (c1, Inr (res, ns))" by (metis prod.collapse)
  have same: "objs c1 = objs c" by (rule resourceFor_keeps [OF rf])
  obtain c2 err where ap: "cl_apply L res ns u c1 = (c2, err)" by fastforce
  show ?thesis
  proof (cases err)
    case (Some e)
    have "untouched objs {ko_name u} c c2"
      using apply_failed [of res ns u c1 c2 e] ap Some same by (auto simp: untouched_def)
    with assms rf ap Some show ?thesis by (intro failed) (auto simp: up_object_def Let_def)
  next
    case None
    with apply_accepted [of res ns u c1 c2] ap same obtain obj where obj: "objs c2 = (objs c)((res, ns, ko_name u) \<mapsto> obj)" by auto
    have "placed objs c2 u" using obj resourceFor_namespace [OF rf] by (auto simp: placed_def)
    moreover have "placed objs c w \<longrightarrow> placed objs c2 w" for w using placed_mono [of c c2 w] obj by simp
    moreover have "untouched objs {ko_name u} c c2" using obj by (simp add: untouched_def)
    moreover have "r' = r\<lparr>Applied := Applied r @ [object_key u]\<rparr>" "fe' = fe" "c' = c2"
      using assms rf ap None by (simp_all add: up_object_def Let_def)
    ultimately show ?thesis by (intro applied) simp_all
  qed
qed

text \<open>The whole loop: it accounts for every object, and keeps an error exactly when something failed.\<close>

lemma up_loop:
  assumes "fold (up_object L) us (c, r, fe) = (c', r', fe')" and "fe = None \<longleftrightarrow> Failed r = Map.empty"
  shows "(fe' = None \<longleftrightarrow> Failed r' = Map.empty)
    \<and> set (Applied r') \<union> dom (Failed r') = set (Applied r) \<union> dom (Failed r) \<union> object_key ` set us
    \<and> untouched objs (ko_name ` set us) c c'
    \<and> (Failed r' = Map.empty \<longrightarrow> Failed r = Map.empty \<and> Applied r' = Applied r @ map object_key us
        \<and> (\<forall>u \<in> set us. placed objs c' u) \<and> (\<forall>w. placed objs c w \<longrightarrow> placed objs c' w))"
  using assms
proof (induction us arbitrary: c r fe)
  case (Cons u us)
  obtain c1 r1 fe1 where one: "up_object L u (c, r, fe) = (c1, r1, fe1)" by (metis prod_cases3)
  from Cons.prems(1) one have rest: "fold (up_object L) us (c1, r1, fe1) = (c', r', fe')" by simp
  from one show ?case
  proof (cases rule: up_object_cases [case_names failed applied])
    case (failed t e)
    then have "Failed r1 \<noteq> Map.empty" "fe1 \<noteq> None" by (auto simp: fun_eq_iff)
    then have "fe1 = None \<longleftrightarrow> Failed r1 = Map.empty" by simp
    note IH = Cons.IH [OF rest this]
    from IH \<open>Failed r1 \<noteq> Map.empty\<close> have "Failed r' \<noteq> Map.empty" by blast
    moreover have "untouched objs (ko_name ` set (u # us)) c c'"
      using untouched_trans [OF failed(3)] IH by simp
    moreover have "set (Applied r') \<union> dom (Failed r') = set (Applied r) \<union> dom (Failed r) \<union> object_key ` set (u # us)"
      using IH failed(1) by auto
    ultimately show ?thesis using IH by blast
  next
    case applied
    with Cons.prems(2) have "fe1 = None \<longleftrightarrow> Failed r1 = Map.empty" by simp
    note IH = Cons.IH [OF rest this]
    have "untouched objs (ko_name ` set (u # us)) c c'"
      using untouched_trans [OF applied(3)] IH by simp
    moreover have "set (Applied r') \<union> dom (Failed r') = set (Applied r) \<union> dom (Failed r) \<union> object_key ` set (u # us)"
      using IH applied(1) by auto
    moreover have "Failed r' = Map.empty \<Longrightarrow> Failed r = Map.empty \<and> Applied r' = Applied r @ map object_key (u # us)"
      using IH applied(1) by simp
    ultimately show ?thesis using IH applied(4,5) by auto
  qed
qed auto

end

context apiserver
begin

lemma down_loop_untouched: "down_loop L us c = (c', e) \<Longrightarrow> untouched objs (ko_name ` set us) c c'"
proof (induction us arbitrary: c)
  case (Cons u us)
  obtain c1 x where rf: "resourceFor L u c = (c1, x)" by fastforce
  have same: "objs c1 = objs c" by (rule resourceFor_keeps [OF rf])
  show ?case
  proof (cases x)
    case (Inl e1)
    with Cons.prems rf same show ?thesis by simp
  next
    case (Inr rn)
    obtain res ns c2 e2 where rn: "rn = (res, ns)" and del: "cl_delete L res ns (ko_name u) c1 = (c2, e2)"
      by (cases rn) fastforce
    have one: "untouched objs {ko_name u} c c2"
      using del delete_accepted [of res ns "ko_name u" c1 c2] delete_failed [of res ns "ko_name u" c1 c2] same
      by (cases e2) (auto simp: untouched_def)
    have "c' = c2 \<or> down_loop L us c2 = (c', e)"
      using Cons.prems rf Inr rn del by (auto split: option.splits if_splits)
    with one Cons.IH [of c2] untouched_trans [OF one] show ?thesis by (auto simp: untouched_def)
  qed
qed simp

lemma down_loop_absent_stays:
  "down_loop L us c = (c', None) \<Longrightarrow> objs c key = None \<Longrightarrow> objs c' key = None"
proof (induction us arbitrary: c)
  case (Cons u us)
  from Cons.prems(1) obtain c1 res ns c2 e2 where rf: "resourceFor L u c = (c1, Inr (res, ns))"
    and del: "cl_delete L res ns (ko_name u) c1 = (c2, e2)" and rest: "down_loop L us c2 = (c', None)"
    and nf: "\<forall>e. e2 = Some e \<longrightarrow> ke_not_found e"
    by (auto split: prod.splits sum.splits option.splits if_splits)
  have "objs c2 key = None"
    using resourceFor_keeps [OF rf] Cons.prems(2) del nf delete_accepted [of res ns "ko_name u" c1 c2]
      delete_failed [of res ns "ko_name u" c1 c2 _ key] delete_not_found [of res ns "ko_name u" c1 c2]
    by (cases e2; cases "key = (res, ns, ko_name u)") auto
  with Cons.IH rest show ?case by blast
qed simp

text \<open>After a successful removal each object is gone from the place it resolved to.\<close>

lemma down_loop_removed:
  "down_loop L us c = (c', None) \<Longrightarrow> u \<in> set us \<Longrightarrow>
     \<exists>res ns. (ns = None \<or> ns = Some (ko_namespace u) \<and> ko_namespace u \<noteq> []) \<and> objs c' (res, ns, ko_name u) = None"
proof (induction us arbitrary: c)
  case (Cons v us)
  from Cons.prems(1) obtain c1 res ns c2 e2 where rf: "resourceFor L v c = (c1, Inr (res, ns))"
    and del: "cl_delete L res ns (ko_name v) c1 = (c2, e2)" and rest: "down_loop L us c2 = (c', None)"
    and nf: "\<forall>e. e2 = Some e \<longrightarrow> ke_not_found e"
    by (auto split: prod.splits sum.splits option.splits if_splits)
  show ?case
  proof (cases "u = v")
    case True
    have "objs c2 (res, ns, ko_name v) = None"
      using del nf delete_accepted [of res ns "ko_name v" c1 c2] delete_not_found [of res ns "ko_name v" c1 c2]
      by (cases e2) auto
    with down_loop_absent_stays [OF rest] resourceFor_namespace [OF rf] True show ?thesis by blast
  next
    case False
    with Cons rest show ?thesis by auto
  qed
qed simp

lemma Up_facts:
  assumes "Up L kustomize dir c = (c', result, err)" and "buildPiece kustomize dir = Inr us"
  shows "untouched objs (ko_name ` set us) c c'"
    and "set (Applied result) \<union> dom (Failed result) = object_key ` set us"
    and "err = None \<longleftrightarrow> Failed result = Map.empty"
    and "err = None \<Longrightarrow> Applied result = map object_key us \<and> (\<forall>u \<in> set us. placed objs c' u)"
proof -
  obtain c1 r fe where run: "fold (up_object L) us (c, zero_result, None) = (c1, r, fe)" by (metis prod_cases3)
  have loop: "(fe = None \<longleftrightarrow> Failed r = Map.empty) \<and> set (Applied r) \<union> dom (Failed r) = object_key ` set us
      \<and> untouched objs (ko_name ` set us) c c1
      \<and> (Failed r = Map.empty \<longrightarrow> Applied r = map object_key us \<and> (\<forall>u \<in> set us. placed objs c1 u))"
    using up_loop [OF run] by (simp add: zero_result_def)
  have count: "failed_count us r = 0 \<longleftrightarrow> Failed r = Map.empty"
  proof
    assume "failed_count us r = 0"
    then have "\<forall>k \<in> object_key ` set us. Failed r k = None" by (simp add: failed_count_def filter_empty_conv)
    moreover have "dom (Failed r) \<subseteq> object_key ` set us" using loop by auto
    ultimately have "Failed r k = None" for k by (cases "k \<in> dom (Failed r)") auto
    then show "Failed r = Map.empty" by auto
  qed (simp add: failed_count_def)
  have out: "c' = c1" "result = r" "err = None \<longleftrightarrow> Failed r = Map.empty"
    using assms run loop count by (auto simp: Up_def split: if_splits)
  show "untouched objs (ko_name ` set us) c c'" "set (Applied result) \<union> dom (Failed result) = object_key ` set us"
    "err = None \<longleftrightarrow> Failed result = Map.empty"
    using loop out by simp_all
  show "Applied result = map object_key us \<and> (\<forall>u \<in> set us. placed objs c' u)" if "err = None"
    using loop out that by simp
qed

end

lemma PieceHealth_eq: "PieceHealth items = (list_all (\<lambda>i. fst (item_state i) = GREEN) items, map ladder_entry items)"
proof -
  have "fold (\<lambda>item (healthy, results). (healthy \<and> fst (item_state item) = GREEN, results @ [ladder_entry item])) items (h, rs)
      = (h \<and> list_all (\<lambda>i. fst (item_state i) = GREEN) items, rs @ map ladder_entry items)" for h rs
    by (induction items arbitrary: h rs) auto
  then show ?thesis by (simp add: PieceHealth_def)
qed

lemma liveItem_names: "liveItem L u c = (c', item) \<Longrightarrow> it_kind item = ko_kind u \<and> it_name item = ko_name u"
  by (auto simp: liveItem_def Let_def split: prod.splits sum.splits if_splits option.splits)

lemma live_items_names:
  "live_items L us c = (c', items) \<Longrightarrow> map it_kind items = map ko_kind us \<and> map it_name items = map ko_name us"
  by (induction us arbitrary: c c' items) (auto split: prod.splits dest: liveItem_names)

text \<open>The report of one piece: one rung per declared object, or one that says why the piece did not render.\<close>

definition reported :: "kerr + kobject list \<Rightarrow> string \<Rightarrow> ladderEntry list \<Rightarrow> bool" where
  "reported built p ladder =
     (case built of
        Inl e \<Rightarrow> ladder = [\<lparr>le_kind = ''piece'', le_name = p, le_state = INDETERMINATE, le_detail = ke_text e\<rparr>]
      | Inr us \<Rightarrow> map le_kind ladder = map ko_kind us \<and> map le_name ladder = map ko_name us)"

definition all_green :: "ladderEntry list \<Rightarrow> bool" where
  "all_green ladder = list_all (\<lambda>e. le_state e = GREEN) ladder"

text \<open>
  \<open>observed objs L c u\<close>: while the cluster held what it holds in \<open>c\<close>, a read of \<open>u\<close> was answered with a live object
  that, if \<open>u\<close> is a workload, had at least the replicas it wants ready.
\<close>

definition observed :: "('c \<Rightarrow> object_id \<Rightarrow> kobject option) \<Rightarrow> 'c cluster \<Rightarrow> 'c \<Rightarrow> kobject \<Rightarrow> bool" where
  "observed objs L c u \<longleftrightarrow>
     (\<exists>c1 res ns obj. objs c1 = objs c \<and> cl_get L res ns (ko_name u) c1 = Inr obj
        \<and> (ko_kind u = ''Deployment'' \<or> ko_kind u = ''StatefulSet'' \<longrightarrow>
             (case ko_replicas obj of None \<Rightarrow> 1 | Some n \<Rightarrow> to_int32 n) \<le> (case ko_ready obj of None \<Rightarrow> 0 | Some n \<Rightarrow> to_int32 n)))"

context apiserver
begin

lemma liveItem_keeps: "liveItem L u c = (c', item) \<Longrightarrow> objs c' = objs c"
  by (auto simp: liveItem_def Let_def split: prod.splits sum.splits if_splits dest: resourceFor_keeps)

lemma liveItem_green:
  assumes "liveItem L u c = (c', item)" and "fst (item_state item) = GREEN"
  shows "observed objs L c u"
proof -
  obtain c1 x where rf: "resourceFor L u c = (c1, x)" by fastforce
  from assms rf obtain res ns where x: "x = Inr (res, ns)"
    by (cases x) (auto simp: liveItem_def item_state_def Let_def split: if_splits)
  from assms rf x obtain obj where obj: "cl_get L res ns (ko_name u) c1 = Inr obj"
    by (cases "cl_get L res ns (ko_name u) c1") (auto simp: liveItem_def item_state_def Let_def split: if_splits)
  have "ko_kind u = ''Deployment'' \<or> ko_kind u = ''StatefulSet'' \<longrightarrow>
      (case ko_replicas obj of None \<Rightarrow> 1 | Some n \<Rightarrow> to_int32 n) \<le> (case ko_ready obj of None \<Rightarrow> 0 | Some n \<Rightarrow> to_int32 n)"
    using assms rf x obj
    by (cases "ko_replicas obj"; cases "ko_ready obj") (auto simp: liveItem_def item_state_def Let_def split: if_splits)
  with obj resourceFor_keeps [OF rf] show ?thesis by (auto simp: observed_def)
qed

lemma live_items_facts:
  "live_items L us c = (c', items) \<Longrightarrow>
     objs c' = objs c \<and> (list_all (\<lambda>i. fst (item_state i) = GREEN) items \<longrightarrow> (\<forall>u \<in> set us. observed objs L c u))"
proof (induction us arbitrary: c items)
  case (Cons u us)
  then obtain c1 item rest where one: "liveItem L u c = (c1, item)" and more: "live_items L us c1 = (c', rest)"
    and items: "items = item # rest" by (auto split: prod.splits)
  have "objs c1 = objs c" by (rule liveItem_keeps [OF one])
  with Cons.IH [OF more] liveItem_green [OF one] items show ?case by (auto simp: observed_def)
qed simp

text \<open>One turn of the health loop.\<close>

lemma health_loop_step:
  "\<exists>c1 ladder. health_loop L F (p # ps) c h rs = health_loop L F ps c1 (h \<and> all_green ladder) (rs(p \<mapsto> ladder))
     \<and> objs c1 = objs c \<and> reported (buildPiece (fu_kustomize F) (fp_join [fu_kubeDir F, p])) p ladder
     \<and> (all_green ladder \<longrightarrow>
          (\<exists>us. buildPiece (fu_kustomize F) (fp_join [fu_kubeDir F, p]) = Inr us \<and> (\<forall>u \<in> set us. observed objs L c u)))"
proof (cases "buildPiece (fu_kustomize F) (fp_join [fu_kubeDir F, p])")
  case (Inl e)
  then show ?thesis by (auto simp: Health_def reported_def all_green_def)
next
  case (Inr us)
  obtain c1 items where items: "live_items L us c = (c1, items)" by fastforce
  have "(if \<not> ok then False else h) = (h \<and> ok)" for ok by simp
  with Inr items live_items_names [OF items] live_items_facts [OF items] show ?thesis
    by (intro exI [of _ c1] exI [of _ "map ladder_entry items"])
      (simp add: Health_def PieceHealth_eq reported_def all_green_def list_all_iff ladder_entry_def comp_def)
qed

lemma health_loop_spec:
  assumes "health_loop L F ps c h rs = (c', h', rs')" and "distinct ps"
  shows "objs c' = objs c \<and> (\<forall>p. p \<notin> set ps \<longrightarrow> rs' p = rs p)
    \<and> (\<forall>p \<in> set ps. \<exists>ladder. rs' p = Some ladder \<and> reported (buildPiece (fu_kustomize F) (fp_join [fu_kubeDir F, p])) p ladder)
    \<and> (h' \<longleftrightarrow> h \<and> (\<forall>p \<in> set ps. all_green (the (rs' p))))
    \<and> (h' \<longrightarrow> (\<forall>p \<in> set ps. \<exists>us. buildPiece (fu_kustomize F) (fp_join [fu_kubeDir F, p]) = Inr us \<and> (\<forall>u \<in> set us. observed objs L c u)))"
  using assms
proof (induction ps arbitrary: c h rs)
  case (Cons p ps)
  obtain c1 ladder where step: "health_loop L F (p # ps) c h rs = health_loop L F ps c1 (h \<and> all_green ladder) (rs(p \<mapsto> ladder))"
    and same: "objs c1 = objs c" and rep: "reported (buildPiece (fu_kustomize F) (fp_join [fu_kubeDir F, p])) p ladder"
    and seen: "all_green ladder \<longrightarrow>
      (\<exists>us. buildPiece (fu_kustomize F) (fp_join [fu_kubeDir F, p]) = Inr us \<and> (\<forall>u \<in> set us. observed objs L c u))"
    using health_loop_step [of F p ps c h rs] by blast
  have obs: "observed objs L c1 = observed objs L c" using same by (simp add: observed_def fun_eq_iff)
  from Cons.prems step have "health_loop L F ps c1 (h \<and> all_green ladder) (rs(p \<mapsto> ladder)) = (c', h', rs')" by simp
  note IH = Cons.IH [OF this, unfolded obs same]
  from Cons.prems(2) have p: "p \<notin> set ps" "distinct ps" by simp_all
  from IH [OF p(2)] p(1) have here: "rs' p = Some ladder" by simp
  from IH [OF p(2)] here rep seen show ?case by auto
qed simp

end

lemma furnishPiece_Inr:
  "furnishPiece F name = Inr dir \<longleftrightarrow>
     (\<exists>ps. fu_pieces F = Inr ps \<and> name \<in> set ps) \<and> dir = fp_join [fu_kubeDir F, name]"
  by (auto simp: furnishPiece_def list_ex_iff split: sum.splits)

lemma furnishCluster_Inr: "furnishCluster F = Inr L \<longleftrightarrow> fu_client F = Some (Inr L)"
  by (auto simp: furnishCluster_def split: option.splits sum.splits)

lemma furnish_replies:
  "furnishPiece F name = Inl rep \<Longrightarrow> rp_status rep \<in> {404, 500} \<and> (\<exists>t. rp_body rep = Inl t)"
  "furnishCluster F = Inl rep \<Longrightarrow> rp_status rep = 503 \<and> (\<exists>t. rp_body rep = Inl t)"
  by (auto simp: furnishPiece_def furnishCluster_def writeError_def split: sum.splits option.splits if_splits)

lemma writeFurnishError_fields [simp]:
  "rp_status (writeFurnishError op piece t e extra) = (if ke_deadline e then 504 else if ke_api_status e then 502 else 500)"
  "\<exists>msg. rp_body (writeFurnishError op piece t e extra) = Inr (FFailure msg extra)"
  by (simp_all add: writeFurnishError_def writeJSON_def)

section \<open>A reference apiserver\<close>

text \<open>
  The objects by identity; every kind has a resource of its own name, \<^verbatim>\<open>ClusterRole\<close> is the one kind outside the
  namespaces. It accepts every object, and answers as the apiserver documents.
\<close>

type_synonym ref_objects = "object_id \<Rightarrow> kobject option"

definition not_found :: kerr where
  "not_found = \<lparr>ke_text = ''not found'', ke_not_found = True, ke_deadline = False, ke_api_status = True\<rparr>"

definition ref_cluster :: "ref_objects cluster" where
  "ref_cluster =
     \<lparr>cl_mapping = (\<lambda>g k v c. (c, Inr \<lparr>mp_resource = k, mp_scope = if k = ''ClusterRole'' then ScopeRoot else ScopeNamespace\<rparr>)),
      cl_reset = Some (\<lambda>c. c),
      cl_get = (\<lambda>res ns n c. case c (res, ns, n) of None \<Rightarrow> Inl not_found | Some obj \<Rightarrow> Inr obj),
      cl_apply = (\<lambda>res ns u c. (c((res, ns, ko_name u) \<mapsto> u), None)),
      cl_delete = (\<lambda>res ns n c. if c (res, ns, n) = None then (c, Some not_found) else (c((res, ns, n) := None), None))\<rparr>"

interpretation refapi: apiserver ref_cluster "\<lambda>c. c"
  by unfold_locales (auto simp: ref_cluster_def not_found_def split: if_splits)

section \<open>Properties\<close>


definition demo_deploy :: kobject where
  "demo_deploy = \<lparr>ko_group = ''apps'', ko_version = ''v1'', ko_kind = ''Deployment'', ko_namespace = ''fleet'',
     ko_name = ''kafka'', ko_replicas = Some 1, ko_ready = Some 1\<rparr>"

definition demo_furnishing :: "ref_objects furnishing" where
  "demo_furnishing = \<lparr>fu_kubeDir = ''/kube'', fu_pieces = Inr [''bus''], fu_kustomize = (\<lambda>_. Inr [Inr demo_deploy]),
     fu_client = Some (Inr ref_cluster)\<rparr>"

lemma demo_furnishing_facts:
  "fu_client demo_furnishing = Some (Inr ref_cluster)" "fu_pieces demo_furnishing = Inr [''bus'']"
  "buildPiece (fu_kustomize demo_furnishing) dir = Inr [demo_deploy]"
  by (simp_all add: demo_furnishing_def buildPiece_def)




text \<open>
  removing a piece touches only objects with its names; a 200 means that each declared object is gone from the
  place it resolved to, whether it was there before or not.
\<close>

theorem furnish_down_removes:
  assumes "apiserver L objs" and "fu_client F = Some (Inr L)" and "fu_pieces F = Inr pieces" and "name \<in> set pieces"
    and "buildPiece (fu_kustomize F) (fp_join [fu_kubeDir F, name]) = Inr us"
    and "handleFurnishDown F name c = (c', rep)"
  shows "untouched objs (ko_name ` set us) c c' \<and> rp_status rep \<in> {200, 500, 502, 504}
    \<and> (rp_status rep = 200 \<longrightarrow> (\<forall>u \<in> set us. \<exists>res ns.
          (ns = None \<or> ns = Some (ko_namespace u) \<and> ko_namespace u \<noteq> []) \<and> objs c' (res, ns, ko_name u) = None))"
proof -
  obtain c1 err where down: "down_loop L us c = (c1, err)" by fastforce
  have dir: "furnishPiece F name = Inr (fp_join [fu_kubeDir F, name])" using assms(3,4) by (simp add: furnishPiece_Inr)
  have out: "(c', rep) = (c1, case err of None \<Rightarrow> writeJSON 200 (FDown name)
      | Some e \<Rightarrow> writeFurnishError ''furnish.down'' name furnishMutateTimeout e None)"
    using assms(2,5) dir down by (cases err) (simp_all flip: assms(6) add: handleFurnishDown_def furnishCluster_def Down_def)
  then have c': "c' = c1" by simp
  have st: "rp_status rep \<in> {200, 500, 502, 504}" "rp_status rep = 200 \<longrightarrow> err = None"
    using out by (cases err; simp add: writeJSON_def)+
  show ?thesis
    using apiserver.down_loop_untouched [OF assms(1) down] apiserver.down_loop_removed [OF assms(1), of us c c'] c' st down
    by auto
qed

theorem furnish_down_removes_witness:
  "fst (handleFurnishDown demo_furnishing ''bus'' Map.empty) (''Service'', Some ''fleet'', ''ui'') = None"
proof -
  have "''bus'' \<in> set [''bus'']" by simp
  from furnish_down_removes [OF refapi.apiserver_axioms demo_furnishing_facts(1,2) this demo_furnishing_facts(3) surjective_pairing,
      of Map.empty]
  show ?thesis by (simp add: untouched_def demo_deploy_def)
qed

end
