(* ===== verification/Events.thy ===== *)
theory Events
  imports Prelude
begin

text \<open>
  The Kafka publisher of \<^verbatim>\<open>pkg/events/publisher.go\<close>: the lazy registration of the schema and the hand-built
  Confluent frame. The registry, the broker and protobuf's serializer are not part of the
  repository and answer through arguments; \<open>decode_frame\<close> is the reader's side of the format the
  source documents.
\<close>

section \<open>Wire framing\<close>

definition wireMagicByte :: nat where
  "wireMagicByte = 0"

text \<open>\<^verbatim>\<open>binary.BigEndian.PutUint32\<close> of \<^verbatim>\<open>uint32(schemaID)\<close>: the conversion keeps the 32 bits of the signed id.\<close>

definition putUint32 :: "32 word \<Rightarrow> nat list" where
  "putUint32 w = [unat (drop_bit 24 w) mod 256, unat (drop_bit 16 w) mod 256, unat (drop_bit 8 w) mod 256, unat w mod 256]"

definition encode :: "('m \<Rightarrow> string + nat list) \<Rightarrow> int \<Rightarrow> 'm \<Rightarrow> string + nat list" where
  "encode marshal schemaID ev =
     (case marshal ev of
        Inl err \<Rightarrow> Inl err
      | Inr payload \<Rightarrow> Inr ([wireMagicByte] @ putUint32 (word_of_int schemaID) @ [0] @ payload))"

text \<open>What a consumer of the format reads: magic, big-endian id, the one-byte message index, payload.\<close>

fun decode_frame :: "nat list \<Rightarrow> (int \<times> nat list) option" where
  "decode_frame (m # a # b # c # d # i # payload) =
     (if m = wireMagicByte \<and> i = 0 then
        Some (sint (word_of_nat (((a * 256 + b) * 256 + c) * 256 + d) :: 32 word), payload)
      else None)"
| "decode_frame _ = None"

section \<open>Registration\<close>

text \<open>The registry's answer to the POST: a transport error, or the status, its body and the decoded id.\<close>

datatype sr_answer = SrTransport string | SrReply nat string "string + int"

definition backupEventSubject :: string where
  "backupEventSubject = ''delight.v1.BackupEvent''"

record publisher =
  pb_schemaRegistryURL :: string
  pb_topic :: string
  pb_schemaText :: string
  pb_schemaID :: int
  pb_registered :: bool

text \<open>
  \<open>post\<close> is the request: URL and schema text. The id is an \<^verbatim>\<open>int32\<close>; JSON that does not decode into it is an error.
\<close>

definition registerSchema :: "(string \<Rightarrow> string \<Rightarrow> sr_answer) \<Rightarrow> publisher \<Rightarrow> string + int" where
  "registerSchema post p =
     (case post (trimRightChar (CHR ''/'') (pb_schemaRegistryURL p) @ ''/subjects/'' @ backupEventSubject @ ''/versions'')
             (pb_schemaText p) of
        SrTransport err \<Rightarrow> Inl err
      | SrReply status body out \<Rightarrow>
          if status \<noteq> 200 then Inl (''registry returned '' @ showNat status @ '': '' @ trimSpace body)
          else out)"

definition ensureRegistered :: "(string \<Rightarrow> string \<Rightarrow> sr_answer) \<Rightarrow> publisher \<Rightarrow> publisher \<times> string option" where
  "ensureRegistered post p =
     (if pb_registered p then (p, None)
      else
        (case registerSchema post p of
           Inl err \<Rightarrow> (p, Some err)
         | Inr sid \<Rightarrow> (p\<lparr>pb_schemaID := sid, pb_registered := True\<rparr>, None)))"

section \<open>Publishing\<close>

text \<open>A record for the broker.\<close>

record kgo_record =
  kr_topic :: string
  kr_key :: string
  kr_value :: "nat list"

text \<open>
  \<open>PublishBackup\<close> on a publisher that may be nil, with what the broker has received so far; \<open>produce\<close> answers with the
  error of the synchronous produce, if any.
\<close>

definition PublishBackup ::
  "(string \<Rightarrow> string \<Rightarrow> sr_answer) \<Rightarrow> ('m \<Rightarrow> string + nat list) \<Rightarrow> (kgo_record \<Rightarrow> string option) \<Rightarrow> ('m \<Rightarrow> string) \<Rightarrow> 'm
   \<Rightarrow> publisher option \<times> kgo_record list \<Rightarrow> (publisher option \<times> kgo_record list) \<times> string option" where
  "PublishBackup post marshal produce project ev s =
     (case s of
        (None, log) \<Rightarrow> (s, None)
      | (Some p, log) \<Rightarrow>
          (case ensureRegistered post p of
             (p1, Some err) \<Rightarrow> ((Some p1, log), Some (''schema registration: '' @ err))
           | (p1, None) \<Rightarrow>
               (case encode marshal (pb_schemaID p1) ev of
                  Inl err \<Rightarrow> ((Some p1, log), Some err)
                | Inr frame \<Rightarrow>
                    (let rec = \<lparr>kr_topic = pb_topic p1, kr_key = project ev, kr_value = frame\<rparr>
                     in case produce rec of
                          Some err \<Rightarrow> ((Some p1, log), Some err)
                        | None \<Rightarrow> ((Some p1, log @ [rec]), None)))))"

text \<open>
  \<open>New\<close>: no brokers, a client that cannot be built and one that cannot ping are errors; the caller then goes on
  with a nil publisher.
\<close>

definition NewPublisher ::
  "string list \<Rightarrow> string option \<Rightarrow> string option \<Rightarrow> string \<Rightarrow> string \<Rightarrow> string \<Rightarrow> string + publisher" where
  "NewPublisher brokers clientErr pingErr url topic schemaText =
     (if brokers = [] then Inl ''no kafka brokers configured''
      else
        (case clientErr of
           Some e \<Rightarrow> Inl e
         | None \<Rightarrow>
             (case pingErr of
                Some e \<Rightarrow> Inl (''kafka unreachable: '' @ e)
              | None \<Rightarrow> Inr \<lparr>pb_schemaRegistryURL = url, pb_topic = topic, pb_schemaText = schemaText, pb_schemaID = 0,
                             pb_registered = False\<rparr>)))"

section \<open>Facts\<close>

lemma byte_split: "n < 4294967296 \<Longrightarrow>
  ((n div 16777216 mod 256 * 256 + n div 65536 mod 256) * 256 + n div 256 mod 256) * 256 + n mod 256 = (n :: nat)"
proof -
  assume lt: "n < 4294967296"
  have q: "n div 65536 = n div 256 div 256" "n div 16777216 = n div 256 div 256 div 256" by (simp_all flip: div_mult2_eq)
  have "n div 16777216 < 256" using lt by simp
  then have top: "n div 16777216 mod 256 = n div 256 div 256 div 256" using q(2) by simp
  have "n div 256 div 256 div 256 * 256 + n div 256 div 256 mod 256 = n div 256 div 256"
    and "n div 256 div 256 * 256 + n div 256 mod 256 = n div 256" and "n div 256 * 256 + n mod 256 = n"
    by (rule div_mult_mod_eq)+
  then show ?thesis unfolding top q(1) by simp
qed

lemma unat_bytes: "((unat (drop_bit 24 w) mod 256 * 256 + unat (drop_bit 16 w) mod 256) * 256
    + unat (drop_bit 8 w) mod 256) * 256 + unat w mod 256 = unat (w :: 32 word)"
proof -
  have "unat w < 2 ^ LENGTH(32)" by (rule unsigned_less)
  then have "unat w < 4294967296" by simp
  moreover have "unat (drop_bit n w) = unat w div 2 ^ n" for n
    unfolding unsigned_drop_bit_eq using \<open>unat w < 2 ^ LENGTH(32)\<close>
    by (simp add: drop_bit_eq_div take_bit_nat_eq_self)
  ultimately show ?thesis using byte_split [of "unat w"] by simp
qed

lemma decode_encode:
  assumes "encode marshal schemaID ev = Inr frame"
  shows "\<exists>payload. marshal ev = Inr payload \<and>
    decode_frame frame = Some (sint (word_of_int schemaID :: 32 word), payload) \<and> length frame = 6 + length payload"
proof -
  let ?w = "word_of_int schemaID :: 32 word"
  obtain payload where p: "marshal ev = Inr payload" and f: "frame = [wireMagicByte] @ putUint32 ?w @ [0] @ payload"
    using assms by (auto simp: encode_def split: sum.splits)
  have "word_of_nat (((unat (drop_bit 24 ?w) mod 256 * 256 + unat (drop_bit 16 ?w) mod 256) * 256
      + unat (drop_bit 8 ?w) mod 256) * 256 + unat ?w mod 256) = ?w"
    unfolding unat_bytes by simp
  with p f show ?thesis by (simp add: putUint32_def wireMagicByte_def del: of_nat_add of_nat_mult)
qed

lemma sint_int32: "- (2 ^ 31) \<le> i \<Longrightarrow> i < 2 ^ 31 \<Longrightarrow> sint (word_of_int i :: 32 word) = i"
  by (simp add: sint_sbintrunc' signed_take_bit_int_eq_self)

text \<open>What every run keeps: once registered, the id is one the registry gave, and every record in the log carries it.\<close>

definition pub_ok :: "('m \<Rightarrow> string + nat list) \<Rightarrow> publisher option \<times> kgo_record list \<Rightarrow> bool" where
  "pub_ok marshal s \<longleftrightarrow>
     (case s of
        (None, log) \<Rightarrow> log = []
      | (Some p, log) \<Rightarrow>
          (pb_registered p \<longrightarrow> - (2 ^ 31) \<le> pb_schemaID p \<and> pb_schemaID p < 2 ^ 31) \<and>
          (log \<noteq> [] \<longrightarrow> pb_registered p) \<and>
          (\<forall>rec \<in> set log. kr_topic rec = pb_topic p \<and>
             (\<exists>ev payload. marshal ev = Inr payload \<and> decode_frame (kr_value rec) = Some (pb_schemaID p, payload))))"

definition pub_start :: "publisher option \<times> kgo_record list \<Rightarrow> bool" where
  "pub_start s \<longleftrightarrow> snd s = [] \<and> (fst s = None \<or> (\<exists>p. fst s = Some p \<and> \<not> pb_registered p))"

text \<open>\<^verbatim>\<open>json.Decoder\<close> fills an \<^verbatim>\<open>int32\<close> or fails: an id it yields fits.\<close>

definition int32_ids :: "(string \<Rightarrow> string \<Rightarrow> sr_answer) \<Rightarrow> bool" where
  "int32_ids post \<longleftrightarrow> (\<forall>url body status text sid. post url body = SrReply status text (Inr sid) \<longrightarrow> - (2 ^ 31) \<le> sid \<and> sid < 2 ^ 31)"

inductive pub_step ::
  "('m \<Rightarrow> string + nat list) \<Rightarrow> publisher option \<times> kgo_record list \<Rightarrow> publisher option \<times> kgo_record list \<Rightarrow> bool"
  for marshal :: "'m \<Rightarrow> string + nat list" where
  publish: "int32_ids post \<Longrightarrow> pub_step marshal s (fst (PublishBackup post marshal produce project ev s))"

lemma ensureRegistered_cases:
  assumes "ensureRegistered post p = (p1, e)"
  shows "pb_topic p1 = pb_topic p" and "e = None \<Longrightarrow> pb_registered p1"
    and "pb_registered p \<Longrightarrow> p1 = p \<and> e = None"
    and "int32_ids post \<Longrightarrow> \<not> pb_registered p \<Longrightarrow> pb_registered p1 \<Longrightarrow> - (2 ^ 31) \<le> pb_schemaID p1 \<and> pb_schemaID p1 < 2 ^ 31"
  using assms
  by (auto simp: ensureRegistered_def registerSchema_def int32_ids_def split: if_splits sum.splits sr_answer.splits)

lemma pub_step_ok:
  assumes "pub_step marshal s t" and "pub_ok marshal s"
  shows "pub_ok marshal t"
  using assms
proof (cases rule: pub_step.cases)
  case (publish post produce project ev)
  show ?thesis
  proof (cases "fst s")
    case None
    with publish assms(2) show ?thesis by (cases s) (simp add: PublishBackup_def pub_ok_def)
  next
    case (Some p)
    obtain log where s: "s = (Some p, log)" using Some by (cases s) simp
    obtain p1 e where reg: "ensureRegistered post p = (p1, e)" by fastforce
    note R = ensureRegistered_cases [OF reg]
    have range: "pb_registered p1 \<longrightarrow> - (2 ^ 31) \<le> pb_schemaID p1 \<and> pb_schemaID p1 < 2 ^ 31"
      using assms(2) s R(3) R(4) [OF publish(2)] by (cases "pb_registered p") (auto simp: pub_ok_def)
    have keep: "pub_ok marshal (Some p1, log)"
      using assms(2) s R(1,3) range by (cases "log = []") (auto simp: pub_ok_def)
    show ?thesis
    proof (cases "t = (Some p1, log)")
      case False
      with publish s reg obtain frame where "e = None" and enc: "encode marshal (pb_schemaID p1) ev = Inr frame"
        and t: "t = (Some p1, log @ [\<lparr>kr_topic = pb_topic p1, kr_key = project ev, kr_value = frame\<rparr>])"
        by (auto simp: PublishBackup_def Let_def split: option.splits sum.splits)
      have "pb_registered p1" by (rule R(2) [OF \<open>e = None\<close>])
      with range sint_int32 have "sint (word_of_int (pb_schemaID p1) :: 32 word) = pb_schemaID p1" by blast
      with decode_encode [OF enc] keep t \<open>pb_registered p1\<close> show ?thesis by (auto simp: pub_ok_def)
    qed (use keep in simp)
  qed
qed

interpretation pub: invariant_system pub_start "pub_step marshal" "pub_ok marshal" for marshal
proof unfold_locales
  fix s :: "publisher option \<times> kgo_record list"
  assume "pub_start s"
  then show "pub_ok marshal s" by (cases s) (auto simp: pub_start_def pub_ok_def)
qed (rule pub_step_ok)

section \<open>Properties\<close>


definition demo_publisher :: publisher where
  "demo_publisher = \<lparr>pb_schemaRegistryURL = ''http://sr/'', pb_topic = ''delight'', pb_schemaText = ''syntax'', pb_schemaID = 0,
     pb_registered = False\<rparr>"

definition demo_publish :: "(publisher option \<times> kgo_record list) \<times> string option" where
  "demo_publish = PublishBackup (\<lambda>_ _. SrReply 200 [] (Inr 305419896)) Inr (\<lambda>_. None) (\<lambda>_. ''obs'') [7, 8]
     (Some demo_publisher, [])"

lemma demo_id: "putUint32 305419896 = [18, 52, 86, 120]"
  by (simp add: putUint32_def)


text \<open>
  an outage heals by itself: a publish while the registry is down is answered with an error and changes nothing,
  the first publish after it answers registers the schema and delivers, and from then on the
  registry is not asked again, whatever it would answer.
\<close>

theorem publisher_heals:
  assumes "\<not> pb_registered p" and "registerSchema down p = Inl e" and "registerSchema up p = Inr sid"
    and "marshal ev = Inr payload" and "marshal ev2 = Inr payload2"
  shows "PublishBackup down marshal produce project ev (Some p, log) = ((Some p, log), Some (''schema registration: '' @ e))
    \<and> (\<exists>p1 r1. PublishBackup up marshal (\<lambda>_. None) project ev (Some p, log) = ((Some p1, log @ [r1]), None)
        \<and> pb_schemaID p1 = sid \<and> kr_key r1 = project ev
        \<and> (\<exists>r2. PublishBackup post marshal (\<lambda>_. None) project ev2 (Some p1, log2) = ((Some p1, log2 @ [r2]), None)
            \<and> decode_frame (kr_value r2) = Some (sint (word_of_int sid :: 32 word), payload2)))"
proof -
  let ?p1 = "p\<lparr>pb_schemaID := sid, pb_registered := True\<rparr>"
  obtain f1 where f1: "encode marshal sid ev = Inr f1" using assms(4) by (simp add: encode_def)
  obtain f2 where f2: "encode marshal sid ev2 = Inr f2" using assms(5) by (simp add: encode_def)
  have up: "PublishBackup up marshal (\<lambda>_. None) project ev (Some p, log) =
      ((Some ?p1, log @ [\<lparr>kr_topic = pb_topic p, kr_key = project ev, kr_value = f1\<rparr>]), None)"
    using assms(1,3) f1 by (simp add: PublishBackup_def ensureRegistered_def)
  have again: "PublishBackup post marshal (\<lambda>_. None) project ev2 (Some ?p1, log2) =
      ((Some ?p1, log2 @ [\<lparr>kr_topic = pb_topic p, kr_key = project ev2, kr_value = f2\<rparr>]), None)"
    using f2 by (simp add: PublishBackup_def ensureRegistered_def)
  have "PublishBackup down marshal produce project ev (Some p, log) = ((Some p, log), Some (''schema registration: '' @ e))"
    using assms(1,2) by (simp add: PublishBackup_def ensureRegistered_def)
  with up again decode_encode [OF f2] assms(5) show ?thesis by auto
qed

theorem publisher_heals_witness:
  "fst (PublishBackup (\<lambda>_ _. SrTransport ''refused'') Inr (\<lambda>_. None) (\<lambda>_. ''obs'') [7] (Some demo_publisher, [])) = (Some demo_publisher, [])"
proof -
  have "\<not> pb_registered demo_publisher" by (simp add: demo_publisher_def)
  moreover have "registerSchema (\<lambda>_ _. SrTransport ''refused'') demo_publisher = Inl ''refused''"
    and "registerSchema (\<lambda>_ _. SrReply 200 [] (Inr 5)) demo_publisher = Inr 5"
    by (simp_all add: registerSchema_def)
  ultimately show ?thesis
    using publisher_heals [where marshal = Inr and ev = "[7]" and ?ev2.0 = "[8]"] by fastforce
qed

end
