(* ===== verification/Model.thy ===== *)
theory Model
  imports Auth Paths
begin

text \<open>
  Hosted models as deployments: \<^verbatim>\<open>pkg/model\<close> (descriptor, health ladder, lifecycle plans, LiteLLM rendering) and
  the commands of \<^verbatim>\<open>cmd/delightd/model.go\<close>. Architecture, role and backend are Go string types, so
  any string is representable and the validation refuses the others. The YAML decoder, the file
  system and the network answer through arguments; a text built by \<^verbatim>\<open>Sprintf\<close> is its format and
  its values.
\<close>

section \<open>Descriptors\<close>

definition ArchDecode :: string where
  "ArchDecode = ''decode''"

definition architectures :: "string list" where
  "architectures = [''encode'', ''encode-decode'', ArchDecode]"

definition roles :: "string list" where
  "roles = [''chat'', ''completion'', ''embedding'']"

definition BackendOllama :: string where
  "BackendOllama = ''ollama''"

definition BackendXinference :: string where
  "BackendXinference = ''xinference''"

definition BackendLlamaCPP :: string where
  "BackendLlamaCPP = ''llama-cpp''"

definition BackendTransformers :: string where
  "BackendTransformers = ''transformers''"

definition backends :: "string list" where
  "backends = [BackendOllama, BackendXinference, BackendLlamaCPP, BackendTransformers]"

fun oneOf :: "'a \<Rightarrow> 'a list \<Rightarrow> bool" where
  "oneOf v [] = False"
| "oneOf v (a # allowed) = (if v = a then True else oneOf v allowed)"

record TraefikRoute =
  tr_host :: string
  tr_path_prefix :: string
  tr_service_port :: int

definition validateRoute :: "TraefikRoute \<Rightarrow> string \<Rightarrow> errtext option" where
  "validateRoute r deployment =
     (if trimSpace (tr_host r) = [] then Some (Fmt ''deployment %q: traefik_route.host is required'' [deployment])
      else if tr_service_port r < 1 \<or> tr_service_port r > 65535 then
        Some (Fmt ''deployment %q: traefik_route.service_port %d out of range 1..65535'' [deployment, showInt (tr_service_port r)])
      else None)"

record DeploymentDescriptor =
  dd_name :: string
  dd_location :: string
  dd_architecture :: string
  dd_role :: string
  dd_backend :: string
  dd_route :: TraefikRoute
  dd_context_window :: int
  dd_litellm_model_name :: string

definition servedByOllama :: "DeploymentDescriptor \<Rightarrow> bool" where
  "servedByOllama d \<longleftrightarrow> dd_backend d = BackendOllama"

definition validateRequired :: "DeploymentDescriptor \<Rightarrow> errtext option" where
  "validateRequired d =
     (if trimSpace (dd_name d) = [] then Some (Msg ''deployment: name is required'')
      else if trimSpace (dd_location d) = [] then Some (Fmt ''deployment %q: location is required'' [dd_name d])
      else if dd_context_window d < 0 then
        Some (Fmt ''deployment %q: context_window %d must be >= 1'' [dd_name d, showInt (dd_context_window d)])
      else None)"

definition validateEnums :: "DeploymentDescriptor \<Rightarrow> errtext option" where
  "validateEnums d =
     (if \<not> oneOf (dd_architecture d) architectures then
        Some (Fmt ''deployment %q: invalid architecture %q (want encode|encode-decode|decode)'' [dd_name d, dd_architecture d])
      else if \<not> oneOf (dd_role d) roles then
        Some (Fmt ''deployment %q: invalid role %q (want chat|completion|embedding)'' [dd_name d, dd_role d])
      else if \<not> oneOf (dd_backend d) backends then
        Some (Fmt ''deployment %q: invalid backend %q (want ollama|xinference|llama-cpp|transformers)'' [dd_name d, dd_backend d])
      else None)"

definition validateCoherence :: "DeploymentDescriptor \<Rightarrow> errtext option" where
  "validateCoherence d =
     (if servedByOllama d \<and> dd_architecture d \<noteq> ArchDecode then
        Some (Fmt (''deployment %q: backend 'ollama' serves decoder-only models; architecture %q must use 'xinference' or '' @ [CHR 0x27] @ ''transformers'' @ [CHR 0x27])
          [dd_name d, dd_architecture d])
      else None)"

definition ValidateDescriptor :: "DeploymentDescriptor \<Rightarrow> errtext option" where
  "ValidateDescriptor d =
     (case validateRequired d of
        Some e \<Rightarrow> Some e
      | None \<Rightarrow>
          (case validateEnums d of
             Some e \<Rightarrow> Some e
           | None \<Rightarrow>
               (case validateRoute (dd_route d) (dd_name d) of
                  Some e \<Rightarrow> Some e
                | None \<Rightarrow> validateCoherence d)))"

definition ResolvedLiteLLMModelName :: "DeploymentDescriptor \<Rightarrow> string" where
  "ResolvedLiteLLMModelName d =
     (if dd_litellm_model_name d \<noteq> [] then dd_litellm_model_name d
      else if servedByOllama d then ''ollama/'' @ dd_location d
      else ''openai/'' @ dd_name d)"

definition IsHFCacheLocation :: "DeploymentDescriptor \<Rightarrow> bool" where
  "IsHFCacheLocation d \<longleftrightarrow>
     hasPrefix (dd_location d) ''/'' \<or> hasSuffix (dd_location d) ''.gguf'' \<or> containsSub (dd_location d) ''huggingface''"

section \<open>Deployment sets\<close>

text \<open>The loop of \<^verbatim>\<open>DeploymentSet.Validate\<close> with the names seen so far.\<close>

fun validate_set :: "string set \<Rightarrow> DeploymentDescriptor list \<Rightarrow> errtext option" where
  "validate_set seen [] = None"
| "validate_set seen (d # ds) =
     (case ValidateDescriptor d of
        Some e \<Rightarrow> Some e
      | None \<Rightarrow>
          if dd_name d \<in> seen then Some (Fmt ''duplicate deployment name: %q'' [dd_name d])
          else validate_set (insert (dd_name d) seen) ds)"

definition ValidateSet :: "DeploymentDescriptor list \<Rightarrow> errtext option" where
  "ValidateSet ds = validate_set {} ds"

fun ByName :: "DeploymentDescriptor list \<Rightarrow> string \<Rightarrow> DeploymentDescriptor option" where
  "ByName [] name = None"
| "ByName (d # ds) name = (if dd_name d = name then Some d else ByName ds name)"

datatype LoadSetError = OpenSet string | ParseSet string | InvalidSet errtext

definition LoadDeploymentSet ::
  "(string \<Rightarrow> string + 'f) \<Rightarrow> ('f \<Rightarrow> string + DeploymentDescriptor list) \<Rightarrow> string \<Rightarrow> LoadSetError + DeploymentDescriptor list" where
  "LoadDeploymentSet openFile decodeYaml path =
     (case openFile path of
        Inl err \<Rightarrow> Inl (OpenSet err)
      | Inr f \<Rightarrow>
          (case decodeYaml f of
             Inl err \<Rightarrow> Inl (ParseSet err)
           | Inr ds \<Rightarrow> (case ValidateSet ds of Some err \<Rightarrow> Inl (InvalidSet err) | None \<Rightarrow> Inr ds)))"

section \<open>Plans\<close>

record UpPlan =
  up_deployment :: string
  up_backend :: string
  up_architecture :: string
  up_role :: string
  up_binds_to :: string
  up_route :: TraefikRoute
  up_location :: string
  up_litellm :: string
  up_steps :: "errtext list"

record DownPlan =
  dn_deployment :: string
  dn_backend :: string
  dn_steps :: "errtext list"

definition up_recipe :: "DeploymentDescriptor \<Rightarrow> errtext list \<times> string" where
  "up_recipe d =
     (if dd_backend d = BackendOllama then
        ([Fmt ''ollama list | grep -q %q || ollama create %q -f modelfiles/%s.Modelfile'' [dd_location d, dd_location d, dd_name d],
          Fmt ''ollama ps | grep -q %q || ollama run %q --keepalive 30m </dev/null'' [dd_location d, dd_location d]],
         ''ollama (bare-metal, Metal)'')
      else if dd_backend d = BackendTransformers then
        ([Fmt ''test -e %q  # weights present for the in-process consumer to load'' [dd_location d]],
         ''transformers/MLX, in-process in the consumer (no standalone server)'')
      else if dd_backend d = BackendLlamaCPP then
        ([Fmt ''llama-server -m %q --host 127.0.0.1 --port %d -ngl 999'' [dd_location d, showInt (tr_service_port (dd_route d))]],
         ''llama.cpp server (bare-metal, Metal)'')
      else if dd_backend d = BackendXinference then
        ([Msg ''# xinference container register -- not wired yet''], ''xinference (container) -- not wired'')
      else ([], []))"

definition BringUp :: "DeploymentDescriptor \<Rightarrow> UpPlan" where
  "BringUp d =
     \<lparr>up_deployment = dd_name d, up_backend = dd_backend d, up_architecture = dd_architecture d, up_role = dd_role d,
      up_binds_to = snd (up_recipe d), up_route = dd_route d, up_location = dd_location d,
      up_litellm = ResolvedLiteLLMModelName d, up_steps = fst (up_recipe d)\<rparr>"

definition Teardown :: "DeploymentDescriptor \<Rightarrow> DownPlan" where
  "Teardown d =
     \<lparr>dn_deployment = dd_name d, dn_backend = dd_backend d, dn_steps =
       (if dd_backend d = BackendOllama then
          [Fmt ''ollama stop %q  # unload from RAM; registration and weights stay'' [dd_location d]]
        else if dd_backend d = BackendTransformers then
          [Msg ''# nothing to stop -- the model is loaded inside the consumer's process'']
        else if dd_backend d = BackendLlamaCPP then
          [Fmt ''pkill -f 'port %d'  # stop the bare-metal server'' [showInt (tr_service_port (dd_route d))]]
        else if dd_backend d = BackendXinference then [Msg ''# xinference container stop -- not wired yet'']
        else [])\<rparr>"

record Probe =
  pr_url :: string
  pr_reachable :: bool
  pr_status :: nat
  pr_error :: string

definition base_url :: "TraefikRoute \<Rightarrow> string" where
  "base_url r = ''http://'' @ tr_host r @ '':'' @ showInt (tr_service_port r)"

definition HealthURL :: "DeploymentDescriptor \<Rightarrow> string" where
  "HealthURL d =
     (if dd_backend d = BackendOllama then base_url (dd_route d) @ ''/''
      else base_url (dd_route d) @ ''/health'')"

definition ProbeURL :: "(string \<Rightarrow> string + nat) \<Rightarrow> string \<Rightarrow> Probe" where
  "ProbeURL httpGet url =
     (case httpGet url of
        Inl err \<Rightarrow> \<lparr>pr_url = url, pr_reachable = False, pr_status = 0, pr_error = ''unreachable''\<rparr>
      | Inr status \<Rightarrow> \<lparr>pr_url = url, pr_reachable = True, pr_status = status, pr_error = []\<rparr>)"

section \<open>The health ladder\<close>

datatype Health = StateUnspecified | StateGreen | StateYellow | StateRed | StateExhausted

text \<open>The numbers of the contract enum are its severity, and \<^verbatim>\<open>worstState\<close> compares them.\<close>

definition severity :: "Health \<Rightarrow> nat" where
  "severity h = (case h of
      StateUnspecified \<Rightarrow> 0 | StateGreen \<Rightarrow> 1 | StateYellow \<Rightarrow> 2 | StateRed \<Rightarrow> 3 | StateExhausted \<Rightarrow> 4)"

lemma severity_inject [simp]: "severity a = severity b \<longleftrightarrow> a = b"
  by (cases a; cases b) (simp_all add: severity_def)

instantiation Health :: linorder
begin

definition less_eq_Health :: "Health \<Rightarrow> Health \<Rightarrow> bool" where
  "less_eq_Health a b \<longleftrightarrow> severity a \<le> severity b"

definition less_Health :: "Health \<Rightarrow> Health \<Rightarrow> bool" where
  "less_Health a b \<longleftrightarrow> severity a < severity b"

instance
proof
  fix a b c :: Health
  show "(a < b) = (a \<le> b \<and> \<not> b \<le> a)" by (auto simp: less_eq_Health_def less_Health_def)
  show "a \<le> a" by (simp add: less_eq_Health_def)
  show "a \<le> b \<Longrightarrow> b \<le> c \<Longrightarrow> a \<le> c" by (simp add: less_eq_Health_def)
  show "a \<le> b \<Longrightarrow> b \<le> a \<Longrightarrow> a = b" by (simp add: less_eq_Health_def flip: severity_inject)
  show "a \<le> b \<or> b \<le> a" by (auto simp: less_eq_Health_def)
qed

end

datatype HealthTier = TierDeclared | TierReachable

record TierResult =
  t_tier :: HealthTier
  t_state :: Health
  t_detail :: string

record LadderReport =
  lr_deployment :: string
  lr_backend :: string
  lr_overall :: Health
  lr_tiers :: "TierResult list"

text \<open>\<open>stat\<close> answers whether the path is there.\<close>

definition tierDeclared :: "(string \<Rightarrow> bool) \<Rightarrow> DeploymentDescriptor \<Rightarrow> TierResult" where
  "tierDeclared stat d =
     (if IsHFCacheLocation d then
        if \<not> stat (dd_location d) then
          \<lparr>t_tier = TierDeclared, t_state = StateRed, t_detail = ''weights not found at '' @ dd_location d\<rparr>
        else \<lparr>t_tier = TierDeclared, t_state = StateGreen, t_detail = ''weights present on disk''\<rparr>
      else \<lparr>t_tier = TierDeclared, t_state = StateGreen, t_detail = ''declared (location is a backend handle, not a path)''\<rparr>)"

definition tierReachable :: "(string \<Rightarrow> string + nat) \<Rightarrow> DeploymentDescriptor \<Rightarrow> TierResult" where
  "tierReachable httpGet d =
     (let p = ProbeURL httpGet (HealthURL d)
      in if \<not> pr_reachable p then
           \<lparr>t_tier = TierReachable, t_state = StateRed, t_detail = pr_url p @ '' unreachable''\<rparr>
         else \<lparr>t_tier = TierReachable, t_state = StateGreen, t_detail = pr_url p @ '' -> '' @ showNat (pr_status p)\<rparr>)"

definition worstState :: "TierResult list \<Rightarrow> Health" where
  "worstState tiers = fold (\<lambda>t worst. if t_state t > worst then t_state t else worst) tiers StateUnspecified"

definition Ladder :: "(string \<Rightarrow> bool) \<Rightarrow> (string \<Rightarrow> string + nat) \<Rightarrow> DeploymentDescriptor \<Rightarrow> LadderReport" where
  "Ladder stat httpGet d =
     (let tiers = [tierDeclared stat d, tierReachable httpGet d]
      in \<lparr>lr_deployment = dd_name d, lr_backend = dd_backend d, lr_overall = worstState tiers, lr_tiers = tiers\<rparr>)"

definition Ladders ::
  "(string \<Rightarrow> bool) \<Rightarrow> (string \<Rightarrow> string + nat) \<Rightarrow> DeploymentDescriptor list \<Rightarrow> string \<Rightarrow> LadderReport list \<times> bool" where
  "Ladders stat httpGet ds name =
     (if name \<noteq> [] then
        (case ByName ds name of
           None \<Rightarrow> ([], False)
         | Some d \<Rightarrow> ([Ladder stat httpGet d], True))
      else (map (Ladder stat httpGet) ds, True))"

section \<open>Rendering\<close>

text \<open>\<^verbatim>\<open>litellm_params\<close> with the keys that are always there and those that may be.\<close>

record LiteLLMParams =
  lp_model :: string
  lp_api_base :: string
  lp_api_key :: "string option"
  lp_max_tokens :: "int option"

record ModelInfo =
  mi_architecture :: string
  mi_role :: string
  mi_backend :: string
  mi_location :: string
  mi_traefik_host :: string

record LiteLLMModel =
  lm_name :: string
  lm_params :: LiteLLMParams
  lm_info :: ModelInfo

record LiteLLMConfig =
  lc_model_list :: "LiteLLMModel list"
  lc_telemetry :: bool
  lc_callbacks :: "string list"
  lc_drop_params :: bool

definition litellmParams :: "DeploymentDescriptor \<Rightarrow> LiteLLMParams" where
  "litellmParams d =
     (let params = \<lparr>lp_model = ResolvedLiteLLMModelName d, lp_api_base = [], lp_api_key = None, lp_max_tokens = None\<rparr>;
          params = (if servedByOllama d then params\<lparr>lp_api_base := base_url (dd_route d)\<rparr>
                    else params\<lparr>lp_api_base := base_url (dd_route d) @ tr_path_prefix (dd_route d),
                                lp_api_key := Some ''sk-local''\<rparr>)
      in if dd_context_window d > 0 then params\<lparr>lp_max_tokens := Some (dd_context_window d)\<rparr> else params)"

definition RenderLiteLLM :: "DeploymentDescriptor list \<Rightarrow> LiteLLMConfig" where
  "RenderLiteLLM ds =
     \<lparr>lc_model_list = map (\<lambda>d. \<lparr>lm_name = dd_name d, lm_params = litellmParams d,
         lm_info = \<lparr>mi_architecture = dd_architecture d, mi_role = dd_role d, mi_backend = dd_backend d,
           mi_location = dd_location d, mi_traefik_host = tr_host (dd_route d)\<rparr>\<rparr>) ds,
      lc_telemetry = False, lc_callbacks = [''prometheus''], lc_drop_params = True\<rparr>"

section \<open>The commands\<close>

datatype model_command = MList | MRender | MUp string | MDown string | MHealth "string option"

text \<open>What a command prints; a plan is printed as a dry run.\<close>

datatype model_output =
    OSet "DeploymentDescriptor list"
  | OConfig LiteLLMConfig
  | OUp UpPlan
  | ODown DownPlan
  | OHealth bool "LadderReport list"

datatype model_error = LoadFailed LoadSetError | UnknownDeployment string | Unhealthy

text \<open>\<open>loadSet\<close> is the outcome of \<^verbatim>\<open>LoadDeploymentSet\<close> on the configured path. The result is the output and the error.\<close>

definition withDeployment ::
  "LoadSetError + DeploymentDescriptor list \<Rightarrow> string \<Rightarrow> (DeploymentDescriptor \<Rightarrow> model_output) \<Rightarrow> model_output option \<times> model_error option" where
  "withDeployment loadSet name f =
     (case loadSet of
        Inl err \<Rightarrow> (None, Some (LoadFailed err))
      | Inr ds \<Rightarrow> (case ByName ds name of None \<Rightarrow> (None, Some (UnknownDeployment name)) | Some d \<Rightarrow> (Some (f d), None)))"

definition modelCmd ::
  "(string \<Rightarrow> bool) \<Rightarrow> (string \<Rightarrow> string + nat) \<Rightarrow> LoadSetError + DeploymentDescriptor list \<Rightarrow> model_command
   \<Rightarrow> model_output option \<times> model_error option" where
  "modelCmd stat httpGet loadSet cmd = (case cmd of
      MList \<Rightarrow> (case loadSet of Inl err \<Rightarrow> (None, Some (LoadFailed err)) | Inr ds \<Rightarrow> (Some (OSet ds), None))
    | MRender \<Rightarrow> (case loadSet of Inl err \<Rightarrow> (None, Some (LoadFailed err)) | Inr ds \<Rightarrow> (Some (OConfig (RenderLiteLLM ds)), None))
    | MUp name \<Rightarrow> withDeployment loadSet name (\<lambda>d. OUp (BringUp d))
    | MDown name \<Rightarrow> withDeployment loadSet name (\<lambda>d. ODown (Teardown d))
    | MHealth arg \<Rightarrow>
        (case loadSet of
           Inl err \<Rightarrow> (None, Some (LoadFailed err))
         | Inr ds \<Rightarrow>
             (let name = (case arg of Some n \<Rightarrow> n | None \<Rightarrow> [])
              in case Ladders stat httpGet ds name of
                   (reports, found) \<Rightarrow>
                     if \<not> found then (None, Some (UnknownDeployment name))
                     else
                       (let healthy = fold (\<lambda>r h. if lr_overall r = StateRed then False else h) reports True
                        in (Some (OHealth healthy reports), if \<not> healthy then Some Unhealthy else None)))))"

text \<open>\<^verbatim>\<open>os.ExpandEnv("$HOME/etc")\<close> puts the variable's value, empty when unset.\<close>

definition defaultDeploymentsPath :: "(string \<Rightarrow> string) \<Rightarrow> string" where
  "defaultDeploymentsPath getEnv =
     (let root = (if getEnv ''DELIGHT_CONFIG_ROOT'' = [] then getEnv ''HOME'' @ ''/etc'' else getEnv ''DELIGHT_CONFIG_ROOT'')
      in root @ ''/delightd/model-deployments.yaml'')"

section \<open>Facts\<close>

lemma oneOf_iff: "oneOf v allowed \<longleftrightarrow> v \<in> set allowed"
  by (induction v allowed rule: oneOf.induct) auto

text \<open>What a valid descriptor is.\<close>

definition coherent :: "DeploymentDescriptor \<Rightarrow> bool" where
  "coherent d \<longleftrightarrow>
     trimSpace (dd_name d) \<noteq> [] \<and> trimSpace (dd_location d) \<noteq> [] \<and> 0 \<le> dd_context_window d
     \<and> dd_architecture d \<in> {''encode'', ''encode-decode'', ''decode''} \<and> dd_role d \<in> {''chat'', ''completion'', ''embedding''}
     \<and> dd_backend d \<in> {''ollama'', ''xinference'', ''llama-cpp'', ''transformers''}
     \<and> trimSpace (tr_host (dd_route d)) \<noteq> [] \<and> 1 \<le> tr_service_port (dd_route d) \<and> tr_service_port (dd_route d) \<le> 65535
     \<and> (dd_backend d = ''ollama'' \<longrightarrow> dd_architecture d = ''decode'')"

lemma validate_parts:
  "validateRequired d = None \<longleftrightarrow> trimSpace (dd_name d) \<noteq> [] \<and> trimSpace (dd_location d) \<noteq> [] \<and> 0 \<le> dd_context_window d"
  "validateEnums d = None \<longleftrightarrow> dd_architecture d \<in> {''encode'', ''encode-decode'', ''decode''}
     \<and> dd_role d \<in> {''chat'', ''completion'', ''embedding''} \<and> dd_backend d \<in> {''ollama'', ''xinference'', ''llama-cpp'', ''transformers''}"
  "validateRoute r n = None \<longleftrightarrow> trimSpace (tr_host r) \<noteq> [] \<and> 1 \<le> tr_service_port r \<and> tr_service_port r \<le> 65535"
  "validateCoherence d = None \<longleftrightarrow> (dd_backend d = ''ollama'' \<longrightarrow> dd_architecture d = ''decode'')"
     apply (auto simp: validateRequired_def)[1]
    apply (simp add: validateEnums_def oneOf_iff architectures_def roles_def backends_def ArchDecode_def BackendOllama_def
      BackendXinference_def BackendLlamaCPP_def BackendTransformers_def)
   apply (auto simp: validateRoute_def)[1]
  apply (simp add: validateCoherence_def servedByOllama_def BackendOllama_def ArchDecode_def)
  done

lemma ValidateDescriptor_None: "ValidateDescriptor d = None \<longleftrightarrow> coherent d"
proof -
  have "ValidateDescriptor d = None \<longleftrightarrow> validateRequired d = None \<and> validateEnums d = None
      \<and> validateRoute (dd_route d) (dd_name d) = None \<and> validateCoherence d = None"
    by (simp add: ValidateDescriptor_def split: option.split)
  then show ?thesis unfolding validate_parts coherent_def by blast
qed

lemma validate_set_None:
  "validate_set seen ds = None \<longleftrightarrow> list_all coherent ds \<and> distinct (map dd_name ds) \<and> dd_name ` set ds \<inter> seen = {}"
  by (induction seen ds rule: validate_set.induct) (auto simp flip: ValidateDescriptor_None split: option.splits)

lemma ByName_Some:
  "ByName ds name = Some d \<Longrightarrow> d \<in> set ds \<and> dd_name d = name"
  by (induction ds name rule: ByName.induct) (auto split: if_splits)

lemma ByName_distinct: "distinct (map dd_name ds) \<Longrightarrow> d \<in> set ds \<Longrightarrow> ByName ds (dd_name d) = Some d"
  by (induction ds) (auto simp: rev_image_eqI)

lemma ByName_None: "ByName ds name = None \<longleftrightarrow> name \<notin> dd_name ` set ds"
  by (induction ds name rule: ByName.induct) auto

lemma worst_fold:
  "fold (\<lambda>t worst. if t_state t > worst then t_state t else worst) tiers w = Max (insert w (t_state ` set tiers))"
proof (induction tiers arbitrary: w)
  case (Cons t ts)
  have "(if w < t_state t then t_state t else w) = max w (t_state t)" by (auto simp: max_def)
  with Cons.IH [of "max w (t_state t)"] show ?case
    by (cases "ts = []") (simp_all add: Max_insert2 max.assoc insert_commute)
qed simp

lemma worstState_Max: "worstState tiers = Max (insert StateUnspecified (t_state ` set tiers))"
  by (simp add: worstState_def worst_fold)

lemma fold_and: "fold (\<lambda>r h. if P r then False else h) rs h \<longleftrightarrow> h \<and> (\<forall>r \<in> set rs. \<not> P r)"
  by (induction rs arbitrary: h) auto

section \<open>Properties\<close>

text \<open>
  a deployment set loads exactly when its file opens and parses, every descriptor is coherent (names and locations
  not blank, known architecture, role and backend, a route with a host and a port in range, and
  nothing but decoders on ollama), and no name occurs twice.
\<close>

theorem deployment_set_loads_iff:
  "LoadDeploymentSet openFile decodeYaml path = Inr ds \<longleftrightarrow>
     (\<exists>f. openFile path = Inr f \<and> decodeYaml f = Inr ds \<and> list_all coherent ds \<and> distinct (map dd_name ds))"
proof -
  have "ValidateSet ds = None \<longleftrightarrow> list_all coherent ds \<and> distinct (map dd_name ds)"
    by (simp add: ValidateSet_def validate_set_None)
  then show ?thesis by (auto simp: LoadDeploymentSet_def split: sum.splits option.splits)
qed

text \<open>
  the LiteLLM configuration is derived from a valid set and from nothing else: its names are the deployments' in
  order, without repetition; each entry is found again by its name, reaches its backend under the
  route's host and port, carries a key exactly when the backend is not ollama, and a token limit
  exactly when a context window is set.
\<close>

theorem rendered_models_are_the_deployments:
  assumes "ValidateSet ds = None"
  shows "map lm_name (lc_model_list (RenderLiteLLM ds)) = map dd_name ds \<and> distinct (map dd_name ds)
    \<and> (\<forall>m \<in> set (lc_model_list (RenderLiteLLM ds)). \<exists>d. ByName ds (lm_name m) = Some d
         \<and> mi_backend (lm_info m) = dd_backend d \<and> mi_location (lm_info m) = dd_location d
         \<and> lp_model (lm_params m) = ResolvedLiteLLMModelName d
         \<and> lp_api_base (lm_params m) = ''http://'' @ tr_host (dd_route d) @ '':'' @ showInt (tr_service_port (dd_route d))
              @ (if dd_backend d = ''ollama'' then [] else tr_path_prefix (dd_route d))
         \<and> (lp_api_key (lm_params m) = None \<longleftrightarrow> dd_backend d = ''ollama'')
         \<and> lp_max_tokens (lm_params m) = (if dd_context_window d = 0 then None else Some (dd_context_window d)))"
proof -
  have ds: "list_all coherent ds" "distinct (map dd_name ds)" using assms by (simp_all add: ValidateSet_def validate_set_None)
  have window: "0 \<le> dd_context_window d" if "d \<in> set ds" for d
    using ds(1) that by (auto simp: list_all_iff coherent_def)
  have "\<exists>d'. ByName ds (dd_name d) = Some d' \<and> d' = d" if "d \<in> set ds" for d
    using ByName_distinct [OF ds(2) that] by simp
  with ds(2) window show ?thesis
    by (auto simp: RenderLiteLLM_def litellmParams_def Let_def servedByOllama_def BackendOllama_def base_url_def comp_def
        order_le_less)
qed

definition demo_model :: DeploymentDescriptor where
  "demo_model = \<lparr>dd_name = ''mistral'', dd_location = ''mistral:7b'', dd_architecture = ''decode'', dd_role = ''chat'',
     dd_backend = ''ollama'', dd_route = \<lparr>tr_host = ''llm.local'', tr_path_prefix = [], tr_service_port = 11434\<rparr>,
     dd_context_window = 4096, dd_litellm_model_name = []\<rparr>"

lemma demo_model_valid: "ValidateSet [demo_model] = None"
  by code_simp

theorem rendered_models_are_the_deployments_witness:
  "map lm_name (lc_model_list (RenderLiteLLM [demo_model])) = [''mistral'']"
  using rendered_models_are_the_deployments [OF demo_model_valid] by (simp add: demo_model_def)

text \<open>
  \<^verbatim>\<open>model health\<close> exits with an error exactly when some deployment that keeps its weights on disk has lost them or
  some endpoint does not answer; it reports a ladder for every deployment in order, each
  overall state the worst of its rungs.
\<close>

theorem model_health_exit_code:
  "let ok = list_all (\<lambda>d. (if IsHFCacheLocation d then stat (dd_location d) else True) \<and> (\<exists>code. httpGet (HealthURL d) = Inr code)) ds
   in modelCmd stat httpGet (Inr ds) (MHealth None) =
        (Some (OHealth ok (map (Ladder stat httpGet) ds)), if ok then None else Some Unhealthy)
      \<and> list_all (\<lambda>r. lr_overall r = Max (t_state ` set (lr_tiers r))) (map (Ladder stat httpGet) ds)"
proof -
  have states: "t_state (tierDeclared stat d) = (if IsHFCacheLocation d \<and> \<not> stat (dd_location d) then StateRed else StateGreen)"
    "t_state (tierReachable httpGet d) = (if \<exists>code. httpGet (HealthURL d) = Inr code then StateGreen else StateRed)" for d
    by (auto simp: tierDeclared_def tierReachable_def ProbeURL_def Let_def split: sum.split)
  have worst: "worstState [tierDeclared stat d, tierReachable httpGet d] =
      max (t_state (tierDeclared stat d)) (t_state (tierReachable httpGet d))" for d
    by (simp add: worstState_def states less_Health_def less_eq_Health_def severity_def max_def)
  have red: "lr_overall (Ladder stat httpGet d) = StateRed \<longleftrightarrow>
      \<not> ((if IsHFCacheLocation d then stat (dd_location d) else True) \<and> (\<exists>code. httpGet (HealthURL d) = Inr code))" for d
    unfolding Ladder_def Let_def LadderReport.simps worst states by (simp add: max_def less_eq_Health_def severity_def)
  have max: "list_all (\<lambda>r. lr_overall r = Max (t_state ` set (lr_tiers r))) (map (Ladder stat httpGet) ds)"
    by (simp add: list_all_iff Ladder_def Let_def worst)
  have "modelCmd stat httpGet (Inr ds) (MHealth None) =
      (let ok = \<forall>r \<in> set (map (Ladder stat httpGet) ds). lr_overall r \<noteq> StateRed
       in (Some (OHealth ok (map (Ladder stat httpGet) ds)), if ok then None else Some Unhealthy))"
    by (simp add: modelCmd_def Ladders_def fold_and Let_def)
  then show ?thesis using max by (simp add: red list_all_iff Let_def)
qed

end
