(* ===== verification/Discovery.thy ===== *)
theory Discovery
  imports Config
begin

text \<open>
  Discovery of local language models (\<^verbatim>\<open>pkg/discovery/llm.go\<close>) and the Traefik routes written for them
  (\<^verbatim>\<open>pkg/traefik/dynamic.go\<close>). The network, the JSON decoder, the YAML encoder and the file system
  answer through arguments.
\<close>

section \<open>Discovery\<close>

record ModelSource =
  ms_provider :: string
  ms_url :: string
  ms_models :: "string list"
  ms_healthy :: bool

text \<open>
  \<open>badURL\<close> is whether \<^verbatim>\<open>http.NewRequestWithContext\<close> refuses the URL, \<open>httpGet\<close> the answer to the request: a transport
  error, or status and body. \<open>tags\<close> decodes an Ollama tag list.
\<close>

record llmnet =
  ln_badURL :: "string \<Rightarrow> bool"
  ln_get :: "string \<Rightarrow> string + nat \<times> bytes"
  ln_tags :: "bytes \<Rightarrow> string + string list"

definition checkOllama :: "llmnet \<Rightarrow> string \<Rightarrow> string \<Rightarrow> ModelSource" where
  "checkOllama N baseURL name =
     (let source = \<lparr>ms_provider = name, ms_url = baseURL, ms_models = [], ms_healthy = False\<rparr>
      in if ln_badURL N (baseURL @ ''/api/tags'') then source
         else
           (case ln_get N (baseURL @ ''/api/tags'') of
              Inl err \<Rightarrow> source
            | Inr (status, body) \<Rightarrow>
                if status = 200 then
                  (case ln_tags N body of
                     Inl err \<Rightarrow> source\<lparr>ms_healthy := True\<rparr>
                   | Inr names \<Rightarrow> source\<lparr>ms_healthy := True, ms_models := ms_models source @ names\<rparr>)
                else source))"

definition checkLlamaCpp :: "llmnet \<Rightarrow> string \<Rightarrow> string \<Rightarrow> ModelSource" where
  "checkLlamaCpp N baseURL name =
     (let source = \<lparr>ms_provider = name, ms_url = baseURL, ms_models = [], ms_healthy = False\<rparr>;
          fallback = (case ln_get N (baseURL @ ''/v1/models'') of
                        Inl err \<Rightarrow> source
                      | Inr (status, body) \<Rightarrow>
                          if status = 200 then source\<lparr>ms_healthy := True, ms_models := ms_models source @ [''openai-compatible-model'']\<rparr>
                          else source)
      in if ln_badURL N (baseURL @ ''/health'') then source
         else
           (case ln_get N (baseURL @ ''/health'') of
              Inl err \<Rightarrow> fallback
            | Inr (status, body) \<Rightarrow>
                if status = 200 then source\<lparr>ms_healthy := True, ms_models := ms_models source @ [''unknown-llama-model'']\<rparr>
                else fallback))"

text \<open>The sources appended for a configured provider: one when it answers, none otherwise or for an unknown type.\<close>

definition provider_source :: "llmnet \<Rightarrow> LLMProviderConfig \<Rightarrow> ModelSource list" where
  "provider_source N p =
     (if lp_type p = ''ollama'' then
        (let s = checkOllama N (lp_url p) (lp_name p) in if ms_healthy s then [s] else [])
      else if lp_type p = ''llama_cpp'' \<or> lp_type p = ''openai'' \<or> lp_type p = ''apfel'' then
        (let s = checkLlamaCpp N (lp_url p) (lp_name p) in if ms_healthy s then [s] else [])
      else [])"

definition port_source :: "llmnet \<Rightarrow> nat \<Rightarrow> ModelSource list" where
  "port_source N port =
     (let s = checkLlamaCpp N (''http://host.docker.internal:'' @ showNat port) ''llama.cpp''
      in if ms_healthy s then [s] else [])"

text \<open>\<open>cfg = None\<close> is a nil configuration.\<close>

definition DiscoverLocalLLMs :: "llmnet \<Rightarrow> DelightConfig option \<Rightarrow> ModelSource list" where
  "DiscoverLocalLLMs N cfg =
     (let providers = (case cfg of None \<Rightarrow> [] | Some c \<Rightarrow> LLMProviders (System c))
      in if providers \<noteq> [] then concat (map (provider_source N) providers)
         else
           (let s = checkOllama N ''http://host.docker.internal:11434'' ''ollama''
            in (if ms_healthy s then [s] else []) @ concat (map (port_source N) [8000..<8021])))"

section \<open>Traefik\<close>

record Router =
  ro_rule :: string
  ro_service :: string

record DynamicConfig =
  dc_routers :: "string \<Rightarrow> Router option"
  dc_services :: "string \<Rightarrow> string list option"

definition active :: "ModelSource \<Rightarrow> bool" where
  "active s \<longleftrightarrow> \<not> (\<not> ms_healthy s \<or> ms_models s = [])"

definition serviceName :: "ModelSource \<Rightarrow> nat \<Rightarrow> string" where
  "serviceName s idx = ''llm-'' @ ms_provider s @ ''-'' @ showNat idx"

definition rule_of :: "ModelSource \<Rightarrow> string" where
  "rule_of s = ''Host(`models.local`) && PathPrefix(`/llms/'' @ ms_provider s @ ''/`)''"

text \<open>The loop over the sources from index \<open>idx\<close> on: the maps so far and whether one was active.\<close>

fun route_loop :: "nat \<Rightarrow> ModelSource list \<Rightarrow> DynamicConfig \<Rightarrow> bool \<Rightarrow> DynamicConfig \<times> bool" where
  "route_loop idx [] config hasActive = (config, hasActive)"
| "route_loop idx (s # ss) config hasActive =
     (if \<not> ms_healthy s \<or> ms_models s = [] then route_loop (idx + 1) ss config hasActive
      else
        route_loop (idx + 1) ss
          (config\<lparr>dc_services := (dc_services config)(serviceName s idx \<mapsto> [ms_url s]),
                  dc_routers := (dc_routers config)(serviceName s idx \<mapsto> \<lparr>ro_rule = rule_of s, ro_service = serviceName s idx\<rparr>)\<rparr>)
          True)"

text \<open>
  What the operating system answers; a write that fails reports its error and leaves some content or none, as
  \<^verbatim>\<open>os.WriteFile\<close> truncates the file first.
\<close>

record 'y traefikos =
  to_home :: "string + string"
  to_mkdirErr :: "string option"
  to_removeErr :: bool
  to_writeErr :: "(string \<times> 'y option) option"

definition routeFile :: "string \<Rightarrow> string" where
  "routeFile home = fp_join [fp_join [home, ''var'', ''traefik'', ''dynamic''], ''llms.yml'']"

definition SyncLLMRoutes ::
  "'y traefikos \<Rightarrow> (DynamicConfig \<Rightarrow> string + 'y) \<Rightarrow> ModelSource list \<Rightarrow> (string \<Rightarrow> 'y option) \<Rightarrow> (string \<Rightarrow> 'y option) \<times> string option" where
  "SyncLLMRoutes os yaml sources fs =
     (case to_home os of
        Inl err \<Rightarrow> (fs, Some err)
      | Inr home \<Rightarrow>
          (case to_mkdirErr os of
             Some err \<Rightarrow> (fs, Some err)
           | None \<Rightarrow>
               (case route_loop 0 sources \<lparr>dc_routers = Map.empty, dc_services = Map.empty\<rparr> False of
                  (config, hasActive) \<Rightarrow>
                    if \<not> hasActive then ((if to_removeErr os then fs else fs(routeFile home := None)), None)
                    else
                      (case yaml config of
                         Inl err \<Rightarrow> (fs, Some err)
                       | Inr data \<Rightarrow>
                           (case to_writeErr os of
                              Some (err, left) \<Rightarrow> (fs(routeFile home := left), Some err)
                            | None \<Rightarrow> (fs(routeFile home \<mapsto> data), None))))))"

section \<open>Facts\<close>

definition digit :: "nat \<Rightarrow> char" where
  "digit d = char_of (48 + d)"

lemma of_char_digit: "d < 10 \<Longrightarrow> (of_char (digit d) :: nat) = 48 + d"
  by (simp add: digit_def)

lemma showNat_unfold: "showNat n = (if n < 10 then [digit n] else showNat (n div 10) @ [digit (n mod 10)])"
  unfolding digit_def by (rule showNat.simps)

lemma showNat_no_dash: "CHR ''-'' \<notin> set (showNat n)"
proof (induction n rule: showNat.induct)
  case (1 n)
  have "digit d \<noteq> CHR ''-''" if "d < 10" for d
  proof
    assume "digit d = CHR ''-''"
    with of_char_digit [OF that] show False by simp
  qed
  with 1 show ?case by (subst showNat_unfold) (auto simp: eq_commute [of "CHR ''-''"])
qed

lemma showNat_nonempty [simp]: "showNat n \<noteq> []" "[] \<noteq> showNat n"
  by (subst showNat_unfold, simp)+

lemma digit_inject: "d < 10 \<Longrightarrow> e < 10 \<Longrightarrow> digit d = digit e \<longleftrightarrow> d = e"
  using of_char_digit by (metis add_left_cancel)

lemma showNat_inject: "showNat n = showNat m \<Longrightarrow> n = m"
proof (induction n arbitrary: m rule: showNat.induct)
  case (1 n)
  show ?case
  proof (cases "n < 10 \<or> m < 10")
    case True
    with "1.prems" show ?thesis
      by (subst (asm) (1 2) showNat_unfold) (auto simp: digit_inject split: if_splits)
  next
    case False
    with "1.prems" have "showNat (n div 10) @ [digit (n mod 10)] = showNat (m div 10) @ [digit (m mod 10)]"
      by (subst (asm) (1 2) showNat_unfold) simp
    then have "showNat (n div 10) = showNat (m div 10)" "n mod 10 = m mod 10" by (simp_all add: digit_inject)
    with "1.IH" False have "n div 10 = m div 10" by simp
    with \<open>n mod 10 = m mod 10\<close> show ?thesis by (metis div_mult_mod_eq)
  qed
qed

text \<open>Service names are distinct because the index is what follows the last dash.\<close>

lemma serviceName_inject: "serviceName s i = serviceName t j \<Longrightarrow> i = j"
proof (rule showNat_inject)
  assume "serviceName s i = serviceName t j"
  moreover have "rev (serviceName u k) = rev (showNat k) @ CHR ''-'' # rev (''llm-'' @ ms_provider u)" for u k
    by (simp add: serviceName_def)
  ultimately have "rev (showNat i) @ CHR ''-'' # rev (''llm-'' @ ms_provider s) = rev (showNat j) @ CHR ''-'' # rev (''llm-'' @ ms_provider t)"
    by (metis (no_types))
  then have "takeWhile (\<lambda>c. c \<noteq> CHR ''-'') (rev (showNat i) @ CHR ''-'' # rev (''llm-'' @ ms_provider s))
      = takeWhile (\<lambda>c. c \<noteq> CHR ''-'') (rev (showNat j) @ CHR ''-'' # rev (''llm-'' @ ms_provider t))" by (rule arg_cong)
  then have "rev (showNat i) = rev (showNat j)"
    by (subst (asm) (1 2) takeWhile_neq_append) (simp_all add: showNat_no_dash)
  then show "showNat i = showNat j" by simp
qed

lemma route_loop_hasActive: "snd (route_loop idx ss config h) \<longleftrightarrow> h \<or> (\<exists>s \<in> set ss. active s)"
  by (induction idx ss config h rule: route_loop.induct) (auto simp: active_def)

lemma route_loop_keeps:
  "(\<forall>i \<ge> idx. \<forall>s. n \<noteq> serviceName s i) \<Longrightarrow>
     dc_services (fst (route_loop idx ss config h)) n = dc_services config n
     \<and> dc_routers (fst (route_loop idx ss config h)) n = dc_routers config n"
  by (induction idx ss config h rule: route_loop.induct) (auto simp: Suc_leD)

lemma route_loop_entry:
  "i < length ss \<Longrightarrow> active (ss ! i) \<Longrightarrow>
     dc_services (fst (route_loop idx ss config h)) (serviceName (ss ! i) (idx + i)) = Some [ms_url (ss ! i)]
     \<and> dc_routers (fst (route_loop idx ss config h)) (serviceName (ss ! i) (idx + i)) =
         Some \<lparr>ro_rule = rule_of (ss ! i), ro_service = serviceName (ss ! i) (idx + i)\<rparr>"
proof (induction idx ss config h arbitrary: i rule: route_loop.induct)
  case (2 idx s ss config h)
  show ?case
  proof (cases i)
    case 0
    have "\<forall>j \<ge> idx + 1. \<forall>t. serviceName s idx \<noteq> serviceName t j" using serviceName_inject by fastforce
    with 2(4) 0 show ?thesis by (simp add: route_loop_keeps active_def)
  next
    case (Suc j)
    with 2 show ?thesis by (cases "active s") (auto simp: active_def)
  qed
qed simp

lemma route_loop_dom:
  "dc_services (fst (route_loop idx ss config h)) n = Some u \<Longrightarrow>
     dc_services config n = Some u \<or> (\<exists>i < length ss. active (ss ! i) \<and> n = serviceName (ss ! i) (idx + i))"
proof (induction ss arbitrary: idx config h)
  case (Cons s ss)
  let ?c = "config\<lparr>dc_services := (dc_services config)(serviceName s idx \<mapsto> [ms_url s]),
     dc_routers := (dc_routers config)(serviceName s idx \<mapsto> \<lparr>ro_rule = rule_of s, ro_service = serviceName s idx\<rparr>)\<rparr>"
  let ?goal = "dc_services config n = Some u \<or> (\<exists>i < length (s # ss). active ((s # ss) ! i) \<and> n = serviceName ((s # ss) ! i) (idx + i))"
  have later: ?goal if "\<exists>i < length ss. active (ss ! i) \<and> n = serviceName (ss ! i) (idx + 1 + i)"
  proof -
    from that obtain i where "i < length ss" "active (ss ! i)" "n = serviceName (ss ! i) (idx + 1 + i)" by blast
    then show ?thesis by (intro disjI2 exI [of _ "Suc i"]) simp
  qed
  show ?case
  proof (cases "active s")
    case True
    then have "route_loop idx (s # ss) config h = route_loop (idx + 1) ss ?c True" by (simp add: active_def)
    with Cons.prems Cons.IH [of "idx + 1" ?c True] later have "dc_services ?c n = Some u \<or> ?goal" by auto
    moreover have ?goal if "n = serviceName s idx" using True that by (intro disjI2 exI [of _ 0]) simp
    ultimately show ?thesis by (auto split: if_splits)
  next
    case False
    then have "route_loop idx (s # ss) config h = route_loop (idx + 1) ss config h" by (auto simp: active_def)
    with Cons.prems Cons.IH [of "idx + 1" config h] later show ?thesis by auto
  qed
qed simp

lemma check_healthy:
  "ms_provider (checkOllama N url name) = name" "ms_url (checkOllama N url name) = url"
  "ms_provider (checkLlamaCpp N url name) = name" "ms_url (checkLlamaCpp N url name) = url"
  "ms_healthy (checkLlamaCpp N url name) \<longleftrightarrow> ms_models (checkLlamaCpp N url name) \<noteq> []"
  by (auto simp: checkOllama_def checkLlamaCpp_def Let_def split: sum.split prod.split)

section \<open>Properties\<close>


definition demo_sources :: "ModelSource list" where
  "demo_sources = [\<lparr>ms_provider = ''llama.cpp'', ms_url = ''http://h:8000'', ms_models = [''m''], ms_healthy = True\<rparr>,
     \<lparr>ms_provider = ''llama.cpp'', ms_url = ''http://h:8001'', ms_models = [''m''], ms_healthy = True\<rparr>]"

definition demo_traefikos :: "DynamicConfig traefikos" where
  "demo_traefikos = \<lparr>to_home = Inr ''/root'', to_mkdirErr = None, to_removeErr = False, to_writeErr = None\<rparr>"


text \<open>
  Two live sources of one provider, as the default scan of the ports yields them, are two services behind one and the
  same rule, although the source says each provider has a unique path.
\<close>

theorem same_provider_same_rule:
  "\<exists>config r1 r2. fst (SyncLLMRoutes demo_traefikos Inr demo_sources Map.empty) (routeFile ''/root'') = Some config
     \<and> dc_routers config ''llm-llama.cpp-0'' = Some r1 \<and> dc_routers config ''llm-llama.cpp-1'' = Some r2
     \<and> ro_rule r1 = ro_rule r2 \<and> ro_service r1 \<noteq> ro_service r2"
proof -
  have names: "serviceName (demo_sources ! 0) 0 = ''llm-llama.cpp-0''" "serviceName (demo_sources ! 1) 1 = ''llm-llama.cpp-1''"
    by code_simp+
  have act: "active (demo_sources ! 0)" "active (demo_sources ! 1)" "length demo_sources = 2"
    by (simp_all add: demo_sources_def active_def)
  let ?start = "\<lparr>dc_routers = Map.empty, dc_services = Map.empty\<rparr>"
  obtain config h where loop: "route_loop 0 demo_sources ?start False = (config, h)" by fastforce
  have "h" using route_loop_hasActive [of 0 demo_sources ?start False] loop act by force
  then have "fst (SyncLLMRoutes demo_traefikos Inr demo_sources Map.empty) (routeFile ''/root'') = Some config"
    using loop by (simp add: SyncLLMRoutes_def demo_traefikos_def)
  moreover have "dc_routers config ''llm-llama.cpp-0'' = Some \<lparr>ro_rule = rule_of (demo_sources ! 0), ro_service = ''llm-llama.cpp-0''\<rparr>"
    using route_loop_entry [of 0 demo_sources 0 ?start False] act loop names by simp
  moreover have "dc_routers config ''llm-llama.cpp-1'' = Some \<lparr>ro_rule = rule_of (demo_sources ! 1), ro_service = ''llm-llama.cpp-1''\<rparr>"
    using route_loop_entry [of 1 demo_sources 0 ?start False] act loop names by simp
  moreover have "rule_of (demo_sources ! 0) = rule_of (demo_sources ! 1)" by (simp add: rule_of_def demo_sources_def)
  ultimately show ?thesis by simp
qed

end
