(* ===== verification/Skills.thy ===== *)
theory Skills
  imports Register "HOL-Library.AList"
begin

text \<open>
  Agent skills: \<^verbatim>\<open>pkg/skills\<close>. The aggregator collects the tools of every project's manifest, the MCP endpoint
  calls one of them by rendering its URL or its argument vector, and the generated command
  line does the same from a shell. The JSON decoder, the file system, the network and the processes
  started answer through arguments; a call yields what it did besides its reply.
\<close>

section \<open>Tools and manifests\<close>

record HandlerDef =
  h_type :: string
  h_method :: string
  h_url :: string
  h_command :: string
  h_args :: "string list"

record Tool =
  tool_name :: string
  tool_description :: string
  tool_schema :: string
  tool_handler :: HandlerDef

text \<open>The tools are a Go map; its order of iteration is unspecified, so reading them all takes the order as an argument.\<close>

record Aggregator =
  ag_workDir :: string
  ag_selfManifest :: string
  ag_tools :: "(string \<times> Tool) list"
  ag_controlToken :: string

definition NewAggregator :: "string \<Rightarrow> Aggregator" where
  "NewAggregator workDir = \<lparr>ag_workDir = workDir, ag_selfManifest = [], ag_tools = [], ag_controlToken = []\<rparr>"

definition UseControlToken :: "string \<Rightarrow> Aggregator \<Rightarrow> Aggregator" where
  "UseControlToken tok a = a\<lparr>ag_controlToken := tok\<rparr>"

definition SetSelfManifest :: "string \<Rightarrow> Aggregator \<Rightarrow> Aggregator" where
  "SetSelfManifest path a = a\<lparr>ag_selfManifest := path\<rparr>"

text \<open>\<open>readManifest\<close> is reading and decoding the file: nothing when it is missing, unreadable or malformed.\<close>

definition loadManifest :: "(string \<Rightarrow> Tool list option) \<Rightarrow> string \<Rightarrow> string \<Rightarrow> Aggregator \<Rightarrow> Aggregator" where
  "loadManifest readManifest path ns a =
     (case readManifest path of
        None \<Rightarrow> a
      | Some tools \<Rightarrow>
          fold (\<lambda>t a. let toolName = ns @ ''_'' @ tool_name t
                      in a\<lparr>ag_tools := AList.update toolName (t\<lparr>tool_name := toolName\<rparr>) (ag_tools a)\<rparr>) tools a)"

definition ScanProjects :: "(string \<Rightarrow> Tool list option) \<Rightarrow> string list \<Rightarrow> Aggregator \<Rightarrow> Aggregator" where
  "ScanProjects readManifest projects a =
     (let a0 = a\<lparr>ag_tools := []\<rparr>;
          a1 = fold (\<lambda>proj a. loadManifest readManifest (fp_join [ag_workDir a, proj, ''mcp.json'']) proj a) projects a0
      in if ag_selfManifest a1 \<noteq> [] then loadManifest readManifest (ag_selfManifest a1) ''delightd'' a1 else a1)"

definition GetTools :: "((string \<times> Tool) list \<Rightarrow> (string \<times> Tool) list) \<Rightarrow> Aggregator \<Rightarrow> Tool list" where
  "GetTools order a = map snd (order (ag_tools a))"

definition GetTool :: "string \<Rightarrow> Aggregator \<Rightarrow> Tool option" where
  "GetTool name a = map_of (ag_tools a) name"

section \<open>Rendering\<close>

text \<open>\<^verbatim>\<open>strings.ReplaceAll\<close> with a nonempty pattern: leftmost occurrences, without overlap.\<close>

function replaceAll :: "string \<Rightarrow> string \<Rightarrow> string \<Rightarrow> string" where
  "replaceAll s old new =
     (if s = [] \<or> old = [] then s
      else if hasPrefix s old then new @ replaceAll (drop (length old) s) old new
      else hd s # replaceAll (tl s) old new)"
  by pat_completeness auto
termination by (relation "measure (\<lambda>(s, old, new). length s)") auto

declare replaceAll.simps [simp del]

definition hole :: "string \<Rightarrow> string" where
  "hole name = ''{'' @ name @ ''}''"

definition containsBrace :: "string \<Rightarrow> bool" where
  "containsBrace s \<longleftrightarrow> CHR ''{'' \<in> set s \<or> CHR ''}'' \<in> set s"

text \<open>
  The arguments of a call: name and printed value, in the order in which Go happens to iterate over the map.
\<close>

type_synonym callargs = "(string \<times> string) list"

definition renderURL :: "callargs \<Rightarrow> string \<Rightarrow> errtext + string" where
  "renderURL args rawURL =
     (let url = fold (\<lambda>(name, v) u. replaceAll u (hole name) (pathEscape v)) args rawURL
      in if containsBrace url then Inl (Fmt ''unfilled path parameter in %q'' [url]) else Inr url)"

fun renderArgs :: "callargs \<Rightarrow> string list \<Rightarrow> errtext + string list" where
  "renderArgs callArgs [] = Inr []"
| "renderArgs callArgs (a # as) =
     (let a' = fold (\<lambda>(name, v) s. replaceAll s (hole name) v) callArgs a
      in if containsBrace a' then Inl (Fmt ''unfilled command argument in %q'' [a'])
         else (case renderArgs callArgs as of Inl e \<Rightarrow> Inl e | Inr out \<Rightarrow> Inr (a' # out)))"

text \<open>
  The loop of \<^verbatim>\<open>positionalURL\<close>, which has no bound of its own: \<open>None\<close> would be a run that does not end.
\<close>

definition from_open :: "string \<Rightarrow> string" where
  "from_open s = dropWhile (\<lambda>c. c \<noteq> CHR ''{'') s"

partial_function (option) positional_loop :: "nat \<Rightarrow> string \<Rightarrow> string option" where
  "positional_loop i s =
     (if CHR ''{'' \<notin> set s then Some s
      else if CHR ''}'' \<notin> set (from_open s) then Some s
      else positional_loop (i + 1)
             (takeWhile (\<lambda>c. c \<noteq> CHR ''{'') s @ ''$'' @ showNat i @ tl (dropWhile (\<lambda>c. c \<noteq> CHR ''}'') (from_open s))))"

definition positionalURL :: "string \<Rightarrow> string option" where
  "positionalURL rawURL = positional_loop 1 rawURL"

section \<open>Dispatch\<close>

text \<open>
  \<^verbatim>\<open>strings.ToUpper\<close> as far as a comparison with an ASCII literal can tell: ASCII letters, and the two runes
  outside ASCII whose upper case is ASCII (U+0131 and U+017F).
\<close>

definition upperChar :: "char \<Rightarrow> char" where
  "upperChar c = (let n = (of_char c :: nat) in if 97 \<le> n \<and> n \<le> 122 then char_of (n - 32) else c)"

fun toUpper :: "string \<Rightarrow> string" where
  "toUpper (a # b # s) =
     (if [a, b] = [CHR 0xC4, CHR 0xB1] then CHR ''I'' # toUpper s
      else if [a, b] = [CHR 0xC5, CHR 0xBF] then CHR ''S'' # toUpper s
      else upperChar a # toUpper (b # s))"
| "toUpper [a] = [upperChar a]"
| "toUpper [] = []"

definition isMutatingMethod :: "string \<Rightarrow> bool" where
  "isMutatingMethod method \<longleftrightarrow> toUpper method \<in> {''POST'', ''PUT'', ''PATCH'', ''DELETE''}"

text \<open>\<open>hostname\<close> is \<^verbatim>\<open>url.Parse\<close> and \<^verbatim>\<open>Hostname\<close>, \<open>None\<close> when the URL does not parse.\<close>

definition isLoopbackURL :: "(string \<Rightarrow> string option) \<Rightarrow> string \<Rightarrow> bool" where
  "isLoopbackURL hostname rawURL =
     (case hostname rawURL of
        None \<Rightarrow> False
      | Some host \<Rightarrow> host = ''127.0.0.1'' \<or> host = ''localhost'' \<or> host = ''::1'')"

record dispatched =
  di_method :: string
  di_url :: string
  di_authorization :: "string option"

text \<open>\<open>send\<close> answers a request: an error, or status code, status text and body.\<close>

definition doHTTP ::
  "(dispatched \<Rightarrow> string + nat \<times> string \<times> string) \<Rightarrow> string \<Rightarrow> string \<Rightarrow> string \<Rightarrow> dispatched \<times> string \<times> string option" where
  "doHTTP send method rawURL bearer =
     (let req = \<lparr>di_method = (if method = [] then ''GET'' else method), di_url = rawURL,
                 di_authorization = (if bearer \<noteq> [] then Some (''Bearer '' @ bearer) else None)\<rparr>
      in case send req of
           Inl err \<Rightarrow> (req, [], Some err)
         | Inr (code, status, b) \<Rightarrow>
             (let body = trimSpace b
              in if code div 100 \<noteq> 2 then (req, body, Some (''control port returned '' @ status)) else (req, body, None)))"

section \<open>The MCP endpoint\<close>

definition maxMCPBodyBytes :: nat where
  "maxMCPBodyBytes = 1048576"

datatype rpcResult =
    ToolsList "Tool list"
  | ToolOutput errtext bool
  | RpcError int string

text \<open>What a call made happen: the requests sent and the processes started, each with its arguments.\<close>

record effects =
  ef_requests :: "dispatched list"
  ef_commands :: "(string \<times> string list) list"

definition no_effects :: effects where
  "no_effects = \<lparr>ef_requests = [], ef_commands = []\<rparr>"

record mcpenv =
  me_order :: "(string \<times> Tool) list \<Rightarrow> (string \<times> Tool) list"
  me_decode :: "bytes \<Rightarrow> bool \<Rightarrow> string + string \<times> bytes"
  me_params :: "bytes \<Rightarrow> (string \<times> callargs) option"
  me_exec :: "string \<Rightarrow> string list \<Rightarrow> string option \<times> string"
  me_send :: "dispatched \<Rightarrow> string + nat \<times> string \<times> string"
  me_hostname :: "string \<Rightarrow> string option"

text \<open>The switch on the handler type: output, whether it is an error, and the effects.\<close>

definition call_tool :: "mcpenv \<Rightarrow> string \<Rightarrow> HandlerDef \<Rightarrow> callargs \<Rightarrow> errtext \<times> bool \<times> effects" where
  "call_tool env token h args =
     (if h_type h = ''command'' then
        (case renderArgs args (h_args h) of
           Inl e \<Rightarrow> (e, True, no_effects)
         | Inr rendered \<Rightarrow>
             (let eff = no_effects\<lparr>ef_commands := [(h_command h, rendered)]\<rparr>
              in case me_exec env (h_command h) rendered of
                   (Some err, out) \<Rightarrow> (Msg (err @ '': '' @ out), True, eff)
                 | (None, out) \<Rightarrow> (Msg out, False, eff)))
      else if h_type h = ''http'' then
        (case renderURL args (h_url h) of
           Inl e \<Rightarrow> (e, True, no_effects)
         | Inr rendered \<Rightarrow>
             (let bearer = (if isMutatingMethod (h_method h) \<and> isLoopbackURL (me_hostname env) rendered then token else [])
              in case doHTTP (me_send env) (h_method h) rendered bearer of
                   (req, resp, Some err) \<Rightarrow> (Msg (if resp = [] then err else resp), True, no_effects\<lparr>ef_requests := [req]\<rparr>)
                 | (req, resp, None) \<Rightarrow> (Msg resp, False, no_effects\<lparr>ef_requests := [req]\<rparr>)))
      else (Msg (''unsupported handler type: '' @ h_type h), True, no_effects))"

definition HandleMCP :: "mcpenv \<Rightarrow> Aggregator \<Rightarrow> string \<Rightarrow> bytes \<Rightarrow> effects \<times> rpcResult reply" where
  "HandleMCP env a method body =
     (if method \<noteq> ''POST'' then (no_effects, writeError 405 (Msg ''Method not allowed''))
      else
        (case me_decode env (take maxMCPBodyBytes body) (length body > maxMCPBodyBytes) of
           Inl err \<Rightarrow> (no_effects, writeError 400 (Msg err))
         | Inr (rpc, rawParams) \<Rightarrow>
             if rpc = ''tools/list'' then (no_effects, writeJSON 200 (ToolsList (GetTools (me_order env) a)))
             else if rpc = ''tools/call'' then
               (case me_params env rawParams of
                  None \<Rightarrow> (no_effects, writeJSON 200 (RpcError (- 32602) ''Invalid params''))
                | Some (name, args) \<Rightarrow>
                    (case GetTool name a of
                       None \<Rightarrow> (no_effects, writeJSON 200 (RpcError (- 32601) ''Tool not found''))
                     | Some tool \<Rightarrow>
                         (case call_tool env (ag_controlToken a) (tool_handler tool) args of
                            (output, isErr, eff) \<Rightarrow> (eff, writeJSON 200 (ToolOutput output isErr)))))
             else (no_effects, writeJSON 200 (RpcError (- 32601) ''Method not found''))))"

section \<open>Templates\<close>

text \<open>
  A template is literal text and named holes in some order; the renderers see it flattened to a string. Filling the
  holes of the structure is the reference that substitution in the string is compared with.
\<close>

datatype seg = Lit string | Hole string

primrec flat_seg :: "seg \<Rightarrow> string" where
  "flat_seg (Lit s) = s"
| "flat_seg (Hole n) = hole n"

definition flatten :: "seg list \<Rightarrow> string" where
  "flatten segs = concat (map flat_seg segs)"

primrec plain_seg :: "seg \<Rightarrow> bool" where
  "plain_seg (Lit s) = (\<not> containsBrace s)"
| "plain_seg (Hole n) = (\<not> containsBrace n)"

primrec is_hole :: "seg \<Rightarrow> bool" where
  "is_hole (Lit s) = False"
| "is_hole (Hole n) = True"

primrec fill :: "(string \<Rightarrow> string option) \<Rightarrow> seg \<Rightarrow> seg" where
  "fill \<sigma> (Lit s) = Lit s"
| "fill \<sigma> (Hole n) = (case \<sigma> n of Some v \<Rightarrow> Lit v | None \<Rightarrow> Hole n)"

lemma flatten_simps [simp]:
  "flatten [] = []" "flatten (x # xs) = flat_seg x @ flatten xs"
  by (simp_all add: flatten_def)

lemma containsBrace_simps [simp]:
  "\<not> containsBrace []"
  "containsBrace (c # s) \<longleftrightarrow> c = CHR ''{'' \<or> c = CHR ''}'' \<or> containsBrace s"
  "containsBrace (s @ t) \<longleftrightarrow> containsBrace s \<or> containsBrace t"
  by (auto simp: containsBrace_def)

lemma hole_not_Nil [simp]: "hole n \<noteq> []"
  by (simp add: hole_def)

lemma containsBrace_hole [simp]: "containsBrace (hole n)"
  by (simp add: hole_def)

lemma flatten_braces:
  "\<forall>x\<in>set segs. plain_seg x \<Longrightarrow> containsBrace (flatten segs) \<longleftrightarrow> (\<exists>x\<in>set segs. is_hole x)"
proof (induction segs)
  case (Cons x xs)
  then show ?case by (cases x) auto
qed simp

subsection \<open>Substitution in the string is filling of the structure\<close>

lemma replaceAll_Nil [simp]: "replaceAll [] old new = []"
  by (simp add: replaceAll.simps)

lemma replaceAll_skip:
  "CHR ''{'' \<notin> set s \<Longrightarrow> replaceAll (s @ r) (hole n) v = s @ replaceAll r (hole n) v"
proof (induction s)
  case (Cons c s)
  then have "\<not> hasPrefix (c # s @ r) (hole n)" by (auto simp: hole_def hasPrefix_def)
  then show ?case
    using Cons by (subst replaceAll.simps) simp
qed simp

lemma until_stop:
  assumes "c \<notin> set xs"
  shows "takeWhile (\<lambda>x. x \<noteq> c) (xs @ c # ys) = xs" "dropWhile (\<lambda>x. x \<noteq> c) (xs @ c # ys) = c # ys"
  using assms by (induction xs) auto

lemma hole_clash:
  assumes "CHR ''}'' \<notin> set n" and "CHR ''}'' \<notin> set m"
  shows "hasPrefix (hole m @ r) (hole n) \<longleftrightarrow> n = m"
proof
  assume "hasPrefix (hole m @ r) (hole n)"
  then obtain t where "m @ CHR ''}'' # r = n @ CHR ''}'' # t"
    by (auto simp: hasPrefix_iff hole_def)
  then have "takeWhile (\<lambda>c. c \<noteq> CHR ''}'') (m @ CHR ''}'' # r) = takeWhile (\<lambda>c. c \<noteq> CHR ''}'') (n @ CHR ''}'' # t)"
    by simp
  then show "n = m"
    using assms by (simp add: until_stop)
qed (simp add: hole_def hasPrefix_def)

lemma replaceAll_hole:
  assumes "CHR ''}'' \<notin> set n" and "\<not> containsBrace m"
  shows "replaceAll (hole m @ r) (hole n) v = (if m = n then v else hole m) @ replaceAll r (hole n) v"
proof (cases "m = n")
  case True
  then have "hasPrefix (hole m @ r) (hole n)" by simp
  then show ?thesis
    using True by (subst replaceAll.simps) (simp add: hole_def)
next
  case False
  then have "\<not> hasPrefix (hole m @ r) (hole n)"
    using assms hole_clash by (auto simp: containsBrace_def)
  then have "replaceAll (hole m @ r) (hole n) v = CHR ''{'' # replaceAll ((m @ ''}'') @ r) (hole n) v"
    by (subst replaceAll.simps) (simp add: hole_def)
  also have "\<dots> = CHR ''{'' # (m @ ''}'') @ replaceAll r (hole n) v"
    using assms by (subst replaceAll_skip) (auto simp: containsBrace_def)
  finally show ?thesis
    using False by (simp add: hole_def)
qed

lemma replaceAll_flatten:
  assumes "\<forall>x\<in>set segs. plain_seg x" and "\<not> containsBrace n"
  shows "replaceAll (flatten segs) (hole n) v = flatten (map (fill [n \<mapsto> v]) segs)"
  using assms(1)
proof (induction segs)
  case (Cons x xs)
  then show ?case
    using assms(2) by (cases x) (auto simp: replaceAll_skip replaceAll_hole containsBrace_def)
qed simp

lemma fill_plain: "plain_seg x \<Longrightarrow> (\<And>n v. \<sigma> n = Some v \<Longrightarrow> \<not> containsBrace v) \<Longrightarrow> plain_seg (fill \<sigma> x)"
  by (cases x) (auto split: option.split)

lemma fill_fill: "fill \<tau> (fill \<sigma> x) = fill (\<tau> ++ \<sigma>) x"
  by (cases x) (auto simp: map_add_def split: option.split)

lemma fold_replace_flatten:
  assumes "\<forall>x\<in>set segs. plain_seg x" and "\<forall>(n, v)\<in>set args. \<not> containsBrace n \<and> \<not> containsBrace v"
  shows "fold (\<lambda>(name, v) u. replaceAll u (hole name) v) args (flatten segs) = flatten (map (fill (map_of args)) segs)"
  using assms
proof (induction args arbitrary: segs)
  case Nil
  have "fill (map_of []) x = x" for x by (cases x) auto
  then show ?case by (simp add: map_idI)
next
  case (Cons nv args)
  obtain n v where nv: "nv = (n, v)" by fastforce
  have plain: "\<forall>x\<in>set (map (fill [n \<mapsto> v]) segs). plain_seg x"
    using Cons.prems nv by (auto intro!: fill_plain split: if_splits)
  have "fill (map_of args) \<circ> fill [n \<mapsto> v] = fill (map_of (nv # args))"
    by (rule ext) (simp add: fill_fill nv)
  then show ?case
    using Cons.IH [OF plain] Cons.prems nv by (simp add: replaceAll_flatten fun_upd_def)
qed

lemma fill_holes: "is_hole (fill \<sigma> x) \<longleftrightarrow> (\<exists>n. x = Hole n \<and> \<sigma> n = None)"
  by (cases x) (auto split: option.split)

lemma small_char_no_brace: "(n :: nat) < 123 \<Longrightarrow> char_of n \<noteq> CHR ''{'' \<and> char_of n \<noteq> CHR ''}''"
proof -
  assume n: "n < 123"
  have "char_of n \<noteq> c" if "(123 :: nat) \<le> of_char c" for c :: char
    using n that by (metis mod_less_eq_dividend not_less of_char_of order_trans)
  then show ?thesis by simp
qed

lemma showNat_no_brace [simp]: "\<not> containsBrace (showNat n)"
proof (induction n rule: showNat.induct)
  case (1 n)
  have "n mod 10 < 10" by simp
  then have "char_of (48 + n mod 10) \<noteq> CHR ''{'' \<and> char_of (48 + n mod 10) \<noteq> CHR ''}''"
    by (intro small_char_no_brace) linarith
  then show ?case
    using 1 small_char_no_brace [of "48 + n"] by (subst showNat.simps) auto
qed

lemma pathEscape_no_brace [simp]: "\<not> containsBrace (pathEscape s)"
proof (induction s)
  case (Cons c s)
  have hex: "\<not> containsBrace [hexDigit k]" if "k < 16" for k
    using that small_char_no_brace [of "48 + k"] small_char_no_brace [of "55 + k"] by (simp add: hexDigit_def)
  have div: "(of_char c :: nat) div 16 < 16"
    using nat_of_char_less_256 [of c] by (simp add: less_mult_imp_div_less)
  have "c \<noteq> CHR ''{'' \<and> c \<noteq> CHR ''}''" if "unreserved c"
    using that by (auto simp: unreserved_def)
  then show ?case
    using Cons hex [OF div] hex [of "of_char c mod 16"] by (simp add: pathEscape_def)
qed (simp add: pathEscape_def)

lemma fill_plain_values:
  assumes "\<forall>x\<in>set segs. plain_seg x" and "\<And>n v. \<sigma> n = Some v \<Longrightarrow> \<not> containsBrace v"
  shows "containsBrace (flatten (map (fill \<sigma>) segs)) \<longleftrightarrow> (\<exists>n. Hole n \<in> set segs \<and> \<sigma> n = None)"
  using assms by (subst flatten_braces) (auto simp: fill_plain fill_holes image_iff)

lemma escape_args:
  "fold (\<lambda>(name, v) u. replaceAll u (hole name) (pathEscape v)) args url
     = fold (\<lambda>(name, v) u. replaceAll u (hole name) v) (map (\<lambda>(n, v). (n, pathEscape v)) args) url"
  by (induction args arbitrary: url) auto

lemma renderURL_template:
  assumes "\<forall>x\<in>set segs. plain_seg x" and "\<forall>n\<in>set (map fst args). \<not> containsBrace n"
  shows "renderURL args (flatten segs) =
           (let url = flatten (map (fill (\<lambda>n. map_option pathEscape (map_of args n))) segs)
            in if \<exists>n. Hole n \<in> set segs \<and> map_of args n = None
               then Inl (Fmt ''unfilled path parameter in %q'' [url]) else Inr url)"
proof -
  let ?args = "map (\<lambda>(n, v). (n, pathEscape v)) args"
  let ?\<sigma> = "\<lambda>n. map_option pathEscape (map_of args n)"
  have \<sigma>: "map_of ?args = ?\<sigma>"
    by (rule ext) (simp add: map_of_map)
  have url: "fold (\<lambda>(name, v) u. replaceAll u (hole name) (pathEscape v)) args (flatten segs) = flatten (map (fill ?\<sigma>) segs)"
    using assms unfolding escape_args \<sigma> [symmetric] by (intro fold_replace_flatten) auto
  have "containsBrace (flatten (map (fill ?\<sigma>) segs)) \<longleftrightarrow> (\<exists>n. Hole n \<in> set segs \<and> map_of args n = None)"
    using assms(1) by (subst fill_plain_values) auto
  then show ?thesis
    by (simp add: renderURL_def url Let_def)
qed

lemma renderArgs_template:
  assumes "\<forall>segs\<in>set argv. \<forall>x\<in>set segs. plain_seg x"
    and "\<forall>(n, v)\<in>set args. \<not> containsBrace n \<and> \<not> containsBrace v"
    and "\<forall>segs\<in>set argv. \<forall>n. Hole n \<in> set segs \<longrightarrow> map_of args n \<noteq> None"
  shows "renderArgs args (map flatten argv) = Inr (map (\<lambda>segs. flatten (map (fill (map_of args)) segs)) argv)"
  using assms
proof (induction argv)
  case (Cons segs argv)
  have "\<not> containsBrace v" if "map_of args n = Some v" for n v
    using that Cons.prems(2) map_of_SomeD by fastforce
  then have "\<not> containsBrace (flatten (map (fill (map_of args)) segs))"
    using Cons.prems(1,3) by (subst fill_plain_values) auto
  then show ?case
    using Cons by (simp add: fold_replace_flatten)
qed simp

lemma renderArgs_length: "renderArgs args argv = Inr out \<Longrightarrow> length out = length argv"
  by (induction argv arbitrary: out) (auto simp: Let_def split: if_splits sum.splits)

subsection \<open>Positional arguments\<close>

text \<open>The holes of a template replaced by \<^verbatim>\<open>$i\<close>, \<^verbatim>\<open>$(i+1)\<close>, and so on.\<close>

fun number :: "nat \<Rightarrow> seg list \<Rightarrow> seg list" where
  "number i [] = []"
| "number i (Lit s # segs) = Lit s # number i segs"
| "number i (Hole n # segs) = Lit (''$'' @ showNat i) # number (i + 1) segs"

lemma showNat_no_open [simp]: "CHR ''{'' \<notin> set (showNat i)"
  using showNat_no_brace by (auto simp: containsBrace_def)

lemma positional_shrinks:
  assumes "CHR ''{'' \<in> set s" and "CHR ''}'' \<in> set (from_open s)"
  shows "count_list (takeWhile (\<lambda>c. c \<noteq> CHR ''{'') s @ ''$'' @ showNat i @ tl (dropWhile (\<lambda>c. c \<noteq> CHR ''}'') (from_open s))) CHR ''{''
           < count_list s CHR ''{''"
proof -
  obtain p q where s: "s = p @ CHR ''{'' # q" and p: "CHR ''{'' \<notin> set p"
    using assms(1) split_list_first by metis
  then have o: "from_open s = CHR ''{'' # q" by (simp add: from_open_def until_stop)
  obtain u w where q: "q = u @ CHR ''}'' # w" and u: "CHR ''}'' \<notin> set u"
    using assms(2) o split_list_first [of "CHR ''}''" q] by auto
  have "dropWhile (\<lambda>c. c \<noteq> CHR ''}'') (from_open s) = CHR ''}'' # w"
    using o q u by (simp add: until_stop)
  then show ?thesis
    using s p q by (simp add: until_stop count_list_0_iff)
qed

lemma positional_loop_returns:
  "\<exists>r. positional_loop i s = Some r \<and> \<not> (CHR ''{'' \<in> set r \<and> CHR ''}'' \<in> set (from_open r))"
proof (induction "count_list s CHR ''{''" arbitrary: i s rule: less_induct)
  case less
  show ?case
  proof (cases "CHR ''{'' \<in> set s \<and> CHR ''}'' \<in> set (from_open s)")
    case True
    then show ?thesis
      using less [OF positional_shrinks] by (subst positional_loop.simps) simp
  next
    case False
    then show ?thesis
      by (subst positional_loop.simps) auto
  qed
qed

lemma positional_loop_template:
  assumes "\<forall>x\<in>set segs. plain_seg x" and "CHR ''{'' \<notin> set p"
  shows "positional_loop i (p @ flatten segs) = Some (p @ flatten (number i segs))"
  using assms
proof (induction i segs arbitrary: p rule: number.induct)
  case (1 i)
  then show ?case by (subst positional_loop.simps) simp
next
  case (2 i s segs)
  then show ?case
    using "2.IH" [of "p @ s"] by (simp add: containsBrace_def)
next
  case (3 i n segs)
  let ?rest = "flatten segs"
  have n: "CHR ''}'' \<notin> set n" using "3.prems" by (simp add: containsBrace_def)
  have split: "p @ flatten (Hole n # segs) = p @ CHR ''{'' # n @ CHR ''}'' # ?rest" by (simp add: hole_def)
  have o: "from_open (p @ CHR ''{'' # n @ CHR ''}'' # ?rest) = CHR ''{'' # n @ CHR ''}'' # ?rest"
    using "3.prems"(2) by (simp add: from_open_def until_stop)
  have "positional_loop i (p @ flatten (Hole n # segs)) = positional_loop (i + 1) ((p @ ''$'' @ showNat i) @ ?rest)"
    unfolding split by (subst positional_loop.simps) (simp add: o until_stop "3.prems"(2) n)
  then show ?case
    using "3.IH" [of "p @ ''$'' @ showNat i"] "3.prems" by simp
qed

section \<open>What the skills surface guarantees\<close>

lemma isMutating_GET [simp]: "\<not> isMutatingMethod ''GET''" "\<not> isMutatingMethod []"
  by (simp_all add: isMutatingMethod_def upperChar_def)

lemma doHTTP_request:
  "fst (doHTTP send method url bearer)
     = \<lparr>di_method = (if method = [] then ''GET'' else method), di_url = url,
        di_authorization = (if bearer \<noteq> [] then Some (''Bearer '' @ bearer) else None)\<rparr>"
  by (simp add: doHTTP_def Let_def split: sum.splits prod.splits)

text \<open>What a call of a handler may do, read off the tool: the request or the process it declares, and nothing else.\<close>

definition declared_request :: "mcpenv \<Rightarrow> string \<Rightarrow> HandlerDef \<Rightarrow> callargs \<Rightarrow> dispatched \<Rightarrow> bool" where
  "declared_request env token h args req \<longleftrightarrow>
     h_type h = ''http'' \<and> renderURL args (h_url h) = Inr (di_url req) \<and>
     di_method req = (if h_method h = [] then ''GET'' else h_method h) \<and>
     di_authorization req =
       (if isMutatingMethod (di_method req) \<and> isLoopbackURL (me_hostname env) (di_url req) \<and> token \<noteq> []
        then Some (''Bearer '' @ token) else None)"

definition declared_command :: "HandlerDef \<Rightarrow> callargs \<Rightarrow> string \<times> string list \<Rightarrow> bool" where
  "declared_command h args cmd \<longleftrightarrow>
     h_type h = ''command'' \<and> fst cmd = h_command h \<and> renderArgs args (h_args h) = Inr (snd cmd)
     \<and> length (snd cmd) = length (h_args h)"

lemma call_tool_effects:
  assumes "call_tool env token h args = (output, isErr, eff)"
  shows "eff = no_effects \<and> isErr
       \<or> (\<exists>req. eff = no_effects\<lparr>ef_requests := [req]\<rparr> \<and> declared_request env token h args req)
       \<or> (\<exists>cmd. eff = no_effects\<lparr>ef_commands := [cmd]\<rparr> \<and> declared_command h args cmd)"
proof -
  consider (command) "h_type h = ''command''" | (http) "h_type h = ''http''" | (other) "h_type h \<noteq> ''command''" "h_type h \<noteq> ''http''"
    by blast
  then show ?thesis
  proof cases
    case command
    then show ?thesis
      using assms by (auto simp: call_tool_def Let_def declared_command_def renderArgs_length split: sum.splits prod.splits option.splits)
  next
    case http
    show ?thesis
    proof (cases "renderURL args (h_url h)")
      case (Inl e)
      then show ?thesis using assms http by (simp add: call_tool_def)
    next
      case (Inr url)
      let ?bearer = "if isMutatingMethod (h_method h) \<and> isLoopbackURL (me_hostname env) url then token else []"
      obtain req resp err where call: "doHTTP (me_send env) (h_method h) url ?bearer = (req, resp, err)"
        by (metis prod.collapse)
      then have req: "req = fst (doHTTP (me_send env) (h_method h) url ?bearer)" by simp
      have "declared_request env token h args req"
        unfolding req doHTTP_request by (simp add: declared_request_def http Inr)
      moreover have "eff = no_effects\<lparr>ef_requests := [req]\<rparr>"
        using assms http Inr call by (auto simp: call_tool_def split: option.splits)
      ultimately show ?thesis by blast
    qed
  next
    case other
    then show ?thesis using assms by (simp add: call_tool_def)
  qed
qed

lemma HandleMCP_effects:
  assumes "HandleMCP env a method body = (eff, rep)"
  shows "eff = no_effects
       \<or> (\<exists>name tool args output isErr. method = ''POST'' \<and> GetTool name a = Some tool
            \<and> call_tool env (ag_controlToken a) (tool_handler tool) args = (output, isErr, eff)
            \<and> rep = writeJSON 200 (ToolOutput output isErr))"
proof (cases "method = ''POST''")
  case True
  show ?thesis
  proof (cases "me_decode env (take maxMCPBodyBytes body) (length body > maxMCPBodyBytes)")
    case (Inl err)
    then show ?thesis using assms True by (simp add: HandleMCP_def)
  next
    case (Inr r)
    obtain rpc raw where r: "r = (rpc, raw)" by fastforce
    show ?thesis
    proof (cases "rpc = ''tools/call''")
      case call: True
      then show ?thesis
        using assms True Inr r
        by (cases "me_params env raw"; cases "GetTool (fst (the (me_params env raw))) a")
           (fastforce simp: HandleMCP_def split: prod.splits)+
    next
      case False
      then show ?thesis using assms True Inr r by (auto simp: HandleMCP_def split: if_splits)
    qed
  qed
next
  case False
  then show ?thesis using assms by (simp add: HandleMCP_def)
qed

text \<open>
  C21: A call of the MCP endpoint does at most one thing, a request or a process, and only what some
  aggregated tool declares, rendered with the arguments of the call: the URL has no placeholder left, an argument
  vector has exactly the declared number of elements. The bearer of the control port goes out only on a mutating
  request to the loopback host, and is then the provisioned token.
\<close>

theorem mcp_call_does_what_a_tool_declares:
  assumes "HandleMCP env a method body = (eff, rep)"
  shows "length (ef_requests eff) + length (ef_commands eff) \<le> 1
       \<and> (\<forall>req\<in>set (ef_requests eff). \<not> containsBrace (di_url req)
            \<and> (\<exists>name tool args. GetTool name a = Some tool
                 \<and> declared_request env (ag_controlToken a) (tool_handler tool) args req)
            \<and> (di_authorization req \<noteq> None \<longrightarrow>
                 di_authorization req = Some (''Bearer '' @ ag_controlToken a) \<and> ag_controlToken a \<noteq> []
                 \<and> isMutatingMethod (di_method req) \<and> isLoopbackURL (me_hostname env) (di_url req)))
       \<and> (\<forall>cmd\<in>set (ef_commands eff).
            \<exists>name tool args. GetTool name a = Some tool \<and> declared_command (tool_handler tool) args cmd)"
proof -
  have no_brace: "\<not> containsBrace (di_url req)" if "declared_request env t h args req" for req t h args
    using that by (auto simp: declared_request_def renderURL_def Let_def split: if_splits)
  have bearer: "di_authorization req = Some (''Bearer '' @ t) \<and> t \<noteq> []
                 \<and> isMutatingMethod (di_method req) \<and> isLoopbackURL (me_hostname env) (di_url req)"
    if "declared_request env t h args req" and "di_authorization req \<noteq> None" for req t h args
    using that by (auto simp: declared_request_def split: if_splits)
  consider (none) "eff = no_effects"
    | (request) name tool args req where "GetTool name a = Some tool" "eff = no_effects\<lparr>ef_requests := [req]\<rparr>"
        "declared_request env (ag_controlToken a) (tool_handler tool) args req"
    | (command) name tool args cmd where "GetTool name a = Some tool" "eff = no_effects\<lparr>ef_commands := [cmd]\<rparr>"
        "declared_command (tool_handler tool) args cmd"
    using HandleMCP_effects [OF assms] call_tool_effects by metis
  then show ?thesis
  proof cases
    case none
    then show ?thesis by (simp add: no_effects_def)
  next
    case request
    then show ?thesis using no_brace bearer by (simp add: no_effects_def) blast
  next
    case command
    then show ?thesis by (simp add: no_effects_def) blast
  qed
qed

definition sample_tool :: Tool where
  "sample_tool = \<lparr>tool_name = ''delightd_backup'', tool_description = [], tool_schema = [],
     tool_handler = \<lparr>h_type = ''http'', h_method = ''POST'', h_url = ''http://localhost:8088/projects/{project}/backup'',
       h_command = [], h_args = []\<rparr>\<rparr>"

definition sample_mcpenv :: mcpenv where
  "sample_mcpenv = \<lparr>me_order = id, me_decode = (\<lambda>b over. Inr (''tools/call'', b)),
     me_params = (\<lambda>b. Some (''delightd_backup'', [(''project'', ''a/{b'')])), me_exec = (\<lambda>c as. (None, [])),
     me_send = (\<lambda>r. Inr (202, ''202 Accepted'', ''ok'')), me_hostname = (\<lambda>u. Some ''localhost'')\<rparr>"

definition sample_aggregator :: Aggregator where
  "sample_aggregator = \<lparr>ag_workDir = ''/work'', ag_selfManifest = [], ag_tools = [(''delightd_backup'', sample_tool)],
     ag_controlToken = ''s3cret''\<rparr>"

lemma sample_render:
  "renderURL [(''project'', ''a/{b'')] ''http://localhost:8088/projects/{project}/backup''
     = Inr ''http://localhost:8088/projects/a%2F%7Bb/backup''"
  by code_simp

lemma sample_mutating: "isMutatingMethod ''POST''"
  by code_simp

lemma sample_trim: "trimSpace ''ok'' = ''ok''"
  by code_simp

lemma sample_mcp:
  "HandleMCP sample_mcpenv sample_aggregator ''POST'' []
     = (\<lparr>ef_requests = [\<lparr>di_method = ''POST'', di_url = ''http://localhost:8088/projects/a%2F%7Bb/backup'',
                        di_authorization = Some ''Bearer s3cret''\<rparr>], ef_commands = []\<rparr>,
        writeJSON 200 (ToolOutput (Msg ''ok'') False))"
  by (simp add: HandleMCP_def sample_mcpenv_def sample_aggregator_def sample_tool_def GetTool_def call_tool_def
      sample_render sample_mutating isLoopbackURL_def doHTTP_def no_effects_def sample_trim)

theorem mcp_call_does_what_a_tool_declares_witness:
  "(\<exists>name tool args. GetTool name sample_aggregator = Some tool
      \<and> declared_request sample_mcpenv ''s3cret'' (tool_handler tool) args
          \<lparr>di_method = ''POST'', di_url = ''http://localhost:8088/projects/a%2F%7Bb/backup'',
           di_authorization = Some ''Bearer s3cret''\<rparr>)"
  using mcp_call_does_what_a_tool_declares [OF sample_mcp] by (simp add: sample_aggregator_def)



text \<open>
  The argument vector of a command is not so robust: a value that contains a placeholder is itself substituted,
  or refused, depending on the order in which Go happens to iterate over the arguments.
\<close>

theorem command_values_are_substituted_again:
  "renderArgs [(''a'', ''{b}''), (''b'', ''x'')] [''{a}''] = Inr [''x'']
   \<and> renderArgs [(''b'', ''x''), (''a'', ''{b}'')] [''{a}''] = Inl (Fmt ''unfilled command argument in %q'' [''{b}''])"
  by code_simp

section \<open>The generated command line\<close>

text \<open>The characters that cannot stand in a string literal here.\<close>

abbreviation nl :: string where "nl \<equiv> [CHR 0x0A]"
abbreviation sq :: string where "sq \<equiv> [CHR 0x27]"
abbreviation bs :: string where "bs \<equiv> [CHR 0x5C]"

definition cli_prelude :: string where
  \<open>cli_prelude =
     ''#!/usr/bin/env bash'' @ nl @ nl @
     ''CONTROL_TOKEN_FILE="${DELIGHT_CONTROL_TOKEN_FILE:-/run/delightd/control-token}"'' @ nl @
     ''_authcfg() {'' @ nl @
     ''  [ -s "$CONTROL_TOKEN_FILE" ] || { echo "control token not provisioned at $CONTROL_TOKEN_FILE" >&2; exit 1; }'' @ nl @
     ''  local cfg; cfg=$(mktemp) || { echo '' @ sq @ ''cannot create temp curl config'' @ sq @ '' >&2; exit 1; }'' @ nl @
     ''  chmod 600 "$cfg"'' @ nl @
     ''  printf '' @ sq @ ''header = "Authorization: Bearer %s"'' @ bs @ ''n'' @ sq @ '' "$(cat "$CONTROL_TOKEN_FILE")" >"$cfg"'' @ nl @
     ''  printf '' @ sq @ ''%s'' @ sq @ '' "$cfg"'' @ nl @
     ''}'' @ nl @ nl @
     ''_call() {'' @ nl @
     ''  local method="$1" url="$2"; shift 2'' @ nl @
     ''  local out code'' @ nl @
     ''  out=$(curl -s -w $'' @ sq @ bs @ ''n%{http_code}'' @ sq @ '' -X "$method" "$url" "$@")'' @ nl @
     ''  code="${out##*$'' @ sq @ bs @ ''n'' @ sq @ ''}"'' @ nl @
     ''  printf '' @ sq @ ''%s'' @ bs @ ''n'' @ sq @ '' "${out%$'' @ sq @ bs @ ''n'' @ sq @ ''*}"'' @ nl @
     ''  case "$code" in 2[0-9][0-9]) return 0 ;; *) return 1 ;; esac'' @ nl @
     ''}'' @ nl @ nl @
     ''SERVICE=$1'' @ nl @
     ''ACTION=$2'' @ nl @
     ''shift 2'' @ nl @ nl @
     ''case "${SERVICE}_${ACTION}" in'' @ nl\<close>

text \<open>The body of one arm of the script; \<open>None\<close> would be a URL whose numbering does not end.\<close>

definition cli_arm :: "HandlerDef \<Rightarrow> string option" where
  \<open>cli_arm h =
     (if h_type h = ''command'' then
        Some (''    exec '' @ h_command h @ '' '' @ joinWith '' '' (h_args h) @ '' "$@"'' @ nl)
      else if h_type h = ''http'' then
        map_option (\<lambda>url.
          if isMutatingMethod (h_method h)
          then ''    cfg=$(_authcfg); _call '' @ h_method h @ '' "'' @ url @ ''" -K "$cfg" -d "$*"; rc=$?; rm -f "$cfg"; exit $rc'' @ nl
          else ''    _call '' @ h_method h @ '' "'' @ url @ ''" -d "$*"'' @ nl) (positionalURL (h_url h))
      else if h_type h = ''internal'' then
        Some (if h_method h = ''backup''
              then ''    cfg=$(_authcfg); _call POST "http://localhost:8088/projects/$1/backup" -K "$cfg"; rc=$?; rm -f "$cfg"; exit $rc'' @ nl
              else [])
      else Some (''    echo '' @ sq @ ''unsupported handler type'' @ sq @ nl))\<close>

fun cli_arms :: "Tool list \<Rightarrow> string option" where
  \<open>cli_arms [] = Some []\<close>
| \<open>cli_arms (t # ts) =
     Option.bind (cli_arm (tool_handler t)) (\<lambda>arm.
       map_option (\<lambda>rest. ''  "'' @ tool_name t @ ''")'' @ nl @ arm @ ''    ;;'' @ nl @ rest) (cli_arms ts))\<close>

definition usage_line :: "Tool \<Rightarrow> string" where
  "usage_line t =
     (let service = takeWhile (\<lambda>c. c \<noteq> CHR ''_'') (tool_name t);
          action = dropWhile (\<lambda>c. c \<noteq> CHR ''_'') (tool_name t)
      in if action = [] then []
         else ''    echo '' @ sq @ ''  delight '' @ service @ '' '' @ tl action @ '' - '' @ tool_description t @ sq @ nl)"

definition cli_usage :: "Tool list \<Rightarrow> string" where
  "cli_usage tools =
     ''  *)'' @ nl @
     ''    echo '' @ sq @ ''Usage: delight <service> <action> [args]'' @ sq @ nl @
     ''    echo '' @ sq @ ''Available commands:'' @ sq @ nl @
     concat (map usage_line tools) @
     ''    exit 1'' @ nl @ ''    ;;'' @ nl @ ''esac'' @ nl"

text \<open>
  The file system answers the two calls: an error, or \<open>None\<close>. The result is the error returned and the
  write attempted; the outer \<open>None\<close> would be a run that does not end.
\<close>

definition GenerateCLIWrapper ::
  "(string \<Rightarrow> string option) \<Rightarrow> (string \<times> string \<Rightarrow> string option) \<Rightarrow> string \<Rightarrow> Tool list
     \<Rightarrow> (string option \<times> (string \<times> string) list) option" where
  "GenerateCLIWrapper mkdirAll writeFile varBinDir tools =
     (case mkdirAll varBinDir of
        Some err \<Rightarrow> Some (Some err, [])
      | None \<Rightarrow>
          map_option (\<lambda>arms.
            let file = (fp_join [varBinDir, ''delight''], cli_prelude @ arms @ cli_usage tools)
            in (writeFile file, [file])) (cli_arms tools))"

lemma positionalURL_returns: "\<exists>u. positionalURL url = Some u"
  using positional_loop_returns unfolding positionalURL_def by metis

lemma cli_arm_returns: "\<exists>arm. cli_arm h = Some arm"
  using positionalURL_returns [of "h_url h"] by (auto simp: cli_arm_def)

lemma cli_arms_return: "\<exists>arms. cli_arms tools = Some arms"
proof (induction tools)
  case (Cons t ts)
  then show ?case using cli_arm_returns [of "tool_handler t"] by auto
qed simp

text \<open>
  Every tool a mutating verb is declared for gets an arm that sends the control token, whatever host its URL names: the
  command line has no counterpart of the loopback check that guards the MCP endpoint.
\<close>

theorem cli_sends_the_token_to_any_host:
  \<open>cli_arm \<lparr>h_type = ''http'', h_method = ''POST'', h_url = ''http://elsewhere/'', h_command = [], h_args = []\<rparr>
     = Some (''    cfg=$(_authcfg); _call POST "http://elsewhere/" -K "$cfg" -d "$*"; rc=$?; rm -f "$cfg"; exit $rc'' @ nl)
   \<and> \<not> isLoopbackURL (\<lambda>url. Some ''elsewhere'') ''http://elsewhere/''\<close>
proof -
  have "positionalURL ''http://elsewhere/'' = Some ''http://elsewhere/''"
    by (simp add: positionalURL_def positional_loop.simps)
  then show ?thesis
    by (simp add: cli_arm_def sample_mutating isLoopbackURL_def)
qed

text \<open>
  C35: The loop that numbers placeholders for the shell returns for every URL, leaving no complete placeholder
  behind, and on a template it replaces exactly the holes, numbered from one in order of appearance; so the
  generation of the command line returns for every set of tools.
\<close>

theorem positional_url_returns:
  "(\<exists>r. positionalURL url = Some r \<and> \<not> (CHR ''{'' \<in> set r \<and> CHR ''}'' \<in> set (from_open r)))
   \<and> ((\<forall>x\<in>set segs. plain_seg x) \<longrightarrow> positionalURL (flatten segs) = Some (flatten (number 1 segs)))
   \<and> (\<exists>outcome. GenerateCLIWrapper mkdirAll writeFile varBinDir tools = Some outcome)"
proof -
  have "\<exists>outcome. GenerateCLIWrapper mkdirAll writeFile varBinDir tools = Some outcome"
    using cli_arms_return [of tools] by (auto simp: GenerateCLIWrapper_def Let_def split: option.split)
  then show ?thesis
    using positional_loop_returns [of 1 url] positional_loop_template [of segs "[]" 1] by (simp add: positionalURL_def)
qed

theorem positional_url_returns_witness:
  "(\<exists>r. positionalURL ''}{{}'' = Some r)
   \<and> positionalURL (flatten [Lit ''/a/'', Hole ''x'', Hole ''y'']) = Some ''/a/$1$2''"
proof -
  have "showNat 1 = ''1''" and "showNat (1 + 1) = ''2''" by code_simp+
  then show ?thesis
    using positional_url_returns [of "''}{{}''" "[Lit ''/a/'', Hole ''x'', Hole ''y'']"
        "\<lambda>d. None" "\<lambda>f. None" "''/var/bin''" "[]"] by auto
qed

section \<open>Aggregation\<close>

text \<open>The tools a manifest contributes, under their namespaced names, the last of a name first.\<close>

definition contributed :: "string \<Rightarrow> Tool list \<Rightarrow> (string \<times> Tool) list" where
  "contributed ns tools = rev (map (\<lambda>t. let n = ns @ ''_'' @ tool_name t in (n, t\<lparr>tool_name := n\<rparr>)) tools)"

definition manifest_tools :: "(string \<Rightarrow> Tool list option) \<Rightarrow> string \<Rightarrow> string \<Rightarrow> (string \<times> Tool) list" where
  "manifest_tools readManifest path ns = (case readManifest path of None \<Rightarrow> [] | Some tools \<Rightarrow> contributed ns tools)"

lemma load_fold:
  "fold (\<lambda>t a. let toolName = ns @ ''_'' @ tool_name t
      in a\<lparr>ag_tools := AList.update toolName (t\<lparr>tool_name := toolName\<rparr>) (ag_tools a)\<rparr>) tools a = b \<Longrightarrow>
   map_of (ag_tools b) = map_of (contributed ns tools @ ag_tools a)
   \<and> ag_workDir b = ag_workDir a \<and> ag_selfManifest b = ag_selfManifest a"
proof (induction tools arbitrary: a)
  case (Cons t tools)
  let ?n = "ns @ ''_'' @ tool_name t"
  from Cons.prems Cons.IH [of "a\<lparr>ag_tools := AList.update ?n (t\<lparr>tool_name := ?n\<rparr>) (ag_tools a)\<rparr>"]
  show ?case
    by (auto simp: contributed_def update_conv' Let_def fun_eq_iff map_add_def split: option.split)
qed (simp add: contributed_def)

lemma loadManifest_tools:
  "map_of (ag_tools (loadManifest rd path ns a)) = map_of (manifest_tools rd path ns @ ag_tools a)"
  "ag_workDir (loadManifest rd path ns a) = ag_workDir a" "ag_selfManifest (loadManifest rd path ns a) = ag_selfManifest a"
  using load_fold [of ns _ a, OF refl] by (simp_all add: loadManifest_def manifest_tools_def split: option.split)

lemma scan_fold:
  "fold (\<lambda>proj a. loadManifest rd (fp_join [ag_workDir a, proj, ''mcp.json'']) proj a) projects a = b \<Longrightarrow>
   map_of (ag_tools b) = map_of (concat (map (\<lambda>p. manifest_tools rd (fp_join [ag_workDir a, p, ''mcp.json'']) p) (rev projects)) @ ag_tools a)
   \<and> ag_workDir b = ag_workDir a \<and> ag_selfManifest b = ag_selfManifest a"
proof (induction projects arbitrary: a)
  case (Cons p projects)
  let ?a = "loadManifest rd (fp_join [ag_workDir a, p, ''mcp.json'']) p a"
  from Cons.prems Cons.IH [of ?a] show ?case
    by (simp add: loadManifest_tools)
qed simp

text \<open>
  After a scan a tool is looked up under \<^verbatim>\<open>project_tool\<close> in what the manifests say now and nothing older: in the daemon's own
  manifest first, then in the projects', the later project first; a project whose manifest is missing or
  malformed contributes nothing and harms no other.
\<close>

theorem tools_are_what_the_manifests_say:
  "GetTool name (ScanProjects readManifest projects a) =
     map_of ((if ag_selfManifest a \<noteq> [] then manifest_tools readManifest (ag_selfManifest a) ''delightd'' else [])
             @ concat (map (\<lambda>p. manifest_tools readManifest (fp_join [ag_workDir a, p, ''mcp.json'']) p) (rev projects))) name"
proof -
  let ?b = "fold (\<lambda>proj a. loadManifest readManifest (fp_join [ag_workDir a, proj, ''mcp.json'']) proj a) projects (a\<lparr>ag_tools := []\<rparr>)"
  note b = scan_fold [of readManifest projects "a\<lparr>ag_tools := []\<rparr>" ?b, OF refl]
  then show ?thesis
    by (simp add: GetTool_def ScanProjects_def Let_def loadManifest_tools)
qed

end
