(* ===== verification/Exports.thy ===== *)
theory Exports
  imports Config "HOL-Library.AList"
begin

text \<open>
  The exports engine: \<^verbatim>\<open>pkg/exports\<close>. It collects what every project exports, from a registry file and from
  the executables in the project's \<^verbatim>\<open>bin\<close>, links each into one directory, writes a shell wrapper for the containerised
  ones, and moves links nobody exports any more to an archive. The operating system answers through a record of its
  calls over a state of any type; the laws the proofs use of it are a locale.
\<close>

section \<open>Types\<close>

definition TypeBinary :: string where "TypeBinary = ''binary''"
definition TypeDockerRun :: string where "TypeDockerRun = ''docker-run''"
definition TypeDockerExec :: string where "TypeDockerExec = ''docker-exec''"

record ExportDef =
  ex_bin :: string
  ex_type :: string
  ex_target :: string
  ex_container :: string
  ex_command :: string
  ex_image :: string
  ex_workdir :: string

record ProjectExports =
  pe_name :: string
  pe_path :: string
  pe_exports :: "ExportDef list"

section \<open>The operating system\<close>

datatype oserr = NotExist | OtherErr string

record dirent =
  de_name :: string
  de_isDir :: bool
  de_mode :: "nat option"

text \<open>
  \<open>xo_registry\<close> is what decoding the registry file left in the struct, nothing when it is missing or unreadable;
  \<open>xo_marshal\<close> is the JSON encoder, and \<open>xo_now\<close> the time stamp of an archive directory.
\<close>

type_synonym exports_map = "(string \<times> (string \<times> ExportDef) list) list"

record 's xos =
  xo_registry :: "'s \<Rightarrow> ProjectExports list"
  xo_readDir :: "'s \<Rightarrow> string \<Rightarrow> oserr + dirent list"
  xo_readlink :: "'s \<Rightarrow> string \<Rightarrow> oserr + string"
  xo_remove :: "string \<Rightarrow> 's \<Rightarrow> 's \<times> oserr option"
  xo_symlink :: "string \<Rightarrow> string \<Rightarrow> 's \<Rightarrow> 's \<times> oserr option"
  xo_rename :: "string \<Rightarrow> string \<Rightarrow> 's \<Rightarrow> 's \<times> oserr option"
  xo_mkdirAll :: "string \<Rightarrow> 's \<Rightarrow> 's \<times> oserr option"
  xo_writeFile :: "string \<Rightarrow> string \<Rightarrow> 's \<Rightarrow> 's \<times> oserr option"
  xo_marshal :: "exports_map \<Rightarrow> string"
  xo_now :: string

section \<open>filepath.Rel\<close>

fun strip_common :: "string list \<Rightarrow> string list \<Rightarrow> string list \<times> string list" where
  "strip_common (a # as) (b # bs) = (if a = b then strip_common as bs else (a # as, b # bs))"
| "strip_common as bs = (as, bs)"

text \<open>The elements of a clean path; a base of \<^verbatim>\<open>.\<close> has none. \<open>None\<close> is the error.\<close>

definition path_elems :: "string \<Rightarrow> string list" where
  "path_elems p = filter (\<lambda>e. e \<noteq> []) (splitOn (CHR ''/'') p)"

definition fp_rel :: "string \<Rightarrow> string \<Rightarrow> string option" where
  "fp_rel basepath targpath =
     (let base = fp_clean basepath; targ = fp_clean targpath
      in if targ = base then Some ''.''
         else
           let base' = (if base = ''.'' then [] else base)
           in if hasPrefix base' ''/'' \<noteq> hasPrefix targ ''/'' then None
              else (case strip_common (path_elems base') (path_elems targ) of
                      (bs, ts) \<Rightarrow>
                        if bs \<noteq> [] \<and> hd bs = ''..'' then None
                        else Some (joinWith ''/'' (map (\<lambda>_. ''..'') bs @ ts))))"

section \<open>Scanning and wrappers\<close>

definition executable :: "nat \<Rightarrow> bool" where
  "executable mode \<longleftrightarrow> (mode div 64) mod 2 = 1 \<or> (mode div 8) mod 2 = 1 \<or> mode mod 2 = 1"

definition ScanProject :: "'s xos \<Rightarrow> 's \<Rightarrow> string \<Rightarrow> ExportDef list" where
  "ScanProject X s projPath =
     (let binDir = fp_join [projPath, ''bin'']
      in case xo_readDir X s binDir of
           Inl err \<Rightarrow> []
         | Inr entries \<Rightarrow>
             map (\<lambda>e. \<lparr>ex_bin = de_name e, ex_type = TypeBinary, ex_target = fp_join [binDir, de_name e],
                        ex_container = [], ex_command = [], ex_image = [], ex_workdir = []\<rparr>)
               (filter (\<lambda>e. \<not> de_isDir e \<and> (case de_mode e of None \<Rightarrow> False | Some m \<Rightarrow> executable m)) entries))"

abbreviation newline :: string where "newline \<equiv> [CHR 0x0A]"
abbreviation backslash :: string where "backslash \<equiv> [CHR 0x5C]"

definition dockerRunTmpl :: "ExportDef \<Rightarrow> string" where
  \<open>dockerRunTmpl def =
     ''#!/usr/bin/env bash'' @ newline @
     ''# Generated by delightd'' @ newline @
     ''# Type: docker-run'' @ newline @ newline @
     ''exec docker run --rm -i '' @ backslash @ newline @
     ''  -v "$(pwd):'' @ ex_workdir def @ ''" '' @ backslash @ newline @
     ''  -w "'' @ ex_workdir def @ ''" '' @ backslash @ newline @
     ''  "'' @ ex_image def @ ''" "$@"'' @ newline\<close>

definition dockerExecTmpl :: "ExportDef \<Rightarrow> string" where
  \<open>dockerExecTmpl def =
     ''#!/usr/bin/env bash'' @ newline @
     ''# Generated by delightd'' @ newline @
     ''# Type: docker-exec'' @ newline @ newline @
     ''exec docker exec -i "'' @ ex_container def @ ''" '' @ ex_command def @ '' "$@"'' @ newline\<close>

definition GenerateWrapper :: "ExportDef \<Rightarrow> string + string" where
  "GenerateWrapper def =
     (if ex_type def = TypeDockerRun then Inr (dockerRunTmpl def)
      else if ex_type def = TypeDockerExec then Inr (dockerExecTmpl def)
      else Inl (''cannot generate wrapper for type '' @ ex_type def))"

section \<open>The engine\<close>

record Engine =
  en_registryPath :: string
  en_varBinDir :: string
  en_stateDir :: string
  en_archiveDir :: string
  en_workDir :: string

text \<open>\<open>home\<close> is the home directory, empty when there is none; \<open>env\<close> the environment.\<close>

definition NewEngine :: "string \<Rightarrow> (string \<Rightarrow> string option) \<Rightarrow> string \<Rightarrow> Engine" where
  "NewEngine home0 env workDir =
     (let home = (if home0 = [] then ''/'' else home0);
          getEnv = (\<lambda>key fallback. case env key of Some val \<Rightarrow> val | None \<Rightarrow> fallback)
      in \<lparr>en_registryPath = getEnv ''DELIGHT_EXPORTS_REGISTRY'' (fp_join [home, ''etc'', ''delight-registry.yaml'']),
          en_varBinDir = getEnv ''DELIGHT_EXPORTS_BIN'' (fp_join [home, ''var'', ''bin'']),
          en_stateDir = getEnv ''DELIGHT_EXPORTS_STATE'' (fp_join [home, ''var'', ''runtime'', ''delightd'', ''exports'']),
          en_archiveDir = getEnv ''DELIGHT_EXPORTS_ARCHIVE'' (fp_join [home, ''var'', ''archive'', ''delightd'', ''exports'']),
          en_workDir = workDir\<rparr>)"

definition ensureSymlink :: "'s xos \<Rightarrow> string \<Rightarrow> string \<Rightarrow> bool \<Rightarrow> 's \<Rightarrow> 's" where
  "ensureSymlink X target link dryRun s =
     (if xo_readlink X s link = Inr target then s
      else if dryRun then s
      else
        let s1 = (if xo_readlink X s link \<noteq> Inl NotExist then fst (xo_remove X link s) else s)
        in fst (xo_symlink X target link s1))"

text \<open>The map of maps: registry entries first, what a scan finds only where the registry says nothing.\<close>

definition inner :: "exports_map \<Rightarrow> string \<Rightarrow> (string \<times> ExportDef) list" where
  "inner m p = (case map_of m p of None \<Rightarrow> [] | Some es \<Rightarrow> es)"

definition from_registry :: "ProjectExports list \<Rightarrow> exports_map" where
  "from_registry ps =
     fold (\<lambda>p m. AList.update (pe_name p) (fold (\<lambda>ex es. AList.update (ex_bin ex) ex es) (pe_exports p) (inner m (pe_name p))) m) ps []"

definition add_scanned :: "'s xos \<Rightarrow> 's \<Rightarrow> Engine \<Rightarrow> string list \<Rightarrow> exports_map \<Rightarrow> exports_map" where
  "add_scanned X s e knownProjects m =
     fold (\<lambda>pName m.
       AList.update pName
         (fold (\<lambda>ex es. if map_of es (ex_bin ex) = None then AList.update (ex_bin ex) ex es else es)
            (ScanProject X s (fp_join [en_workDir e, pName])) (inner m pName)) m) knownProjects m"

definition expected_exports :: "'s xos \<Rightarrow> 's \<Rightarrow> Engine \<Rightarrow> string list \<Rightarrow> exports_map" where
  "expected_exports X s e knownProjects = add_scanned X s e knownProjects (from_registry (xo_registry X s))"

text \<open>One export: the body of the inner loop.\<close>

definition relative_to :: "string \<Rightarrow> string \<Rightarrow> string" where
  "relative_to dir target = (case fp_rel dir target of None \<Rightarrow> target | Some r \<Rightarrow> r)"

definition sync_one :: "'s xos \<Rightarrow> Engine \<Rightarrow> bool \<Rightarrow> string \<Rightarrow> string \<times> ExportDef \<Rightarrow> 's \<Rightarrow> 's" where
  "sync_one X e dryRun pName = (\<lambda>(binName, def) s.
     (let projStateDir = fp_join [en_stateDir e, pName];
          binTarget = fp_join [en_varBinDir e, binName]
      in if ex_type def = TypeBinary
         then ensureSymlink X (relative_to (en_varBinDir e) (ex_target def)) binTarget dryRun s
         else
           let s1 = (if dryRun then s else fst (xo_mkdirAll X projStateDir s));
               wrapperPath = fp_join [projStateDir, binName @ ''.sh'']
           in case GenerateWrapper def of
                Inl err \<Rightarrow> s1
              | Inr wrapperCode \<Rightarrow>
                  (case (if dryRun then (s1, None) else xo_writeFile X wrapperPath wrapperCode s1) of
                     (s2, Some err) \<Rightarrow> s2
                   | (s2, None) \<Rightarrow> ensureSymlink X (relative_to (en_varBinDir e) wrapperPath) binTarget dryRun s2)))"

definition managed :: "string \<Rightarrow> bool" where
  "managed target \<longleftrightarrow> containsSub target ''delightd/exports'' \<or> containsSub target ''/work/''"

definition archive_one :: "'s xos \<Rightarrow> Engine \<Rightarrow> (string \<Rightarrow> bool) \<Rightarrow> bool \<Rightarrow> string \<Rightarrow> 's \<Rightarrow> 's" where
  "archive_one X e expected dryRun binName s =
     (if expected binName then s
      else
        let linkPath = fp_join [en_varBinDir e, binName]
        in case xo_readlink X s linkPath of
             Inl err \<Rightarrow> s
           | Inr target \<Rightarrow>
               let isWrapper = containsSub target ''delightd/exports'';
                   isNative = containsSub target ''/work/'';
                   archDir = fp_join [en_archiveDir e, xo_now X]
               in if \<not> isWrapper \<and> \<not> isNative then s
                  else if dryRun then s
                  else
                    let s1 = fst (xo_mkdirAll X archDir s);
                        s2 = (if isWrapper then fst (xo_rename X target (fp_join [archDir, binName @ ''.sh'']) s1) else s1)
                    in fst (xo_rename X linkPath (fp_join [archDir, binName]) s2))"

definition archiveOrphans :: "'s xos \<Rightarrow> Engine \<Rightarrow> (string \<Rightarrow> bool) \<Rightarrow> bool \<Rightarrow> 's \<Rightarrow> 's" where
  "archiveOrphans X e expected dryRun s =
     (case xo_readDir X s (en_varBinDir e) of
        Inl err \<Rightarrow> s
      | Inr entries \<Rightarrow> fold (archive_one X e expected dryRun) (map de_name entries) s)"

definition dumpState :: "'s xos \<Rightarrow> Engine \<Rightarrow> exports_map \<Rightarrow> bool \<Rightarrow> 's \<Rightarrow> 's" where
  "dumpState X e st dryRun s =
     (if dryRun then s else fst (xo_writeFile X (fp_join [en_stateDir e, ''state.json'']) (xo_marshal X st) s))"

text \<open>
  \<open>iter\<close> is the order in which Go happens to iterate: any rearrangement of the outer map, and of each inner one.
\<close>

definition sync_loop :: "'s xos \<Rightarrow> Engine \<Rightarrow> bool \<Rightarrow> exports_map \<Rightarrow> 's \<Rightarrow> 's" where
  "sync_loop X e dryRun iter s = fold (\<lambda>(pName, exports). fold (sync_one X e dryRun pName) exports) iter s"

definition bin_names :: "exports_map \<Rightarrow> string list" where
  "bin_names m = concat (map (map fst \<circ> snd) m)"

definition Sync :: "'s xos \<Rightarrow> Engine \<Rightarrow> (exports_map \<Rightarrow> exports_map) \<Rightarrow> string list \<Rightarrow> bool \<Rightarrow> 's \<Rightarrow> 's" where
  "Sync X e iter knownProjects dryRun s =
     (let expected = expected_exports X s e knownProjects;
          s1 = (if dryRun then s else fst (xo_mkdirAll X (en_stateDir e) (fst (xo_mkdirAll X (en_varBinDir e) s))));
          s2 = sync_loop X e dryRun (iter expected) s1;
          s3 = archiveOrphans X e (\<lambda>b. b \<in> set (bin_names (iter expected))) dryRun s2
      in dumpState X e expected dryRun s3)"

definition HasBashFragment :: "'s xos \<Rightarrow> Engine \<Rightarrow> string \<Rightarrow> 's \<Rightarrow> bool" where
  "HasBashFragment X e project s =
     (case xo_readDir X s (fp_join [en_stateDir e, project]) of
        Inl err \<Rightarrow> False
      | Inr entries \<Rightarrow> \<exists>entry\<in>set entries. \<not> de_isDir entry \<and> hasSuffix (de_name entry) ''.sh'')"

section \<open>What is expected\<close>

lemma inner_update: "inner (AList.update p es m) q = (if q = p then es else inner m q)"
  by (simp add: inner_def update_conv')

lemma fold_updates:
  "map_of (fold (\<lambda>ex es. AList.update (ex_bin ex) ex es) exs es) b
     = (case map_of (rev (map (\<lambda>ex. (ex_bin ex, ex)) exs)) b of None \<Rightarrow> map_of es b | Some ex \<Rightarrow> Some ex)"
  by (induction exs arbitrary: es) (auto simp: update_conv' split: option.split)

lemma fold_defaults:
  "map_of (fold (\<lambda>ex es. if map_of es (ex_bin ex) = None then AList.update (ex_bin ex) ex es else es) exs es) b
     = (case map_of es b of None \<Rightarrow> map_of (map (\<lambda>ex. (ex_bin ex, ex)) exs) b | Some ex \<Rightarrow> Some ex)"
proof (induction exs arbitrary: es)
  case (Cons ex exs)
  then show ?case
    by (cases "map_of es (ex_bin ex)") (auto simp: update_conv' split: option.split)
qed (auto split: option.split)

text \<open>The reference: what the registry says last of a name, else what a scan of a known project finds first.\<close>

definition registered :: "ProjectExports list \<Rightarrow> string \<Rightarrow> string \<Rightarrow> ExportDef option" where
  "registered ps p b =
     map_of (rev (map (\<lambda>ex. (ex_bin ex, ex)) (concat (map pe_exports (filter (\<lambda>q. pe_name q = p) ps))))) b"

definition scanned :: "'s xos \<Rightarrow> 's \<Rightarrow> Engine \<Rightarrow> string \<Rightarrow> string \<Rightarrow> ExportDef option" where
  "scanned X s e p b = map_of (map (\<lambda>ex. (ex_bin ex, ex)) (ScanProject X s (fp_join [en_workDir e, p]))) b"

lemma from_registry_fold:
  "map_of (inner (fold (\<lambda>p m. AList.update (pe_name p) (fold (\<lambda>ex es. AList.update (ex_bin ex) ex es) (pe_exports p) (inner m (pe_name p))) m) ps m) p) b
     = (case registered ps p b of None \<Rightarrow> map_of (inner m p) b | Some ex \<Rightarrow> Some ex)"
proof (induction ps arbitrary: m)
  case Nil
  then show ?case by (simp add: registered_def)
next
  case (Cons q ps)
  then show ?case
    by (auto simp: registered_def inner_update fold_updates map_add_def split: option.split)
qed

lemma from_registry_lookup: "map_of (inner (from_registry ps) p) b = registered ps p b"
  using from_registry_fold [where m = "[]"] by (simp add: from_registry_def inner_def split: option.splits)

lemma add_scanned_lookup:
  "map_of (inner (add_scanned X s e known m) p) b
     = (case map_of (inner m p) b of None \<Rightarrow> if p \<in> set known then scanned X s e p b else None | Some ex \<Rightarrow> Some ex)"
proof (induction known arbitrary: m)
  case Nil
  then show ?case by (simp add: add_scanned_def split: option.split)
next
  case (Cons q known)
  have "add_scanned X s e (q # known) m = add_scanned X s e known
          (AList.update q (fold (\<lambda>ex es. if map_of es (ex_bin ex) = None then AList.update (ex_bin ex) ex es else es)
            (ScanProject X s (fp_join [en_workDir e, q])) (inner m q)) m)"
    by (simp add: add_scanned_def)
  then show ?case
    by (auto simp: Cons.IH inner_update fold_defaults scanned_def split: option.split)
qed

text \<open>
  The exports the engine links are, per project and name, what the registry file says last, and otherwise, for a
  known project, the first executable of that name in its \<^verbatim>\<open>bin\<close>: the registry overrides the scan, and nothing else is
  exported.
\<close>

theorem registry_overrides_scan:
  "map_of (inner (expected_exports X s e known) p) b
     = (case registered (xo_registry X s) p b of
          Some ex \<Rightarrow> Some ex
        | None \<Rightarrow> if p \<in> set known then scanned X s e p b else None)"
  by (simp add: expected_exports_def add_scanned_lookup from_registry_lookup split: option.split)

section \<open>The bin directory\<close>

abbreviation binpath :: "Engine \<Rightarrow> string \<Rightarrow> string" where
  "binpath e n \<equiv> fp_join [en_varBinDir e, n]"

definition archive_dir :: "'s xos \<Rightarrow> Engine \<Rightarrow> string" where
  "archive_dir X e = fp_join [en_archiveDir e, xo_now X]"

text \<open>The link an export gets.\<close>

definition link_of :: "Engine \<Rightarrow> string \<Rightarrow> string \<times> ExportDef \<Rightarrow> string" where
  "link_of e p bd = relative_to (en_varBinDir e)
     (if ex_type (snd bd) = TypeBinary then ex_target (snd bd) else fp_join [fp_join [en_stateDir e, p], fst bd @ ''.sh''])"

text \<open>The two nested loops as one sequence of exports.\<close>

definition steps_of :: "exports_map \<Rightarrow> (string \<times> string \<times> ExportDef) list" where
  "steps_of iter = concat (map (\<lambda>(p, es). map (Pair p) es) iter)"

definition sync_steps :: "'s xos \<Rightarrow> Engine \<Rightarrow> bool \<Rightarrow> (string \<times> string \<times> ExportDef) list \<Rightarrow> 's \<Rightarrow> 's" where
  "sync_steps X e dryRun = fold (\<lambda>(p, bd). sync_one X e dryRun p bd)"

lemma sync_loop_steps: "sync_loop X e dryRun iter s = sync_steps X e dryRun (steps_of iter) s"
proof (induction iter arbitrary: s)
  case (Cons pe iter)
  have "fold (sync_one X e dryRun p) es s = sync_steps X e dryRun (map (Pair p) es) s" for p es
    by (simp add: sync_steps_def fold_map comp_def)
  with Cons show ?case
    by (cases pe) (simp add: sync_loop_def steps_of_def sync_steps_def)
qed (simp add: sync_loop_def steps_of_def sync_steps_def)

lemma bin_names_steps: "bin_names iter = map (fst \<circ> snd) (steps_of iter)"
  by (induction iter) (auto simp: bin_names_def steps_of_def)

definition prepared :: "'s xos \<Rightarrow> Engine \<Rightarrow> 's \<Rightarrow> 's" where
  "prepared X e s = fst (xo_mkdirAll X (en_stateDir e) (fst (xo_mkdirAll X (en_varBinDir e) s)))"

text \<open>The calls one export makes all succeed: its wrapper could be written, and its link made.\<close>

definition ensure_ok :: "'s xos \<Rightarrow> string \<Rightarrow> string \<Rightarrow> 's \<Rightarrow> bool" where
  "ensure_ok X target link s \<longleftrightarrow>
     xo_readlink X s link = Inr target
     \<or> snd (xo_symlink X target link (if xo_readlink X s link \<noteq> Inl NotExist then fst (xo_remove X link s) else s)) = None"

definition step_ok :: "'s xos \<Rightarrow> Engine \<Rightarrow> string \<Rightarrow> string \<times> ExportDef \<Rightarrow> 's \<Rightarrow> bool" where
  "step_ok X e p bd s =
     (if ex_type (snd bd) = TypeBinary then ensure_ok X (link_of e p bd) (binpath e (fst bd)) s
      else (case GenerateWrapper (snd bd) of
              Inl err \<Rightarrow> False
            | Inr code \<Rightarrow>
                (let projStateDir = fp_join [en_stateDir e, p];
                     w = xo_writeFile X (fp_join [projStateDir, fst bd @ ''.sh'']) code (fst (xo_mkdirAll X projStateDir s))
                 in snd w = None \<and> ensure_ok X (link_of e p bd) (binpath e (fst bd)) (fst w))))"

text \<open>
  What the engine relies on: a link that could be made is there, writing a file or making a directory makes and replaces
  no link, and an operation on one entry leaves the others alone, where \<open>same\<close> says that two paths name the
  same entry; distinct names name distinct entries of the bin directory, none of them in the archive.
\<close>

locale bin_directory =
  fixes X :: "'s xos" and e :: Engine and same :: "string \<Rightarrow> string \<Rightarrow> bool"
  assumes entry_names: "xo_readDir X s d = Inr entries \<Longrightarrow> en \<in> set entries \<Longrightarrow> name_ok (de_name en)"
    and mkdir_link: "xo_readlink X (fst (xo_mkdirAll X d s)) p = Inr t \<longleftrightarrow> xo_readlink X s p = Inr t"
    and write_link: "xo_readlink X (fst (xo_writeFile X q c s)) p = Inr t \<longleftrightarrow> xo_readlink X s p = Inr t"
    and symlink_new: "snd (xo_symlink X t p s) = None \<Longrightarrow> xo_readlink X (fst (xo_symlink X t p s)) p = Inr t"
    and symlink_other: "\<not> same q p \<Longrightarrow> xo_readlink X (fst (xo_symlink X t q s)) p = xo_readlink X s p"
    and remove_other: "\<not> same q p \<Longrightarrow> xo_readlink X (fst (xo_remove X q s)) p = xo_readlink X s p"
    and rename_keeps: "\<not> same a p \<Longrightarrow> \<not> same b p \<Longrightarrow> xo_readlink X s p = Inr t \<Longrightarrow> xo_readlink X (fst (xo_rename X a b s)) p = Inr t"
    and rename_no_new: "\<not> same b p \<Longrightarrow> xo_readlink X (fst (xo_rename X a b s)) p = Inr t \<Longrightarrow> xo_readlink X s p = Inr t"
    and entries_apart: "name_ok n \<Longrightarrow> name_ok m \<Longrightarrow> m \<noteq> n \<Longrightarrow> \<not> same (binpath e n) (binpath e m)"
    and archive_apart: "name_ok n \<Longrightarrow> name_ok m \<Longrightarrow> \<not> same (fp_join [archive_dir X e, n]) (binpath e m)"
begin

lemma ensure_installs:
  "ensure_ok X t p s \<Longrightarrow> xo_readlink X (ensureSymlink X t p False s) p = Inr t"
  by (auto simp: ensure_ok_def ensureSymlink_def Let_def symlink_new)

lemma ensure_other:
  "name_ok n \<Longrightarrow> name_ok m \<Longrightarrow> m \<noteq> n \<Longrightarrow>
     xo_readlink X (ensureSymlink X t (binpath e n) False s) (binpath e m) = xo_readlink X s (binpath e m)"
  by (simp add: ensureSymlink_def Let_def symlink_other remove_other entries_apart)

lemma write_link': "xo_writeFile X q c s = (s', r) \<Longrightarrow> xo_readlink X s' p = Inr t \<longleftrightarrow> xo_readlink X s p = Inr t"
  using write_link [of q c s p t] by simp

lemma sync_one_other:
  assumes "m \<noteq> fst bd" and "name_ok m" and "name_ok (fst bd)"
  shows "xo_readlink X (sync_one X e False p bd s) (binpath e m) = Inr t \<longleftrightarrow> xo_readlink X s (binpath e m) = Inr t"
  using assms
  by (cases bd) (auto simp: sync_one_def Let_def ensure_other write_link' mkdir_link split: sum.split prod.split option.split)

lemma sync_one_installs:
  assumes "step_ok X e p bd s"
  shows "xo_readlink X (sync_one X e False p bd s) (binpath e (fst bd)) = Inr (link_of e p bd)"
proof -
  obtain b def where bd: "bd = (b, def)" by fastforce
  show ?thesis
  proof (cases "ex_type def = TypeBinary")
    case True
    then show ?thesis
      using assms ensure_installs by (simp add: bd step_ok_def sync_one_def link_of_def)
  next
    case False
    let ?dir = "fp_join [en_stateDir e, p]"
    obtain code where code: "GenerateWrapper def = Inr code"
      using assms False by (auto simp: bd step_ok_def split: sum.splits)
    obtain s2 where "xo_writeFile X (fp_join [?dir, b @ ''.sh'']) code (fst (xo_mkdirAll X ?dir s)) = (s2, None)"
      and "ensure_ok X (link_of e p bd) (binpath e b) s2"
      using assms False code by (auto simp: bd step_ok_def Let_def prod_eq_iff)
    then show ?thesis
      using False code ensure_installs by (simp add: bd sync_one_def link_of_def)
  qed
qed

lemma sync_steps_other:
  "m \<notin> set (map (fst \<circ> snd) steps) \<Longrightarrow> name_ok m \<Longrightarrow> \<forall>b\<in>set (map (fst \<circ> snd) steps). name_ok b \<Longrightarrow>
     xo_readlink X (sync_steps X e False steps s) (binpath e m) = Inr t \<longleftrightarrow> xo_readlink X s (binpath e m) = Inr t"
  by (induction steps arbitrary: s) (auto simp: sync_steps_def sync_one_other)

lemma sync_steps_installs:
  assumes "steps = pre @ (p, bd) # post" and "distinct (map (fst \<circ> snd) steps)" and "\<forall>b\<in>set (map (fst \<circ> snd) steps). name_ok b"
    and "step_ok X e p bd (sync_steps X e False pre s)"
  shows "xo_readlink X (sync_steps X e False steps s) (binpath e (fst bd)) = Inr (link_of e p bd)"
proof -
  have "sync_steps X e False steps s = sync_steps X e False post (sync_one X e False p bd (sync_steps X e False pre s))"
    using assms(1) by (simp add: sync_steps_def)
  then show ?thesis
    using sync_steps_other [of "fst bd" post] sync_one_installs [OF assms(4)] assms(1-3) by simp
qed

text \<open>
  While orphans are archived, no link appears, and a link that is expected, or not the engine's own, stays: given that
  the wrappers that orphaned links point to are no entries of the bin directory themselves.
\<close>

lemma archive_one_cases:
  obtains (same) "archive_one X e expected False n s = s"
  | (moved) u where "xo_readlink X s (binpath e n) = Inr u" "managed u" "\<not> expected n"
      "archive_one X e expected False n s =
         fst (xo_rename X (binpath e n) (fp_join [archive_dir X e, n])
           (if containsSub u ''delightd/exports''
            then fst (xo_rename X u (fp_join [archive_dir X e, n @ ''.sh'']) (fst (xo_mkdirAll X (archive_dir X e) s)))
            else fst (xo_mkdirAll X (archive_dir X e) s)))"
proof (cases "\<not> expected n \<and> (\<exists>u. xo_readlink X s (binpath e n) = Inr u \<and> managed u)")
  case False
  then have "archive_one X e expected False n s = s"
    by (cases "xo_readlink X s (binpath e n)") (auto simp: archive_one_def managed_def Let_def)
  then show ?thesis by (rule that(1))
next
  case True
  then show ?thesis
    by (auto intro!: that(2) simp: archive_one_def archive_dir_def managed_def Let_def)
qed

lemma name_ok_sh: "name_ok n \<Longrightarrow> name_ok (n @ ''.sh'')"
  by (cases n) (auto simp: name_ok_def)

lemma archive_one_no_new:
  assumes "name_ok m" and "name_ok n" and "xo_readlink X (archive_one X e expected False n s) (binpath e m) = Inr t"
  shows "xo_readlink X s (binpath e m) = Inr t"
proof (cases rule: archive_one_cases [of expected n s])
  case same
  then show ?thesis using assms(3) by simp
next
  case (moved u)
  note apart = archive_apart [OF assms(2,1)] archive_apart [OF name_ok_sh [OF assms(2)] assms(1)]
  let ?s1 = "fst (xo_mkdirAll X (archive_dir X e) s)"
  have "xo_readlink X (if containsSub u ''delightd/exports''
          then fst (xo_rename X u (fp_join [archive_dir X e, n @ ''.sh'']) ?s1) else ?s1) (binpath e m) = Inr t"
    using assms(3) unfolding moved(4) by (rule rename_no_new [OF apart(1)])
  then have "xo_readlink X ?s1 (binpath e m) = Inr t"
    by (cases "containsSub u ''delightd/exports''") (simp_all, rule rename_no_new [OF apart(2)])
  then show ?thesis by (simp only: mkdir_link)
qed

lemma archive_one_keeps:
  assumes "xo_readlink X s (binpath e m) = Inr t" and "expected m \<or> \<not> managed t" and "name_ok m" and "name_ok n"
    and "\<And>u. xo_readlink X s (binpath e n) = Inr u \<Longrightarrow> \<not> expected n \<Longrightarrow> containsSub u ''delightd/exports'' \<Longrightarrow> \<not> same u (binpath e m)"
  shows "xo_readlink X (archive_one X e expected False n s) (binpath e m) = Inr t"
proof (cases rule: archive_one_cases [of expected n s])
  case same
  then show ?thesis using assms(1) by simp
next
  case (moved u)
  have "m \<noteq> n" using moved assms(1,2) by auto
  then have "\<not> same (binpath e n) (binpath e m)" using assms(3,4) entries_apart by simp
  moreover have "xo_readlink X (fst (xo_mkdirAll X (archive_dir X e) s)) (binpath e m) = Inr t"
    using assms(1) by (simp add: mkdir_link)
  ultimately show ?thesis
    unfolding moved(4)
    using rename_keeps archive_apart [OF assms(4,3)] archive_apart [OF name_ok_sh [OF assms(4)] assms(3)]
      assms(5) [OF moved(1,3)] by (cases "containsSub u ''delightd/exports''") simp_all
qed

lemma archive_fold_keeps:
  assumes "xo_readlink X s (binpath e m) = Inr t" and "expected m \<or> \<not> managed t" and "name_ok m" and "\<forall>n\<in>set ns. name_ok n"
    and "\<And>n u. name_ok n \<Longrightarrow> xo_readlink X s (binpath e n) = Inr u \<Longrightarrow> \<not> expected n \<Longrightarrow> containsSub u ''delightd/exports'' \<Longrightarrow> \<not> same u (binpath e m)"
  shows "xo_readlink X (fold (archive_one X e expected False) ns s) (binpath e m) = Inr t"
  using assms(1,4,5)
proof (induction ns arbitrary: s)
  case (Cons n ns)
  then have "name_ok n" by simp
  have "xo_readlink X (archive_one X e expected False n s) (binpath e m) = Inr t"
    using Cons.prems(1) assms(2,3) \<open>name_ok n\<close> by (rule archive_one_keeps) (rule Cons.prems(3) [OF \<open>name_ok n\<close>])
  moreover have "\<not> same u (binpath e m)"
    if "name_ok k" "xo_readlink X (archive_one X e expected False n s) (binpath e k) = Inr u" "\<not> expected k"
      "containsSub u ''delightd/exports''" for k u
    using Cons.prems(3) [OF that(1) archive_one_no_new [OF that(1) \<open>name_ok n\<close> that(2)] that(3,4)] .
  ultimately show ?case
    using Cons.IH Cons.prems(2) by simp
qed simp

lemma archiveOrphans_keeps:
  assumes "xo_readlink X s (binpath e m) = Inr t" and "expected m \<or> \<not> managed t" and "name_ok m"
    and "\<And>n u. name_ok n \<Longrightarrow> xo_readlink X s (binpath e n) = Inr u \<Longrightarrow> \<not> expected n \<Longrightarrow> containsSub u ''delightd/exports'' \<Longrightarrow> \<not> same u (binpath e m)"
  shows "xo_readlink X (archiveOrphans X e expected False s) (binpath e m) = Inr t"
proof (cases "xo_readDir X s (en_varBinDir e)")
  case (Inr entries)
  then have "\<forall>n\<in>set (map de_name entries). name_ok n" using entry_names by auto
  with assms(1-3) have "xo_readlink X (fold (archive_one X e expected False) (map de_name entries) s) (binpath e m) = Inr t"
    by (rule archive_fold_keeps) (rule assms(4))
  then show ?thesis
    using Inr by (simp add: archiveOrphans_def)
qed (simp add: archiveOrphans_def assms(1))

lemma Sync_keeps:
  fixes iter :: "exports_map \<Rightarrow> exports_map" and known :: "string list" and s :: 's
  defines "m \<equiv> iter (expected_exports X s e known)"
  assumes link: "xo_readlink X (sync_steps X e False (steps_of m) (prepared X e s)) (binpath e n) = Inr t"
    and kept: "n \<in> set (bin_names m) \<or> \<not> managed t" and n: "name_ok n" and names: "\<forall>b\<in>set (bin_names m). name_ok b"
    and wrappers: "\<And>k u. name_ok k \<Longrightarrow> xo_readlink X s (binpath e k) = Inr u \<Longrightarrow> containsSub u ''delightd/exports'' \<Longrightarrow> \<not> same u (binpath e n)"
  shows "xo_readlink X (Sync X e iter known False s) (binpath e n) = Inr t"
proof -
  have "\<not> same u (binpath e n)"
    if "name_ok k" "xo_readlink X (sync_steps X e False (steps_of m) (prepared X e s)) (binpath e k) = Inr u"
      "k \<notin> set (bin_names m)" "containsSub u ''delightd/exports''" for k u
    using that names wrappers [of k u] sync_steps_other [of k "steps_of m"]
    by (simp add: bin_names_steps prepared_def mkdir_link)
  then have "xo_readlink X (archiveOrphans X e (\<lambda>b. b \<in> set (bin_names m)) False
      (sync_steps X e False (steps_of m) (prepared X e s))) (binpath e n) = Inr t"
    using link kept n by (intro archiveOrphans_keeps) auto
  then show ?thesis
    by (simp add: Sync_def Let_def dumpState_def write_link sync_loop_steps m_def prepared_def)
qed

end


subsection \<open>A dry run\<close>

lemma sync_one_dry: "sync_one X e True p bd s = s"
  by (simp add: sync_one_def ensureSymlink_def Let_def split: prod.split sum.split)

lemma sync_steps_dry: "sync_steps X e True steps s = s"
  by (induction steps) (auto simp: sync_steps_def sync_one_dry)

lemma archiveOrphans_dry: "archiveOrphans X e expected True s = s"
proof -
  have one: "archive_one X e expected True n s = s" for n
    by (simp add: archive_one_def Let_def split: sum.split)
  have "fold (archive_one X e expected True) ns s = s" for ns
    by (induction ns) (simp_all add: one)
  then show ?thesis by (simp add: archiveOrphans_def split: sum.split)
qed

lemma Sync_dry: "Sync X e iter known True s = s"
  by (simp add: Sync_def Let_def sync_loop_steps sync_steps_dry archiveOrphans_dry dumpState_def)

section \<open>What a synchronisation does to the bin directory\<close>

text \<open>
  C22: When no two exports share a name, whatever order Go iterates over the exports in: every export whose
  own calls succeeded is linked to its target afterwards, and stays so while the rest is synchronised and orphans
  are archived; a link of the bin directory that nobody exports and that the engine does not manage is untouched; and
  a dry run changes nothing at all.
\<close>

theorem sync_links_what_is_exported:
  assumes "bin_directory X e same" and "m = iter (expected_exports X s e known)"
    and "distinct (bin_names m)" and "\<forall>b\<in>set (bin_names m). name_ok b"
    and "\<forall>k n u. name_ok k \<longrightarrow> name_ok n \<longrightarrow> xo_readlink X s (binpath e k) = Inr u \<longrightarrow> containsSub u ''delightd/exports''
           \<longrightarrow> \<not> same u (binpath e n)"
  shows "(\<forall>pre p bd post. steps_of m = pre @ (p, bd) # post \<longrightarrow> step_ok X e p bd (sync_steps X e False pre (prepared X e s)) \<longrightarrow>
            xo_readlink X (Sync X e iter known False s) (binpath e (fst bd)) = Inr (link_of e p bd))
       \<and> (\<forall>n t. name_ok n \<longrightarrow> n \<notin> set (bin_names m) \<longrightarrow> \<not> managed t \<longrightarrow> xo_readlink X s (binpath e n) = Inr t \<longrightarrow>
            xo_readlink X (Sync X e iter known False s) (binpath e n) = Inr t)
       \<and> Sync X e iter known True s = s"
proof (intro conjI allI impI)
  fix pre p bd post
  assume steps: "steps_of m = pre @ (p, bd) # post" and ok: "step_ok X e p bd (sync_steps X e False pre (prepared X e s))"
  have "fst bd \<in> set (bin_names m)" using steps by (simp add: bin_names_steps)
  moreover have "xo_readlink X (sync_steps X e False (steps_of m) (prepared X e s)) (binpath e (fst bd)) = Inr (link_of e p bd)"
    using bin_directory.sync_steps_installs [OF assms(1) steps _ _ ok] assms(3,4) by (simp add: bin_names_steps)
  ultimately show "xo_readlink X (Sync X e iter known False s) (binpath e (fst bd)) = Inr (link_of e p bd)"
    using assms(2,4,5) by (intro bin_directory.Sync_keeps [OF assms(1)]) auto
next
  fix n t
  assume n: "name_ok n" "n \<notin> set (bin_names m)" "\<not> managed t" "xo_readlink X s (binpath e n) = Inr t"
  then have "xo_readlink X (sync_steps X e False (steps_of m) (prepared X e s)) (binpath e n) = Inr t"
    using bin_directory.sync_steps_other [OF assms(1), of n "steps_of m"] assms(4)
    by (simp add: bin_names_steps prepared_def bin_directory.mkdir_link [OF assms(1)])
  then show "xo_readlink X (Sync X e iter known False s) (binpath e n) = Inr t"
    using n assms(2,4,5) by (intro bin_directory.Sync_keeps [OF assms(1)]) auto
qed (rule Sync_dry)

section \<open>A file system\<close>

text \<open>
  A file system that keeps its entries by absolute path and resolves a relative path against a working directory; it
  satisfies the contract for every engine whose bin and archive directories are distinct clean absolute paths.
\<close>

datatype xnode = XDir | XFile string | XLink string

type_synonym flat = "(string \<times> xnode) list"

definition flat_abs :: "string \<Rightarrow> string \<Rightarrow> string" where
  "flat_abs cwd p = (if hasPrefix p ''/'' then fp_clean p else fp_join [cwd, p])"

definition flat_readlink :: "string \<Rightarrow> flat \<Rightarrow> string \<Rightarrow> oserr + string" where
  "flat_readlink cwd s p =
     (case map_of s (flat_abs cwd p) of None \<Rightarrow> Inl NotExist | Some (XLink t) \<Rightarrow> Inr t | Some _ \<Rightarrow> Inl (OtherErr ''EINVAL''))"

definition flat_readDir :: "string \<Rightarrow> flat \<Rightarrow> string \<Rightarrow> oserr + dirent list" where
  "flat_readDir cwd s d =
     (if map_of s (flat_abs cwd d) = Some XDir
      then Inr (map (\<lambda>(p, x). \<lparr>de_name = after_last_slash p, de_isDir = (x = XDir), de_mode = Some 493\<rparr>)
                  (filter (\<lambda>(p, x). fp_dir p = flat_abs cwd d \<and> name_ok (after_last_slash p)) s))
      else Inl NotExist)"

definition flat_rename :: "string \<Rightarrow> string \<Rightarrow> string \<Rightarrow> flat \<Rightarrow> flat \<times> oserr option" where
  "flat_rename cwd a b s =
     (case map_of s (flat_abs cwd a) of
        None \<Rightarrow> (s, Some NotExist)
      | Some x \<Rightarrow> (AList.update (flat_abs cwd b) x (AList.delete (flat_abs cwd a) s), None))"

definition flat_writeFile :: "string \<Rightarrow> string \<Rightarrow> string \<Rightarrow> flat \<Rightarrow> flat \<times> oserr option" where
  "flat_writeFile cwd p c s =
     (case map_of s (flat_abs cwd p) of
        Some XDir \<Rightarrow> (s, Some (OtherErr ''EISDIR''))
      | Some (XLink t) \<Rightarrow> (s, Some (OtherErr ''ELOOP''))
      | _ \<Rightarrow> (AList.update (flat_abs cwd p) (XFile c) s, None))"

definition flat_os :: "string \<Rightarrow> ProjectExports list \<Rightarrow> flat xos" where
  "flat_os cwd reg = \<lparr>xo_registry = (\<lambda>s. reg), xo_readDir = flat_readDir cwd, xo_readlink = flat_readlink cwd,
     xo_remove = (\<lambda>p s. (AList.delete (flat_abs cwd p) s, None)),
     xo_symlink = (\<lambda>t p s. if map_of s (flat_abs cwd p) = None then (AList.update (flat_abs cwd p) (XLink t) s, None)
                           else (s, Some (OtherErr ''EEXIST''))),
     xo_rename = flat_rename cwd,
     xo_mkdirAll = (\<lambda>d s. if map_of s (flat_abs cwd d) = None then (AList.update (flat_abs cwd d) XDir s, None) else (s, None)),
     xo_writeFile = flat_writeFile cwd, xo_marshal = (\<lambda>m. []), xo_now = ''20260101000000''\<rparr>"

lemma flat_abs_join:
  assumes "hasPrefix d ''/''"
  shows "flat_abs cwd (fp_join [d, n]) = fp_join [d, n]"
proof -
  obtain d' where d: "d = CHR ''/'' # d'" using assms by (auto simp: hasPrefix_iff)
  then have "fp_join [d, n] \<noteq> [] \<and> hd (fp_join [d, n]) = CHR ''/''" using fp_join_rooted [of d "[n]"] by simp
  then have "hasPrefix (fp_join [d, n]) ''/''" by (cases "fp_join [d, n]") (auto simp: hasPrefix_iff)
  moreover have "fp_clean (fp_join [d, n]) = fp_join [d, n]" by (simp add: fp_join_def d)
  ultimately show ?thesis by (simp add: flat_abs_def)
qed

definition rooted_dir :: "string \<Rightarrow> bool" where
  "rooted_dir d \<longleftrightarrow> hasPrefix d ''/'' \<and> fp_clean d = d"

lemma flat_bin_directory:
  assumes "rooted_dir (en_varBinDir e)" and "rooted_dir (archive_dir (flat_os cwd reg) e)"
    and "archive_dir (flat_os cwd reg) e \<noteq> en_varBinDir e"
  shows "bin_directory (flat_os cwd reg) e (\<lambda>a b. flat_abs cwd a = flat_abs cwd b)"
proof
  fix s d entries en
  assume "xo_readDir (flat_os cwd reg) s d = Inr entries" and "en \<in> set entries"
  then show "name_ok (de_name en)"
    by (auto simp: flat_os_def flat_readDir_def split: if_splits)
next
  fix d s p t
  show "xo_readlink (flat_os cwd reg) (fst (xo_mkdirAll (flat_os cwd reg) d s)) p = Inr t
          \<longleftrightarrow> xo_readlink (flat_os cwd reg) s p = Inr t"
    by (auto simp: flat_os_def flat_readlink_def update_conv')
next
  fix q c s p t
  show "xo_readlink (flat_os cwd reg) (fst (xo_writeFile (flat_os cwd reg) q c s)) p = Inr t
          \<longleftrightarrow> xo_readlink (flat_os cwd reg) s p = Inr t"
    by (auto simp: flat_os_def flat_readlink_def flat_writeFile_def update_conv' split: option.split xnode.split)
next
  fix t p s
  assume "snd (xo_symlink (flat_os cwd reg) t p s) = None"
  then show "xo_readlink (flat_os cwd reg) (fst (xo_symlink (flat_os cwd reg) t p s)) p = Inr t"
    by (auto simp: flat_os_def flat_readlink_def update_conv' split: if_splits)
next
  fix q p t s
  assume "\<not> flat_abs cwd q = flat_abs cwd p"
  then show "xo_readlink (flat_os cwd reg) (fst (xo_symlink (flat_os cwd reg) t q s)) p = xo_readlink (flat_os cwd reg) s p"
    by (simp add: flat_os_def flat_readlink_def update_conv')
next
  fix q p s
  assume "\<not> flat_abs cwd q = flat_abs cwd p"
  then show "xo_readlink (flat_os cwd reg) (fst (xo_remove (flat_os cwd reg) q s)) p = xo_readlink (flat_os cwd reg) s p"
    by (simp add: flat_os_def flat_readlink_def delete_conv')
next
  fix a p b s t
  assume "\<not> flat_abs cwd a = flat_abs cwd p" and "\<not> flat_abs cwd b = flat_abs cwd p"
    and "xo_readlink (flat_os cwd reg) s p = Inr t"
  then show "xo_readlink (flat_os cwd reg) (fst (xo_rename (flat_os cwd reg) a b s)) p = Inr t"
    by (auto simp: flat_os_def flat_readlink_def flat_rename_def update_conv' delete_conv' split: option.splits)
next
  fix b p a s t
  assume "\<not> flat_abs cwd b = flat_abs cwd p"
    and "xo_readlink (flat_os cwd reg) (fst (xo_rename (flat_os cwd reg) a b s)) p = Inr t"
  then show "xo_readlink (flat_os cwd reg) s p = Inr t"
    by (auto simp: flat_os_def flat_readlink_def flat_rename_def update_conv' delete_conv' split: option.splits if_splits)
next
  fix n m
  assume "name_ok n" "name_ok m" "m \<noteq> n"
  then show "\<not> flat_abs cwd (binpath e n) = flat_abs cwd (binpath e m)"
    using assms(1) join_name_clean(2) by (metis flat_abs_join rooted_dir_def)
next
  fix n m
  assume "name_ok n" "name_ok m"
  then show "\<not> flat_abs cwd (fp_join [archive_dir (flat_os cwd reg) e, n]) = flat_abs cwd (binpath e m)"
    using assms join_name_clean(1) by (metis flat_abs_join rooted_dir_def)
qed

definition sample_engine :: Engine where
  "sample_engine = NewEngine ''/h'' (\<lambda>k. None) ''/h/mesh/prod''"

lemma sample_engine_eq:
  "sample_engine = \<lparr>en_registryPath = ''/h/etc/delight-registry.yaml'', en_varBinDir = ''/h/var/bin'',
     en_stateDir = ''/h/var/runtime/delightd/exports'', en_archiveDir = ''/h/var/archive/delightd/exports'', en_workDir = ''/h/mesh/prod''\<rparr>"
  by (simp add: sample_engine_def NewEngine_def fp_join_def fp_clean_def)

interpretation flat: bin_directory "flat_os ''/'' reg" sample_engine "\<lambda>a b. flat_abs ''/'' a = flat_abs ''/'' b" for reg
  by (rule flat_bin_directory)
     (simp_all add: sample_engine_eq rooted_dir_def archive_dir_def flat_os_def fp_join_def fp_clean_def hasPrefix_def)


definition sample_registry :: "ProjectExports list" where
  "sample_registry = [\<lparr>pe_name = ''p'', pe_path = [], pe_exports =
     [\<lparr>ex_bin = ''lint'', ex_type = ''docker-exec'', ex_target = [], ex_container = ''c'', ex_command = ''lint'', ex_image = [], ex_workdir = []\<rparr>]\<rparr>]"

definition sample_fs :: flat where
  "sample_fs = [(''/h/var/bin/ls'', XLink ''/opt/ls''), (''/h/mesh/prod/p/bin'', XDir), (''/h/mesh/prod/p/bin/tool'', XFile [])]"

definition sample_expected :: exports_map where
  "sample_expected = [(''p'',
     [(''lint'', \<lparr>ex_bin = ''lint'', ex_type = ''docker-exec'', ex_target = [], ex_container = ''c'', ex_command = ''lint'', ex_image = [], ex_workdir = []\<rparr>),
      (''tool'', \<lparr>ex_bin = ''tool'', ex_type = ''binary'', ex_target = ''/h/mesh/prod/p/bin/tool'', ex_container = [], ex_command = [], ex_image = [], ex_workdir = []\<rparr>)])]"

lemma sample_expected_eq:
  "expected_exports (flat_os ''/'' sample_registry) sample_fs sample_engine [''p''] = sample_expected"
  by code_simp

lemma sample_steps:
  "steps_of sample_expected = [] @ (''p'', hd (snd (hd sample_expected))) # tl (steps_of sample_expected)"
  by (simp add: steps_of_def sample_expected_def)

lemma sample_step_ok:
  "step_ok (flat_os ''/'' sample_registry) sample_engine ''p'' (hd (snd (hd sample_expected)))
     (sync_steps (flat_os ''/'' sample_registry) sample_engine False [] (prepared (flat_os ''/'' sample_registry) sample_engine sample_fs))"
  by code_simp

lemma sample_link: "link_of sample_engine ''p'' (hd (snd (hd sample_expected))) = ''../runtime/delightd/exports/p/lint.sh''"
  by code_simp

lemma sample_targets: "flat_readlink ''/'' sample_fs p = Inr u \<Longrightarrow> u = ''/opt/ls''"
  by (auto simp: flat_readlink_def sample_fs_def split: if_splits)

theorem sync_links_what_is_exported_witness:
  "xo_readlink (flat_os ''/'' sample_registry)
     (Sync (flat_os ''/'' sample_registry) sample_engine id [''p''] False sample_fs) (binpath sample_engine ''lint'')
     = Inr ''../runtime/delightd/exports/p/lint.sh''
   \<and> xo_readlink (flat_os ''/'' sample_registry)
     (Sync (flat_os ''/'' sample_registry) sample_engine id [''p''] False sample_fs) (binpath sample_engine ''ls'') = Inr ''/opt/ls''"
proof -
  let ?X = "flat_os ''/'' sample_registry"
  have names: "bin_names sample_expected = [''lint'', ''tool'']" by (simp add: bin_names_def sample_expected_def)
  have *: "name_ok ''lint''" "name_ok ''tool''" "name_ok ''ls''" "\<not> managed ''/opt/ls''"
    "xo_readlink ?X sample_fs (binpath sample_engine ''ls'') = Inr ''/opt/ls''"
    by code_simp+
  have quiet: "\<forall>k n u. name_ok k \<longrightarrow> name_ok n \<longrightarrow> xo_readlink ?X sample_fs (binpath sample_engine k) = Inr u
      \<longrightarrow> containsSub u ''delightd/exports'' \<longrightarrow> \<not> flat_abs ''/'' u = flat_abs ''/'' (binpath sample_engine n)"
  proof (intro allI impI)
    fix k n u
    assume "xo_readlink ?X sample_fs (binpath sample_engine k) = Inr u" and sub: "containsSub u ''delightd/exports''"
    then have "u = ''/opt/ls''" using sample_targets by (simp add: flat_os_def)
    with sub *(4) show "\<not> flat_abs ''/'' u = flat_abs ''/'' (binpath sample_engine n)" unfolding managed_def by blast
  qed
  have m: "sample_expected = id (expected_exports ?X sample_fs sample_engine [''p''])" by (simp add: sample_expected_eq)
  have ok: "distinct (bin_names sample_expected)" "\<forall>b\<in>set (bin_names sample_expected). name_ok b"
    using *(1,2) by (simp_all add: names)
  note result = sync_links_what_is_exported [where iter = id, OF flat.bin_directory_axioms m ok quiet]
  have lint: "fst (hd (snd (hd sample_expected))) = ''lint''" by (simp add: sample_expected_def)
  show ?thesis
    using result [THEN conjunct1, rule_format, OF sample_steps sample_step_ok]
      result [THEN conjunct2, THEN conjunct1, rule_format, OF *(3) _ *(4,5)]
    by (simp add: names lint sample_link)
qed

text \<open>
  Two projects that export the same name: the one Go happens to visit last gets the link.
\<close>

definition clashing :: "ProjectExports list" where
  "clashing = [\<lparr>pe_name = ''a'', pe_path = [], pe_exports = [\<lparr>ex_bin = ''x'', ex_type = ''binary'', ex_target = ''/h/mesh/prod/a/x'', ex_container = [], ex_command = [], ex_image = [], ex_workdir = []\<rparr>]\<rparr>,
     \<lparr>pe_name = ''b'', pe_path = [], pe_exports = [\<lparr>ex_bin = ''x'', ex_type = ''binary'', ex_target = ''/h/mesh/prod/b/x'', ex_container = [], ex_command = [], ex_image = [], ex_workdir = []\<rparr>]\<rparr>]"

theorem clashing_exports_depend_on_map_order:
  "flat_readlink ''/'' (Sync (flat_os ''/'' clashing) sample_engine id [] False []) ''/h/var/bin/x'' = Inr ''../../mesh/prod/b/x''
   \<and> flat_readlink ''/'' (Sync (flat_os ''/'' clashing) sample_engine rev [] False []) ''/h/var/bin/x'' = Inr ''../../mesh/prod/a/x''"
  by code_simp

text \<open>
  An orphaned wrapper: its link is archived, but the wrapper itself is renamed by the link's relative target, which
  the kernel resolves against the working directory of the daemon and not against the bin directory. The script stays where it was,
  and the project is still reported to have a bash fragment.
\<close>

theorem orphaned_wrapper_is_left_behind:
  "let s0 = Sync (flat_os ''/'' sample_registry) sample_engine id [''p''] False sample_fs;
       s1 = Sync (flat_os ''/'' []) sample_engine id [''p''] False s0
   in flat_readlink ''/'' s1 ''/h/var/bin/lint'' = Inl NotExist
      \<and> HasBashFragment (flat_os ''/'' []) sample_engine ''p'' s0
      \<and> HasBashFragment (flat_os ''/'' []) sample_engine ''p'' s1"
  by code_simp

text \<open>
  A native link is recognised as the engine's own by the text \<^verbatim>\<open>/work/\<close> in its target; under the default install root there
  is none, so the link of an executable that is gone is never archived.
\<close>

theorem orphaned_native_link_is_kept:
  "let s0 = Sync (flat_os ''/'' []) sample_engine id [''p''] False sample_fs;
       s1 = Sync (flat_os ''/'' []) sample_engine id [''p''] False (AList.delete ''/h/mesh/prod/p/bin/tool'' s0)
   in flat_readlink ''/'' s1 ''/h/var/bin/tool'' = Inr ''../../mesh/prod/p/bin/tool''"
  by code_simp

end
