(* ===== verification/Kube.thy ===== *)
theory Kube
  imports Furnish
begin

text \<open>
  The cluster handle: \<^verbatim>\<open>pkg/kube/client.go\<close> beside the REST mapping and the lazy provider that furnish uses. The
  client-go constructors and the readiness request answer through arguments.
\<close>

section \<open>Configuration and clients\<close>

text \<open>\<^verbatim>\<open>rest.Config\<close>: the host and the timeout of each request, in nanoseconds; zero is none.\<close>

record restconfig =
  rc_host :: string
  rc_timeout :: int

record clientgo =
  cg_load :: "string option \<Rightarrow> string + restconfig"
  cg_dynamic :: "restconfig \<Rightarrow> string option"
  cg_discovery :: "restconfig \<Rightarrow> string option"
  cg_readyz :: "restconfig \<Rightarrow> string option"

record Client =
  kc_config :: restconfig

definition requestTimeout :: int where
  "requestTimeout = 30 * second_ns"

definition RESTConfig :: "clientgo \<Rightarrow> string \<Rightarrow> errtext + restconfig" where
  "RESTConfig G path =
     (case cg_load G (if path \<noteq> [] then Some path else None) of
        Inl err \<Rightarrow>
          Inl (if path \<noteq> [] then Fmt ''kube: load kubeconfig (path %q): %w'' [path, err]
               else Fmt ''kube: load kubeconfig ($KUBECONFIG, then ~/.kube/config): %w'' [err])
      | Inr cfg \<Rightarrow> Inr (cfg\<lparr>rc_timeout := requestTimeout\<rparr>))"

definition FromKubeconfig :: "clientgo \<Rightarrow> string \<Rightarrow> errtext + Client" where
  "FromKubeconfig G path =
     (case RESTConfig G path of
        Inl err \<Rightarrow> Inl err
      | Inr cfg \<Rightarrow>
          (case cg_dynamic G cfg of
             Some err \<Rightarrow> Inl (Fmt ''kube: build dynamic client for %s: %w'' [rc_host cfg, err])
           | None \<Rightarrow>
               (case cg_discovery G cfg of
                  Some err \<Rightarrow> Inl (Fmt ''kube: build discovery client for %s: %w'' [rc_host cfg, err])
                | None \<Rightarrow> Inr \<lparr>kc_config = cfg\<rparr>)))"

definition Ready :: "clientgo \<Rightarrow> Client \<Rightarrow> errtext option" where
  "Ready G c = map_option (\<lambda>err. Fmt ''apiserver /readyz: %w'' [err]) (cg_readyz G (kc_config c))"

definition APIServerReady :: "clientgo \<Rightarrow> string \<Rightarrow> errtext option" where
  "APIServerReady G path =
     (case RESTConfig G path of
        Inl err \<Rightarrow> Some err
      | Inr cfg \<Rightarrow>
          (case cg_discovery G cfg of
             Some err \<Rightarrow> Some (Fmt ''kube: build discovery client for %s: %w'' [rc_host cfg, err])
           | None \<Rightarrow> map_option (\<lambda>err. Fmt ''apiserver /readyz: %w'' [err]) (cg_readyz G cfg)))"

text \<open>The readiness probe a server starts with: \<^verbatim>\<open>$KUBECONFIG\<close>, or the file in the home directory, on every call.\<close>

definition clusterReadyProbe :: "clientgo \<Rightarrow> errtext option" where
  "clusterReadyProbe G = APIServerReady G []"

text \<open>The probe \<^verbatim>\<open>UseFurnish\<close> puts in its place: the shared provider, then the client's own \<open>Ready\<close>.\<close>

definition sharedReadyProbe :: "clientgo \<Rightarrow> Client option \<Rightarrow> Client option \<times> errtext option" where
  "sharedReadyProbe G memo =
     (case LazyClient (FromKubeconfig G []) memo of
        (memo', Inl err) \<Rightarrow> (memo', Some err)
      | (memo', Inr c) \<Rightarrow> (memo', Ready G c))"

section \<open>The provider over time\<close>

text \<open>
  The calls of one provider, each with the client-go that answered at that moment, from the memo it holds: the answers in order.
\<close>

fun provided :: "clientgo list \<Rightarrow> Client option \<Rightarrow> (errtext + Client) list" where
  "provided [] memo = []"
| "provided (G # Gs) memo =
     (case LazyClient (FromKubeconfig G []) memo of
        (memo', answer) \<Rightarrow> answer # provided Gs memo')"

lemma FromKubeconfig_bounded: "FromKubeconfig G path = Inr c \<Longrightarrow> rc_timeout (kc_config c) = requestTimeout"
  by (auto simp: FromKubeconfig_def RESTConfig_def split: sum.splits option.splits)

lemma provided_memo: "i < length Gs \<Longrightarrow> provided Gs (Some c) ! i = Inr c"
  by (induction Gs arbitrary: i) (auto simp: LazyClient_def nth_Cons split: nat.split)

lemma provided_length [simp]: "length (provided Gs memo) = length Gs"
  by (induction Gs arbitrary: memo) (auto split: prod.split)

lemma provided_first:
  assumes "\<forall>j<i. isl (FromKubeconfig (Gs ! j) [])" and "i < length Gs"
  shows "provided Gs None ! i = FromKubeconfig (Gs ! i) []"
  using assms
proof (induction Gs arbitrary: i)
  case (Cons G Gs)
  show ?case
  proof (cases i)
    case 0
    then show ?thesis by (simp add: LazyClient_def split: sum.split)
  next
    case (Suc k)
    then have "isl (FromKubeconfig G [])" and "\<forall>j<k. isl (FromKubeconfig (Gs ! j) [])"
      using Cons.prems(1) by auto
    then show ?thesis
      using Cons Suc by (auto simp: LazyClient_def isl_def)
  qed
qed simp

lemma provided_after:
  assumes "\<forall>j<i. isl (FromKubeconfig (Gs ! j) [])" and "FromKubeconfig (Gs ! i) [] = Inr c" and "i \<le> k" and "k < length Gs"
  shows "provided Gs None ! k = Inr c"
  using assms
proof (induction Gs arbitrary: i k)
  case (Cons G Gs)
  show ?case
  proof (cases i)
    case 0
    then show ?thesis
      using Cons.prems provided_memo [of "k - 1" Gs c] by (auto simp: LazyClient_def nth_Cons split: nat.split)
  next
    case (Suc n)
    then obtain l where l: "k = Suc l" using Cons.prems(3) by (cases k) auto
    have "isl (FromKubeconfig G [])" and "\<forall>j<n. isl (FromKubeconfig (Gs ! j) [])"
      using Cons.prems(1) Suc by auto
    then show ?thesis
      using Cons.IH [of n l] Cons.prems Suc l by (auto simp: LazyClient_def isl_def)
  qed
qed simp

text \<open>
  The provider of the cluster client picks up a kubeconfig as soon as there is one and keeps the first client it could build:
  until a build succeeds every call fails, from then on every call answers with that
  same client, whatever becomes of the kubeconfig; and every request of the client is bounded by thirty seconds.
\<close>

theorem cluster_client_heals_and_stays:
  assumes "\<forall>j<i. isl (FromKubeconfig (Gs ! j) [])" and "FromKubeconfig (Gs ! i) [] = Inr c" and "k < length Gs"
  shows "(if k < i then isl (provided Gs None ! k) else provided Gs None ! k = Inr c)
    \<and> rc_timeout (kc_config c) = 30 * second_ns"
proof -
  have "isl (provided Gs None ! k)" if "k < i"
  proof -
    have "isl (FromKubeconfig (Gs ! k) [])" using assms(1) that by blast
    moreover have "\<forall>j<k. isl (FromKubeconfig (Gs ! j) [])" using assms(1) that by simp
    ultimately show ?thesis
      using provided_first [of k Gs] assms(3) by (auto simp: isl_def)
  qed
  then show ?thesis
    using provided_after [OF assms(1,2) _ assms(3)] FromKubeconfig_bounded [OF assms(2)] by (simp add: requestTimeout_def)
qed

definition sample_clientgo :: "bool \<Rightarrow> clientgo" where
  "sample_clientgo mounted = \<lparr>cg_load = (\<lambda>p. if mounted then Inr \<lparr>rc_host = ''https://c'', rc_timeout = 0\<rparr> else Inl ''no configuration''),
     cg_dynamic = (\<lambda>c. None), cg_discovery = (\<lambda>c. None), cg_readyz = (\<lambda>c. None)\<rparr>"

theorem cluster_client_heals_and_stays_witness:
  "provided [sample_clientgo False, sample_clientgo True, sample_clientgo False] None ! 2
     = Inr \<lparr>kc_config = \<lparr>rc_host = ''https://c'', rc_timeout = 30 * second_ns\<rparr>\<rparr>"
proof -
  let ?Gs = "[sample_clientgo False, sample_clientgo True, sample_clientgo False]"
  have "\<forall>j<1. isl (FromKubeconfig (?Gs ! j) [])"
    by (simp add: sample_clientgo_def FromKubeconfig_def RESTConfig_def)
  moreover have "FromKubeconfig (?Gs ! 1) [] = Inr \<lparr>kc_config = \<lparr>rc_host = ''https://c'', rc_timeout = 30 * second_ns\<rparr>\<rparr>"
    by (simp add: sample_clientgo_def FromKubeconfig_def RESTConfig_def requestTimeout_def)
  ultimately show ?thesis
    using cluster_client_heals_and_stays [of 1 ?Gs _ 2] by simp
qed

text \<open>
  Repointing readiness at the shared client keeps its answers: while no client is memoised, the shared probe says what the default probe would have said,
  except that a dynamic client that cannot be built is an error too; and it keeps a client exactly when one could be built.
\<close>

theorem shared_probe_answers_as_the_default:
  "sharedReadyProbe G None =
     (case FromKubeconfig G [] of
        Inl err \<Rightarrow> (None, Some err)
      | Inr c \<Rightarrow> (Some c, clusterReadyProbe G))
   \<and> (clusterReadyProbe G = None \<longleftrightarrow> (\<exists>cfg. RESTConfig G [] = Inr cfg \<and> cg_discovery G cfg = None \<and> cg_readyz G cfg = None))"
  by (auto simp: sharedReadyProbe_def LazyClient_def FromKubeconfig_def Ready_def clusterReadyProbe_def APIServerReady_def
      split: sum.splits option.splits)

end
