(* ===== verification/Server.thy ===== *)
theory Server
  imports HttpApi Furnish Skills Discovery Exports Daemon
begin

text \<open>
  The daemon put together: the \<^verbatim>\<open>Server\<close> of \<^verbatim>\<open>pkg/httpapi/httpapi.go\<close> with its wiring, every route of the control
  port behind the mux and the gate, and the background work \<^verbatim>\<open>runDaemon\<close> of \<^verbatim>\<open>cmd/delightd/main.go\<close>
  runs beside it: the control loops, the heartbeat consumer and the expiry sweep of the registry, the export and skill
  synchronisation and the discovery of models.
\<close>

section \<open>The server\<close>

record ('b, 'e, 'c) Server =
  srv_cfg :: DelightConfig
  srv_machines :: "string \<Rightarrow> Machine option"
  srv_skills :: Aggregator
  srv_dryRun :: bool
  srv_reg :: "'b option"
  srv_enablement :: "'e option"
  srv_events :: "(NotRegistered \<Rightarrow> bool) option"
  srv_bus :: "NotRegistered list"
  srv_furnishKubeDir :: string
  srv_furnishWired :: bool
  srv_cluster :: 'c
  srv_controlToken :: bytes
  srv_effects :: "effects list"

text \<open>
  \<open>srv_bus\<close>, \<open>srv_cluster\<close> and \<open>srv_effects\<close> are the outside the handlers act on: the events published, the cluster, and
  what MCP calls made happen.
\<close>

definition NewServer ::
  "DelightConfig \<Rightarrow> (string \<Rightarrow> Machine option) \<Rightarrow> Aggregator \<Rightarrow> bool \<Rightarrow> 'b option \<Rightarrow> 'c \<Rightarrow> ('b, 'e, 'c) Server" where
  "NewServer cfg machines skillAgg dryRun reg cluster =
     \<lparr>srv_cfg = cfg, srv_machines = machines, srv_skills = skillAgg, srv_dryRun = dryRun, srv_reg = reg,
      srv_enablement = None, srv_events = None, srv_bus = [], srv_furnishKubeDir = [], srv_furnishWired = False,
      srv_cluster = cluster, srv_controlToken = [], srv_effects = []\<rparr>"

definition UseEvents :: "(NotRegistered \<Rightarrow> bool) \<Rightarrow> ('b, 'e, 'c) Server \<Rightarrow> ('b, 'e, 'c) Server" where
  "UseEvents pub s = s\<lparr>srv_events := Some pub\<rparr>"

definition UseFurnish :: "string \<Rightarrow> ('b, 'e, 'c) Server \<Rightarrow> ('b, 'e, 'c) Server" where
  "UseFurnish kubeDir s = s\<lparr>srv_furnishKubeDir := kubeDir, srv_furnishWired := True\<rparr>"

definition UseControlBearer :: "bytes \<Rightarrow> ('b, 'e, 'c) Server \<Rightarrow> ('b, 'e, 'c) Server" where
  "UseControlBearer tok s = s\<lparr>srv_controlToken := tok\<rparr>"

definition UseEnablement :: "'e \<Rightarrow> ('b, 'e, 'c) Server \<Rightarrow> ('b, 'e, 'c) Server" where
  "UseEnablement st s = s\<lparr>srv_enablement := Some st\<rparr>"

section \<open>One request\<close>

text \<open>What the surroundings answer while one request is served.\<close>

record ('b, 'v, 'e, 'c) reqenv =
  q_kv :: "('b, 'v) kv"
  q_codec :: "(Registration, 'v) codec"
  q_register :: "'v regenv"
  q_readDir :: "string \<Rightarrow> string option"
  q_client :: "string + 'c cluster"
  q_ready :: "'c cluster \<Rightarrow> string option"
  q_probe :: "string option"
  q_metrics :: "string list \<times> counters"
  q_llm :: llmnet
  q_git :: gitos
  q_late :: "nat \<Rightarrow> bool"
  q_order :: "nat list"
  q_f2i :: "int \<Rightarrow> duration"
  q_reading :: reading
  q_marshalProject :: "ProjectMsg \<Rightarrow> string + string"
  q_marshalRegistration :: "Registration \<Rightarrow> string + string"
  q_marshalService :: "Service \<Rightarrow> string + string"
  q_marshalResolved :: "ResolvedService \<Rightarrow> string + string"
  q_fragment :: "string \<Rightarrow> bool"
  q_enstore :: "'e enstore"
  q_decodeState :: "bytes \<Rightarrow> string + string \<times> string \<times> string"
  q_pieces :: "string + string list"
  q_kustomize :: "string \<Rightarrow> string + (string + kobject) list"
  q_mcp :: mcpenv

text \<open>
  The readiness probe: the client furnish shares once \<^verbatim>\<open>UseFurnish\<close> wired it, the default probe of \<^verbatim>\<open>New\<close> before.
\<close>

definition clusterReady :: "('b, 'v, 'e, 'c) reqenv \<Rightarrow> ('b, 'e, 'c) Server \<Rightarrow> string option" where
  "clusterReady q s =
     (if srv_furnishWired s then (case q_client q of Inl err \<Rightarrow> Some err | Inr c \<Rightarrow> q_ready q c) else q_probe q)"

record discoveryResponse =
  dr_status :: string
  dr_sources :: "ModelSource list"

definition handleDiscovery :: "llmnet \<Rightarrow> DelightConfig \<Rightarrow> discoveryResponse reply" where
  "handleDiscovery net cfg = writeJSON 200 \<lparr>dr_status = ''ok'', dr_sources = DiscoverLocalLLMs net (Some cfg)\<rparr>"

definition furnishing_of :: "('b, 'v, 'e, 'c) reqenv \<Rightarrow> ('b, 'e, 'c) Server \<Rightarrow> 'c furnishing" where
  "furnishing_of q s =
     \<lparr>fu_kubeDir = srv_furnishKubeDir s, fu_pieces = q_pieces q, fu_kustomize = q_kustomize q,
      fu_client = (if srv_furnishWired s then Some (q_client q) else None)\<rparr>"

text \<open>The envelopes of the list surfaces; an entry of a \<^verbatim>\<open>RawMessage\<close> list is the encoded message.\<close>

record gitStateResponse =
  gitr_status :: string
  gitr_projects :: "ProjectGit list"

record rosterResponse =
  rosr_status :: string
  rosr_projects :: "string list"

record registrationsResponse =
  regr_status :: string
  regr_registrations :: "string list"

record servicesResponse =
  svcr_status :: string
  svcr_services :: "string list"

datatype body =
    BHealth healthResponse | BReady readinessResponse | BMetrics string | BDiscovery discoveryResponse
  | BDiagnostics Diagnostics | BAction projectActionResponse | BRoster rosterResponse
  | BRegistrations registrationsResponse | BServices servicesResponse | BEntity string
  | BRegister RegisterResponse | BState stateBody | BGit gitStateResponse | BProjectGit ProjectGit
  | BIntrospect ServiceBackupStatus | BFurnish furnishBody | BMCP rpcResult

definition with_body :: "('x \<Rightarrow> body) \<Rightarrow> 'x reply \<Rightarrow> body reply" where
  "with_body f r = \<lparr>rp_status = rp_status r, rp_challenge = rp_challenge r, rp_body = map_sum id f (rp_body r)\<rparr>"

text \<open>The handler of each route, on the part of the server it works on.\<close>

definition handle ::
  "('b, 'v, 'e, 'c) reqenv \<Rightarrow> route \<Rightarrow> string \<Rightarrow> request \<Rightarrow> ('b, 'e, 'c) Server \<Rightarrow> ('b, 'e, 'c) Server \<times> body reply" where
  "handle q h v r s =
     (let cfg = srv_cfg s; machines = srv_machines s; reg = srv_reg s; K = q_kv q; C = q_codec q; F = furnishing_of q s
      in case h of
        RHealth \<Rightarrow> (s, with_body BHealth (handleHealth cfg (srv_dryRun s)))
      | RReadyz \<Rightarrow> (s, with_body BReady (handleReadyz (q_readDir q) cfg (clusterReady q s)))
      | RMetrics \<Rightarrow> (s, writeJSON 200 (BMetrics (metrics_dump (fst (q_metrics q)) (snd (q_metrics q)))))
      | RDiscovery \<Rightarrow> (s, with_body BDiscovery (handleDiscovery (q_llm q) cfg))
      | RProjectState \<Rightarrow> (s, with_body BDiagnostics (handleProjectState machines v))
      | RBackup \<Rightarrow> (case handleBackup (q_f2i q) (q_reading q) v machines of
                     (m', rep) \<Rightarrow> (s\<lparr>srv_machines := m'\<rparr>, with_body BAction rep))
      | RReset \<Rightarrow> (case handleReset (q_f2i q) (q_reading q) v machines of
                     (m', rep) \<Rightarrow> (s\<lparr>srv_machines := m'\<rparr>, with_body BAction rep))
      | RProjectsAll \<Rightarrow> (s, with_body (\<lambda>l. BRoster \<lparr>rosr_status = ''ok'', rosr_projects = l\<rparr>)
                         (handleProjectsAll (q_marshalProject q) (q_git q) cfg))
      | RRegistrations \<Rightarrow> (s, with_body (\<lambda>l. BRegistrations \<lparr>regr_status = ''ok'', regr_registrations = l\<rparr>)
                         (handleRegistrations K C (q_marshalRegistration q) reg))
      | RRegister \<Rightarrow>
          (case handleRegister K ((q_register q)\<lparr>re_cfg := cfg, re_codec := C, re_publisher := srv_events s\<rparr>) (rq_body r)
                  \<lparr>rs_reg = reg, rs_events = srv_bus s\<rparr> of
             (t, rep) \<Rightarrow> (s\<lparr>srv_reg := rs_reg t, srv_bus := rs_events t\<rparr>, with_body BRegister rep))
      | RStateAll \<Rightarrow> (s, with_body BState (handleStateAll (q_enstore q) cfg (srv_enablement s)))
      | RStateGet \<Rightarrow> (s, with_body BState (handleStateGet (q_enstore q) cfg v (srv_enablement s)))
      | RStatePut \<Rightarrow>
          (case handleStatePut (q_enstore q) (q_decodeState q) cfg v (rq_body r) (srv_enablement s) of
             (e', rep) \<Rightarrow> (s\<lparr>srv_enablement := e'\<rparr>, with_body BState rep))
      | RGitAll \<Rightarrow> (s, with_body (\<lambda>l. BGit \<lparr>gitr_status = ''ok'', gitr_projects = l\<rparr>)
                         (handleGitAll (q_git q) (q_late q) (q_order q) cfg))
      | RProjectGit \<Rightarrow> (s, with_body BProjectGit (handleProjectGit (q_git q) cfg v))
      | RResolve \<Rightarrow> (s, with_body BEntity (handleResolve K C (q_marshalResolved q) reg v))
      | RServicesAll \<Rightarrow>
          (s, with_body (\<lambda>l. BServices \<lparr>svcr_status = ''ok'', svcr_services = l\<rparr>)
             (handleServicesAll K C (q_marshalService q) machines reg (q_git q) (q_late q) (q_order q) cfg (rq_query_type r)))
      | RServiceByName \<Rightarrow> (s, with_body BEntity (handleServiceByName K C (q_marshalService q) machines reg (q_git q) cfg v))
      | RIntrospect \<Rightarrow> (s, with_body BIntrospect (introspect_Handler (q_fragment q) machines v))
      | RFurnishPieces \<Rightarrow> (s, with_body BFurnish (handleFurnishPieces F))
      | RFurnishHealth \<Rightarrow> (case handleFurnishHealth F v (srv_cluster s) of
                           (c', rep) \<Rightarrow> (s\<lparr>srv_cluster := c'\<rparr>, with_body BFurnish rep))
      | RFurnishUp \<Rightarrow> (case handleFurnishUp F v (srv_cluster s) of
                           (c', rep) \<Rightarrow> (s\<lparr>srv_cluster := c'\<rparr>, with_body BFurnish rep))
      | RFurnishDown \<Rightarrow> (case handleFurnishDown F v (srv_cluster s) of
                           (c', rep) \<Rightarrow> (s\<lparr>srv_cluster := c'\<rparr>, with_body BFurnish rep))
      | RMCP \<Rightarrow> (case HandleMCP (q_mcp q) (srv_skills s) (rq_method r) (rq_body r) of
                   (eff, rep) \<Rightarrow> (s\<lparr>srv_effects := srv_effects s @ [eff]\<rparr>, with_body BMCP rep)))"

definition serve ::
  "('b, 'v, 'e, 'c) reqenv \<Rightarrow> request \<Rightarrow> ('b, 'e, 'c) Server \<Rightarrow> ('b, 'e, 'c) Server \<times> body reply" where
  "serve q r s = serve_mux (Mux (mcpEnabled (srv_cfg s)) []) (srv_controlToken s) (handle q) r s"

section \<open>Start-up\<close>

definition new_machines :: "ProjectConfig list \<Rightarrow> time \<Rightarrow> string \<Rightarrow> Machine option" where
  "new_machines projects now = fold (\<lambda>p m. m(pc_name p \<mapsto> NewMachine (pc_name p) now)) projects Map.empty"

text \<open>
  The stores: a registry that could not be opened is carried as nil; one that could is reconciled before anything
  is served. \<open>emitPub\<close> is the bus publisher, absent without a broker.
\<close>

definition boot ::
  "('b, 'v) kv \<Rightarrow> (Registration, 'v) codec \<Rightarrow> DelightConfig \<Rightarrow> bool \<Rightarrow> time \<Rightarrow> Aggregator \<Rightarrow> 'b option \<Rightarrow> 'e option
   \<Rightarrow> (NotRegistered \<Rightarrow> bool) option \<Rightarrow> bytes option \<Rightarrow> 'c \<Rightarrow> ('b, 'e, 'c) Server" where
  "boot K C cfg dryRun now skillAggregator opened stateHome emitPub controlToken cluster =
     (let reg = map_option (\<lambda>b. fst (ReconcileWarmStart K C now WarmStartGrace b)) opened;
          tok = (case controlToken of None \<Rightarrow> [] | Some t \<Rightarrow> t);
          api = NewServer cfg (new_machines (Projects cfg) now) (UseControlToken tok skillAggregator) dryRun reg cluster;
          api = (case stateHome of None \<Rightarrow> api | Some st \<Rightarrow> UseEnablement st api);
          api = (case emitPub of None \<Rightarrow> api | Some pub \<Rightarrow> UseEvents pub api);
          api = UseFurnish (fp_join [ConfigRoot (System cfg), ''kube'', ''kube'']) api
      in UseControlBearer tok api)"

section \<open>Background work\<close>

text \<open>
  \<^verbatim>\<open>syncSkills\<close>: scan, and for each \<^verbatim>\<open>cli\<close> among the exposures generate the command line. \<open>so_bin\<close> is the value of
  \<^verbatim>\<open>DELIGHT_EXPORTS_BIN\<close>, empty when unset; the files written are the second result, and \<open>None\<close> a
  generation that does not return.
\<close>

record skillos =
  so_readManifest :: "string \<Rightarrow> Tool list option"
  so_order :: "(string \<times> Tool) list \<Rightarrow> (string \<times> Tool) list"
  so_bin :: string
  so_home :: string
  so_mkdirAll :: "string \<Rightarrow> string option"
  so_writeFile :: "string \<times> string \<Rightarrow> string option"

definition varBinDir :: "skillos \<Rightarrow> string" where
  "varBinDir os = (if so_bin os = [] then fp_join [so_home os, ''var'', ''bin''] else so_bin os)"

fun expose_loop :: "skillos \<Rightarrow> bool \<Rightarrow> Tool list \<Rightarrow> string list \<Rightarrow> (string \<times> string) list option" where
  "expose_loop os dryRun tools [] = Some []"
| "expose_loop os dryRun tools (method # methods) =
     (if method = ''cli'' \<and> \<not> dryRun
      then Option.bind (GenerateCLIWrapper (so_mkdirAll os) (so_writeFile os) (varBinDir os) tools) (\<lambda>(err, written).
             map_option (\<lambda>rest. written @ rest) (expose_loop os dryRun tools methods))
      else expose_loop os dryRun tools methods)"

definition syncSkills ::
  "skillos \<Rightarrow> DelightConfig \<Rightarrow> string list \<Rightarrow> bool \<Rightarrow> Aggregator \<Rightarrow> (Aggregator \<times> (string \<times> string) list) option" where
  "syncSkills os cfg knownProjects dryRun a =
     (if \<not> as_enabled (AgentSkills (System cfg)) then Some (a, [])
      else
        let a' = ScanProjects (so_readManifest os) knownProjects a
        in map_option (Pair a') (expose_loop os dryRun (GetTools (so_order os) a') (as_expose_via (AgentSkills (System cfg)))))"

text \<open>The discovery tick; the dry-run flag plays no part in it.\<close>

definition discovery_tick ::
  "llmnet \<Rightarrow> 'y traefikos \<Rightarrow> (DynamicConfig \<Rightarrow> string + 'y) \<Rightarrow> DelightConfig \<Rightarrow> (string \<Rightarrow> 'y option) \<Rightarrow> (string \<Rightarrow> 'y option) \<times> string option" where
  "discovery_tick net os yaml cfg fs = SyncLLMRoutes os yaml (DiscoverLocalLLMs net (Some cfg)) fs"

section \<open>Steps of the daemon\<close>

text \<open>
  One step: a request is served, a control loop moves one project's machine, a heartbeat arrives or the registry is
  swept, or the skills are synchronised; in any order, with whatever the surroundings answer.
\<close>

inductive server_step ::
  "('b, 'v) kv \<Rightarrow> (Registration, 'v) codec \<Rightarrow> ('b, 'e, 'c) Server \<Rightarrow> ('b, 'e, 'c) Server \<Rightarrow> bool"
  for K :: "('b, 'v) kv" and C :: "(Registration, 'v) codec" where
  step_request: "q_kv q = K \<Longrightarrow> q_codec q = C \<Longrightarrow> server_step K C s (fst (serve q r s))"
| step_loop: "srv_machines s p = Some m \<Longrightarrow> machine_step f2i m m' \<Longrightarrow>
    server_step K C s (s\<lparr>srv_machines := (srv_machines s)(p \<mapsto> m')\<rparr>)"
| step_heartbeat: "srv_reg s = Some b \<Longrightarrow> on_heartbeat K C clock beat (b, seen) = ((b', seen'), e) \<Longrightarrow>
    server_step K C s (s\<lparr>srv_reg := Some b'\<rparr>)"
| step_sweep: "srv_reg s = Some b \<Longrightarrow> sweep K C now (b, seen) = ((b', seen'), log) \<Longrightarrow>
    server_step K C s (s\<lparr>srv_reg := Some b'\<rparr>)"
| step_skills: "syncSkills os (srv_cfg s) known (srv_dryRun s) (srv_skills s) = Some (a, written) \<Longrightarrow>
    server_step K C s (s\<lparr>srv_skills := a\<rparr>)"

inductive_cases server_stepE: "server_step K C s t"

definition server_start :: "('b, 'v) kv \<Rightarrow> (Registration, 'v) codec \<Rightarrow> ('b, 'e, 'c) Server \<Rightarrow> bool" where
  "server_start K C s \<longleftrightarrow>
     (\<exists>cfg dryRun now a opened stateHome emitPub tok c.
        s = boot K C cfg dryRun now a opened stateHome emitPub tok c \<and> (\<forall>b. opened = Some b \<longrightarrow> reachable (registry_start K) (registry_step K C) b))"

definition server_ok :: "('b, 'v) kv \<Rightarrow> (Registration, 'v) codec \<Rightarrow> ('b, 'e, 'c) Server \<Rightarrow> bool" where
  "server_ok K C s \<longleftrightarrow>
     dom (srv_machines s) = pc_name ` set (Projects (srv_cfg s))
     \<and> (\<forall>p m. srv_machines s p = Some m \<longrightarrow> machine_ok m \<and> ProjectName m = p)
     \<and> (\<forall>b. srv_reg s = Some b \<longrightarrow> registry_ok K C b)
     \<and> ag_controlToken (srv_skills s) = srv_controlToken s"

section \<open>Where a request may reach\<close>

text \<open>The pattern of each route that is not a read.\<close>

definition mutation :: "route \<Rightarrow> string option" where
  "mutation h = (case h of
      RBackup \<Rightarrow> Some ''POST /projects/{name}/backup'' | RReset \<Rightarrow> Some ''POST /projects/{name}/reset''
    | RRegister \<Rightarrow> Some ''POST /register'' | RStatePut \<Rightarrow> Some ''PUT /state/{name}''
    | RFurnishUp \<Rightarrow> Some ''POST /furnish/{piece}/up'' | RFurnishDown \<Rightarrow> Some ''POST /furnish/{piece}/down''
    | RMCP \<Rightarrow> Some ''POST /mcp'' | _ \<Rightarrow> None)"

definition shaped :: "(string \<times> bool \<times> route) list \<Rightarrow> bool" where
  "shaped t \<longleftrightarrow>
     list_all (\<lambda>(pat, g, h). case mutation h of None \<Rightarrow> method_of pat = ''GET'' \<and> \<not> g | Some p \<Rightarrow> pat = p \<and> g = (h \<noteq> RRegister)) t"

lemma Mux_shaped: "shaped (mx_table (Mux mcp op))"
proof -
  have "shaped (mx_table (Mux True []))" "shaped (mx_table (Mux False []))" by code_simp+
  moreover have "mx_table (Mux mcp op) = mx_table (Mux mcp [])" by (simp only: Mux_table)
  ultimately show ?thesis by (cases mcp) simp_all
qed

definition path_of :: "route \<Rightarrow> string \<Rightarrow> string list" where
  "path_of h v = (case h of
      RBackup \<Rightarrow> [''projects'', v, ''backup''] | RReset \<Rightarrow> [''projects'', v, ''reset'']
    | RRegister \<Rightarrow> [''register''] | RStatePut \<Rightarrow> [''state'', v]
    | RFurnishUp \<Rightarrow> [''furnish'', v, ''up''] | RFurnishDown \<Rightarrow> [''furnish'', v, ''down'']
    | RMCP \<Rightarrow> [''mcp''] | _ \<Rightarrow> [])"

definition verb_of :: "route \<Rightarrow> string" where
  "verb_of h = (if h = RStatePut then ''PUT'' else ''POST'')"

lemma mutation_segments:
  "path_segments ''POST /projects/{name}/backup'' = [''projects'', ''{name}'', ''backup'']"
  "path_segments ''POST /projects/{name}/reset'' = [''projects'', ''{name}'', ''reset'']"
  "path_segments ''POST /register'' = [''register'']"
  "path_segments ''PUT /state/{name}'' = [''state'', ''{name}'']"
  "path_segments ''POST /furnish/{piece}/up'' = [''furnish'', ''{piece}'', ''up'']"
  "path_segments ''POST /furnish/{piece}/down'' = [''furnish'', ''{piece}'', ''down'']"
  "path_segments ''POST /mcp'' = [''mcp'']"
  by code_simp+

lemma mutation_methods:
  "method_of ''POST /projects/{name}/backup'' = ''POST''" "method_of ''POST /projects/{name}/reset'' = ''POST''"
  "method_of ''POST /register'' = ''POST''" "method_of ''PUT /state/{name}'' = ''PUT''"
  "method_of ''POST /furnish/{piece}/up'' = ''POST''" "method_of ''POST /furnish/{piece}/down'' = ''POST''"
  "method_of ''POST /mcp'' = ''POST''"
  by code_simp+

lemma match_Nil: "match_segments [] xs = Some v \<longleftrightarrow> xs = [] \<and> v = []"
  by (cases xs) auto

lemma match_Cons:
  "match_segments (p # ps) xs = Some v \<longleftrightarrow>
     (\<exists>y ys. xs = y # ys \<and>
        (if is_wildcard p then y \<noteq> [] \<and> v = y \<and> match_segments ps ys \<noteq> None else p = y \<and> match_segments ps ys = Some v))"
  by (cases xs) auto

lemma match_wild1: "match_segments [p] xs \<noteq> None \<longleftrightarrow> (\<exists>y. xs = [y] \<and> (if is_wildcard p then y \<noteq> [] else p = y))"
  by (cases xs; cases "tl xs") auto

lemma wildcards:
  "is_wildcard ''{name}''" "is_wildcard ''{piece}''" "\<not> is_wildcard ''projects''" "\<not> is_wildcard ''backup''"
  "\<not> is_wildcard ''reset''" "\<not> is_wildcard ''register''" "\<not> is_wildcard ''state''" "\<not> is_wildcard ''furnish''"
  "\<not> is_wildcard ''up''" "\<not> is_wildcard ''down''" "\<not> is_wildcard ''mcp''"
  by code_simp+

lemma Found_mutation:
  assumes "dispatch_in (mx_table (Mux mcp op)) r = Found g h v"
  shows "case mutation h of
      None \<Rightarrow> \<not> g \<and> rq_method r \<in> {''GET'', ''HEAD''}
    | Some p \<Rightarrow> rq_method r = verb_of h \<and> rq_path r = path_of h v \<and> g = (h \<noteq> RRegister)"
proof -
  obtain pat where pat: "(pat, g, h) \<in> set (mx_table (Mux mcp op))" "method_matches (method_of pat) (rq_method r)"
    "match_segments (path_segments pat) (rq_path r) = Some v"
    using dispatch_in_Found [OF assms] by blast
  have shape: "case mutation h of None \<Rightarrow> method_of pat = ''GET'' \<and> \<not> g | Some p \<Rightarrow> pat = p \<and> g = (h \<noteq> RRegister)"
    using Mux_shaped [of mcp op] pat(1) by (auto simp: shaped_def list_all_iff)
  show ?thesis
  proof (cases "mutation h")
    case None
    with shape pat(2) show ?thesis by (auto simp: method_matches_def)
  next
    case (Some p)
    with shape have p: "pat = p" "g = (h \<noteq> RRegister)" by auto
    have "rq_method r = verb_of h \<and> rq_path r = path_of h v"
      using Some pat(2,3) unfolding p(1)
      by (cases h; simp add: mutation_def method_matches_def verb_of_def path_of_def)
         (auto simp: mutation_segments mutation_methods match_Cons match_Nil match_wild1 wildcards)
    with Some p(2) show ?thesis by simp
  qed
qed

definition authorised :: "request \<Rightarrow> bytes \<Rightarrow> bool" where
  "authorised r token \<longleftrightarrow> token \<noteq> [] \<and> rq_authorization r = ''Bearer '' @ token"

lemma serve_cases:
  obtains (refused) "fst (serve q r s) = s"
  | (handled) h v where "serve q r s = handle q h v r s"
      "case mutation h of None \<Rightarrow> rq_method r \<in> {''GET'', ''HEAD''}
       | Some p \<Rightarrow> rq_method r = verb_of h \<and> rq_path r = path_of h v \<and> (h \<noteq> RRegister \<longrightarrow> authorised r (srv_controlToken s))"
proof (cases "dispatch_in (mx_table (Mux (mcpEnabled (srv_cfg s)) [])) r")
  case (Found g h v)
  note shape = Found_mutation [OF Found]
  show ?thesis
  proof (cases "g \<and> \<not> authorised r (srv_controlToken s)")
    case True
    then have "fst (serve q r s) = s"
      using requireBearer_refuses [of "srv_controlToken s" r "handle q h v" s] Found
      by (auto simp: serve_def serve_mux_def authorised_def bearerPrefix_def)
    then show ?thesis by (rule refused)
  next
    case False
    then have "serve q r s = handle q h v r s"
      using Found requireBearer_passes [of "srv_controlToken s" r "handle q h v" s]
      by (auto simp: serve_def serve_mux_def authorised_def bearerPrefix_def)
    then show ?thesis
      using shape False by (intro handled) (auto split: option.splits)
  qed
qed (simp_all add: serve_def serve_mux_def refused)

section \<open>What a handler changes\<close>

lemma health_loop_keeps:
  assumes "apiserver L objs" and "health_loop L F ps c h rs = (c', h', rs')"
  shows "objs c' = objs c"
  using assms(2)
proof (induction ps arbitrary: c h rs)
  case (Cons p ps)
  obtain c1 ladder where step: "health_loop L F (p # ps) c h rs = health_loop L F ps c1 (h \<and> all_green ladder) (rs(p \<mapsto> ladder))"
    and same: "objs c1 = objs c"
    using apiserver.health_loop_step [OF assms(1), of F p ps c h rs] by blast
  have "objs c' = objs c1" using Cons.IH Cons.prems unfolding step .
  then show ?case using same by simp
qed simp

lemma handleFurnishHealth_keeps:
  assumes "\<And>L. fu_client F = Some (Inr L) \<Longrightarrow> apiserver L objs" and "handleFurnishHealth F v c = (c', rep)"
  shows "objs c' = objs c"
proof (cases "furnishCluster F")
  case (Inl rep')
  then show ?thesis
    using assms(2) by (auto simp: handleFurnishHealth_def split: sum.splits if_splits)
next
  case (Inr L)
  then have "apiserver L objs" using assms(1) by (simp add: furnishCluster_Inr)
  note keeps = health_loop_keeps [OF this]
  show ?thesis
    using assms(2) Inr
    by (auto simp: handleFurnishHealth_def split: sum.splits if_splits prod.splits dest: keeps)
qed

lemma machine_handlers:
  "handleBackup f2i rd v ms = (ms', rep) \<Longrightarrow>
     ms' = ms \<or> (\<exists>m. ms v = Some m \<and> ms' = ms(v \<mapsto> fst (Transition f2i rd EventTriggerBackup m)))"
  "handleReset f2i rd v ms = (ms', rep') \<Longrightarrow>
     ms' = ms \<or> (\<exists>m. ms v = Some m \<and> ms' = ms(v \<mapsto> fst (Transition f2i rd EventClearError m)))"
  by (auto simp: handleBackup_def handleReset_def split: option.splits prod.splits)

text \<open>The states a handler may leave, by route; \<open>objs\<close> is what the cluster stores.\<close>

definition footprint ::
  "('c \<Rightarrow> object_id \<Rightarrow> kobject option) \<Rightarrow> route \<Rightarrow> string \<Rightarrow> ('b, 'e, 'c) Server \<Rightarrow> ('b, 'e, 'c) Server \<Rightarrow> bool" where
  "footprint objs h v s s' = (case h of
      RBackup \<Rightarrow> \<exists>m. s' = s\<lparr>srv_machines := (srv_machines s)(v := m)\<rparr>
    | RReset \<Rightarrow> \<exists>m. s' = s\<lparr>srv_machines := (srv_machines s)(v := m)\<rparr>
    | RRegister \<Rightarrow> \<exists>reg bus. s' = s\<lparr>srv_reg := reg, srv_bus := bus\<rparr>
    | RStatePut \<Rightarrow> \<exists>e. s' = s\<lparr>srv_enablement := e\<rparr>
    | RFurnishUp \<Rightarrow> \<exists>c. s' = s\<lparr>srv_cluster := c\<rparr>
    | RFurnishDown \<Rightarrow> \<exists>c. s' = s\<lparr>srv_cluster := c\<rparr>
    | RMCP \<Rightarrow> \<exists>eff. s' = s\<lparr>srv_effects := srv_effects s @ [eff]\<rparr>
    | RFurnishHealth \<Rightarrow> \<exists>c. s' = s\<lparr>srv_cluster := c\<rparr> \<and> objs c = objs (srv_cluster s)
    | _ \<Rightarrow> s' = s)"

lemma machine_footprint:
  assumes "ms' = srv_machines s \<or> (\<exists>m. srv_machines s v = Some m \<and> ms' = (srv_machines s)(v \<mapsto> f m))"
  shows "\<exists>m. s\<lparr>srv_machines := ms'\<rparr> = s\<lparr>srv_machines := (srv_machines s)(v := m)\<rparr>"
proof -
  have "srv_machines s = (srv_machines s)(v := srv_machines s v)" by simp
  then show ?thesis using assms by metis
qed

lemma handle_footprint:
  assumes "\<And>L. q_client q = Inr L \<Longrightarrow> apiserver L objs"
  shows "footprint objs h v s (fst (handle q h v r s))"
proof -
  have client: "apiserver L objs" if "fu_client (furnishing_of q s) = Some (Inr L)" for L
    using that assms by (auto simp: furnishing_of_def split: if_splits)
  show ?thesis
  proof (cases h)
    case RBackup
    obtain ms' rep where b: "handleBackup (q_f2i q) (q_reading q) v (srv_machines s) = (ms', rep)" by fastforce
    show ?thesis
      using machine_footprint [OF machine_handlers(1) [OF b]] by (simp add: RBackup handle_def footprint_def b)
  next
    case RReset
    obtain ms' rep where b: "handleReset (q_f2i q) (q_reading q) v (srv_machines s) = (ms', rep)" by fastforce
    show ?thesis
      using machine_footprint [OF machine_handlers(2) [OF b]] by (simp add: RReset handle_def footprint_def b)
  next
    case RFurnishHealth
    obtain c' rep where b: "handleFurnishHealth (furnishing_of q s) v (srv_cluster s) = (c', rep)" by fastforce
    show ?thesis
      using handleFurnishHealth_keeps [OF client b] by (auto simp: RFurnishHealth handle_def footprint_def b)
  qed (auto simp: handle_def footprint_def split: prod.splits)
qed

lemma server_update_same [simp]:
  "s\<lparr>srv_cluster := srv_cluster s\<rparr> = s"
  by simp

section \<open>Properties\<close>

text \<open>
  C7: What one request can change, whatever it says: a read changes nothing but the client's cache, no object of the cluster
  included; a machine changes only for its own project by an authorised backup or reset, the registry and the
  bus only by an announcement, the enablement store, the cluster and what MCP does only by an authorised
  request to the one route that owns it.
\<close>

theorem requests_change_only_their_own:
  assumes "serve q r s = (s', rep)" and "\<forall>L. q_client q = Inr L \<longrightarrow> apiserver L objs"
  shows "(rq_method r \<in> {''GET'', ''HEAD''} \<longrightarrow> s' = s\<lparr>srv_cluster := srv_cluster s'\<rparr> \<and> objs (srv_cluster s') = objs (srv_cluster s))
    \<and> (\<forall>p. srv_machines s' p \<noteq> srv_machines s p \<longrightarrow>
         rq_method r = ''POST'' \<and> rq_path r \<in> {[''projects'', p, ''backup''], [''projects'', p, ''reset'']} \<and> authorised r (srv_controlToken s))
    \<and> (srv_reg s' \<noteq> srv_reg s \<or> srv_bus s' \<noteq> srv_bus s \<longrightarrow> rq_method r = ''POST'' \<and> rq_path r = [''register''])
    \<and> (srv_enablement s' \<noteq> srv_enablement s \<longrightarrow>
         rq_method r = ''PUT'' \<and> (\<exists>p. rq_path r = [''state'', p]) \<and> authorised r (srv_controlToken s))
    \<and> (objs (srv_cluster s') \<noteq> objs (srv_cluster s) \<longrightarrow>
         rq_method r = ''POST'' \<and> (\<exists>p. rq_path r \<in> {[''furnish'', p, ''up''], [''furnish'', p, ''down'']}) \<and> authorised r (srv_controlToken s))
    \<and> (srv_effects s' \<noteq> srv_effects s \<longrightarrow> rq_method r = ''POST'' \<and> rq_path r = [''mcp''] \<and> authorised r (srv_controlToken s))
    \<and> (srv_cfg s', srv_skills s', srv_dryRun s', srv_controlToken s') = (srv_cfg s, srv_skills s, srv_dryRun s, srv_controlToken s)"
proof (cases rule: serve_cases [of q r s])
  case refused
  then have "s' = s" using assms(1) by simp
  then show ?thesis by simp
next
  case (handled h v)
  have s': "s' = fst (handle q h v r s)" by (simp add: handled(1) [symmetric] assms(1))
  have fp: "footprint objs h v s s'" unfolding s' using assms(2) by (intro handle_footprint) auto
  show ?thesis
  proof (cases "mutation h")
    case None
    then have "s' = s \<or> (\<exists>c. s' = s\<lparr>srv_cluster := c\<rparr> \<and> objs c = objs (srv_cluster s))"
      using fp by (cases h) (simp_all add: mutation_def footprint_def)
    then show ?thesis by auto
  next
    case (Some p)
    have "rq_method r \<notin> {''GET'', ''HEAD''}" using handled(2) Some by (simp add: verb_of_def)
    then show ?thesis
      using fp handled(2) Some
      by (cases h) (auto simp: mutation_def footprint_def verb_of_def path_of_def split: if_splits)
  qed
qed

section \<open>The invariant of the daemon\<close>

lemma new_machines_spec:
  "dom (new_machines ps now) = pc_name ` set ps \<and> (\<forall>p m. new_machines ps now p = Some m \<longrightarrow> m = NewMachine p now)"
proof -
  have "dom (fold (\<lambda>p m. m(pc_name p \<mapsto> NewMachine (pc_name p) now)) ps m0) = dom m0 \<union> pc_name ` set ps
      \<and> (\<forall>p m. fold (\<lambda>p m. m(pc_name p \<mapsto> NewMachine (pc_name p) now)) ps m0 p = Some m \<longrightarrow> m = NewMachine p now \<or> m0 p = Some m)" for m0
  proof (induction ps arbitrary: m0)
    case (Cons p ps)
    then show ?case
      using Cons.IH [of "m0(pc_name p \<mapsto> NewMachine (pc_name p) now)"] by (auto split: if_splits)
  qed simp
  from this [of Map.empty] show ?thesis by (auto simp: new_machines_def)
qed

lemma boot_fields:
  "srv_cfg (boot K C cfg dry now a opened st ev tok c) = cfg"
  "srv_machines (boot K C cfg dry now a opened st ev tok c) = new_machines (Projects cfg) now"
  "srv_reg (boot K C cfg dry now a opened st ev tok c) = map_option (\<lambda>b. fst (ReconcileWarmStart K C now WarmStartGrace b)) opened"
  "srv_skills (boot K C cfg dry now a opened st ev tok c) = UseControlToken (case tok of None \<Rightarrow> [] | Some t \<Rightarrow> t) a"
  "srv_controlToken (boot K C cfg dry now a opened st ev tok c) = (case tok of None \<Rightarrow> [] | Some t \<Rightarrow> t)"
  by (simp_all add: boot_def NewServer_def UseEnablement_def UseEvents_def UseFurnish_def UseControlBearer_def Let_def split: option.split)

lemma boot_ok:
  assumes "registry_store K C" and "server_start K C s"
  shows "server_ok K C s"
proof -
  obtain cfg dry now a opened st ev tok c where s: "s = boot K C cfg dry now a opened st ev tok c"
    and reg: "\<forall>b. opened = Some b \<longrightarrow> reachable (registry_start K) (registry_step K C) b"
    using assms(2) unfolding server_start_def by blast
  have "registry_ok K C b" if "srv_reg s = Some b" for b
    using that reg registry_store.registry_reachable_ok [OF assms(1)] registry_store.ReconcileWarmStart_ok [OF assms(1)]
    by (auto simp: s boot_fields)
  moreover have "machine_ok m \<and> ProjectName m = p" if "new_machines (Projects cfg) now p = Some m" for p m
  proof -
    have "m = NewMachine p now" using that new_machines_spec [of "Projects cfg" now] by blast
    then show ?thesis using NewMachine_ok [of p now] by (simp add: NewMachine_def)
  qed
  ultimately show ?thesis
    using new_machines_spec [of "Projects cfg" now] by (simp add: server_ok_def s boot_fields UseControlToken_def)
qed

lemma machine_update_ok:
  assumes "server_ok K C s" and "srv_machines s v = Some m" and "machine_ok m \<Longrightarrow> machine_ok m'" and "ProjectName m' = ProjectName m"
  shows "server_ok K C (s\<lparr>srv_machines := (srv_machines s)(v \<mapsto> m')\<rparr>)"
proof -
  have "insert v (dom (srv_machines s)) = dom (srv_machines s)" using assms(2) by auto
  then show ?thesis using assms by (auto simp: server_ok_def)
qed

lemma handleRegister_reg:
  "rs_reg (fst (handleRegister K env body t)) = rs_reg t
   \<or> (\<exists>b reg. rs_reg t = Some b \<and> rs_reg (fst (handleRegister K env body t)) = Some (fst (Upsert K (re_codec env) reg b)))"
proof (cases rule: handleRegister_cases [of env t K body])
  case refused
  then obtain st p ep code reason where "handleRegister K env body t = notRegistered env st p ep code reason t"
    unfolding refusing_def by blast
  then show ?thesis by (simp add: notRegistered_def emitNotRegistered_def Let_def split: option.split)
next
  case (admitted req)
  have emit: "rs_reg (emitNotRegistered env p ep code reason u) = rs_reg u" for p ep code reason u
    by (simp add: emitNotRegistered_def Let_def split: option.split)
  show ?thesis
  proof (cases "rs_reg t")
    case None
    then show ?thesis by (simp add: admitted(3) record_registration_def)
  next
    case (Some b)
    let ?up = "Upsert K (re_codec env) (new_registration env req (hd (rr_endpoints req))) b"
    have "rs_reg (fst (handleRegister K env body t)) = Some (fst ?up)"
      by (simp add: admitted(3) record_registration_def Some notRegistered_def emit split: prod.split option.split sum.split)
    then show ?thesis using Some by blast
  qed
qed

lemma handle_ok:
  assumes "registry_store K C" and "q_kv q = K" and "q_codec q = C" and "server_ok K C s"
  shows "server_ok K C (fst (handle q h v r s))"
proof (cases h)
  case RBackup
  obtain ms' rep where b: "handleBackup (q_f2i q) (q_reading q) v (srv_machines s) = (ms', rep)" by fastforce
  show ?thesis
    using machine_handlers(1) [OF b] assms(4) machine_update_ok [OF assms(4)] Transition_ok
    by (auto simp: RBackup handle_def b)
next
  case RReset
  obtain ms' rep where b: "handleReset (q_f2i q) (q_reading q) v (srv_machines s) = (ms', rep)" by fastforce
  show ?thesis
    using machine_handlers(2) [OF b] assms(4) machine_update_ok [OF assms(4)] Transition_ok
    by (auto simp: RReset handle_def b)
next
  case RRegister
  let ?env = "(q_register q)\<lparr>re_cfg := srv_cfg s, re_codec := C, re_publisher := srv_events s\<rparr>"
  obtain t rep where b: "handleRegister K ?env (rq_body r) \<lparr>rs_reg = srv_reg s, rs_events = srv_bus s\<rparr> = (t, rep)" by fastforce
  have "rs_reg t = srv_reg s \<or> (\<exists>b reg. srv_reg s = Some b \<and> rs_reg t = Some (fst (Upsert K C reg b)))"
    using handleRegister_reg [of K ?env "rq_body r" "\<lparr>rs_reg = srv_reg s, rs_events = srv_bus s\<rparr>"] b by simp
  then show ?thesis
    using assms b registry_store.Upsert_ok [OF assms(1)] by (auto simp: RRegister handle_def server_ok_def)
qed (use assms(4) in \<open>auto simp: handle_def server_ok_def split: prod.splits\<close>)

lemma serve_reg:
  "srv_reg (fst (serve q r s)) = srv_reg s
   \<or> (\<exists>b b'. srv_reg s = Some b \<and> srv_reg (fst (serve q r s)) = Some b' \<and> registry_step (q_kv q) (q_codec q) b b')"
proof (cases rule: serve_cases [of q r s])
  case (handled h v)
  show ?thesis
  proof (cases h)
    case RRegister
    let ?env = "(q_register q)\<lparr>re_cfg := srv_cfg s, re_codec := q_codec q, re_publisher := srv_events s\<rparr>"
    obtain t rep where "handleRegister (q_kv q) ?env (rq_body r) \<lparr>rs_reg = srv_reg s, rs_events = srv_bus s\<rparr> = (t, rep)" by fastforce
    with handleRegister_reg [of "q_kv q" ?env "rq_body r" "\<lparr>rs_reg = srv_reg s, rs_events = srv_bus s\<rparr>"]
    show ?thesis by (auto simp: handled(1) RRegister handle_def intro: step_upsert)
  qed (simp_all add: handled(1) handle_def Let_def split: prod.split)
qed simp

lemma ScanProjects_token [simp]: "ag_controlToken (ScanProjects rd known a) = ag_controlToken a"
proof -
  have load: "ag_controlToken (loadManifest rd path ns a) = ag_controlToken a" for path ns a
  proof (cases "rd path")
    case (Some tools)
    have "ag_controlToken (fold (\<lambda>t a. let toolName = ns @ ''_'' @ tool_name t
        in a\<lparr>ag_tools := AList.update toolName (t\<lparr>tool_name := toolName\<rparr>) (ag_tools a)\<rparr>) tools a) = ag_controlToken a"
      by (induction tools arbitrary: a) (simp_all add: Let_def)
    then show ?thesis by (simp add: loadManifest_def Some)
  qed (simp add: loadManifest_def)
  have "ag_controlToken (fold (\<lambda>proj a. loadManifest rd (fp_join [ag_workDir a, proj, ''mcp.json'']) proj a) known a) = ag_controlToken a" for a
    by (induction known arbitrary: a) (simp_all add: load)
  then show ?thesis by (simp add: ScanProjects_def Let_def load)
qed

lemma step_ok_server:
  assumes "registry_store K C" and "server_ok K C s" and "server_step K C s t"
  shows "server_ok K C t"
  using assms(3)
proof cases
  case (step_request q r)
  show ?thesis
  proof (cases rule: serve_cases [of q r s])
    case refused
    then show ?thesis using assms(2) step_request(1) by simp
  next
    case (handled h v)
    then show ?thesis
      using handle_ok [OF assms(1) step_request(2,3) assms(2), of h v r] step_request(1) by simp
  qed
next
  case (step_loop p m f2i m')
  have "ProjectName m' = ProjectName m" using step_loop(3) by (auto elim: machine_stepE)
  then show ?thesis
    unfolding step_loop(1) using assms(2) step_loop(2) machine_sys.step_inv [OF _ step_loop(3)] by (intro machine_update_ok)
next
  case (step_heartbeat b clock beat seen b' seen' e)
  then show ?thesis
    using assms(2) heartbeat_steps [OF step_heartbeat(3)] registry_store.registry_step_ok [OF assms(1)] by (auto simp: server_ok_def)
next
  case (step_sweep b now seen b' seen' log)
  then show ?thesis
    using assms(2) sweep_steps [OF step_sweep(3)] registry_store.registry_step_ok [OF assms(1)] by (auto simp: server_ok_def)
next
  case (step_skills os known a written)
  have "ag_controlToken a = ag_controlToken (srv_skills s)"
    using step_skills(2) by (auto simp: syncSkills_def Let_def split: if_splits)
  then show ?thesis
    using assms(2) step_skills(1) by (simp add: server_ok_def)
qed

text \<open>
  Whatever requests, heartbeats, sweeps, control-loop moves and skill scans interleave after start-up: there is exactly one
  machine per project of the roster, each with a consistent failure history; no two projects hold the same
  endpoint in the registry; and the token the MCP surface sends to the control port is the one its gate asks for.
\<close>

theorem daemon_invariant:
  assumes "registry_store K C" and "reachable (server_start K C) (server_step K C) s"
  shows "dom (srv_machines s) = pc_name ` set (Projects (srv_cfg s))
    \<and> (\<forall>p m. srv_machines s p = Some m \<longrightarrow> ProjectName m = p \<and> 0 \<le> ErrorCount m
         \<and> (CurrentState m \<in> {StateFallow, StateMonitoring} \<longrightarrow> ErrorCount m = 0 \<and> NextRetryAt m = zero_time)
         \<and> (CurrentState m = StateError \<longrightarrow> 1 \<le> ErrorCount m))
    \<and> (\<forall>b k k' r r'. srv_reg s = Some b \<longrightarrow> live K C b k = Some r \<longrightarrow> live K C b k' = Some r' \<longrightarrow>
         rg_project r = k \<and> (reg_address r = reg_address r' \<and> reg_address r \<noteq> [] \<longrightarrow> k = k'))
    \<and> ag_controlToken (srv_skills s) = srv_controlToken s"
proof -
  have "invariant_system (server_start K C) (server_step K C) (server_ok K C)"
    by (rule invariant_system.intro) (use assms(1) boot_ok step_ok_server in blast)+
  then have ok: "server_ok K C s" using assms(2) by (rule invariant_system.reachable_inv)
  have "rg_project r = k \<and> (reg_address r = reg_address r' \<and> reg_address r \<noteq> [] \<longrightarrow> k = k')"
    if "srv_reg s = Some b" "live K C b k = Some r" "live K C b k' = Some r'" for b k k' r r'
    using ok that exclusiveD unfolding server_ok_def registry_ok_def keyed_def by blast
  then show ?thesis
    using ok by (auto simp: server_ok_def machine_ok_def)
qed

lemma serve_unauthorised:
  assumes "rq_method r \<notin> {''GET'', ''HEAD''}" and "\<not> authorised r (srv_controlToken s)" and "rq_path r \<noteq> [''register'']"
  shows "fst (serve q r s) = s \<and> rp_status (snd (serve q r s)) \<in> {401, 503, 404, 405}"
proof (cases "dispatch_in (mx_table (Mux (mcpEnabled (srv_cfg s)) [])) r")
  case (Found g h v)
  have "g"
    using Found_mutation [OF Found] assms(1,3) by (cases "mutation h") (auto simp: path_of_def)
  then show ?thesis
    using requireBearer_refuses [of "srv_controlToken s" r "handle q h v" s] Found assms(2)
    by (auto simp: serve_def serve_mux_def authorised_def bearerPrefix_def)
qed (simp_all add: serve_def serve_mux_def writeError_def)

subsection \<open>The command line against the server\<close>

text \<open>One request of the command line, answered by the server; \<open>text\<close> renders status and body.\<close>

definition send_to ::
  "('b, 'v, 'e, 'c) reqenv \<Rightarrow> (nat \<Rightarrow> string) \<Rightarrow> (body reply \<Rightarrow> string) \<Rightarrow> ('b, 'e, 'c) Server \<Rightarrow> request \<Rightarrow> string + nat \<times> string \<times> string" where
  "send_to q status render_body s r =
     (let rep = snd (serve q r s) in Inr (rp_status rep, status (rp_status rep), render_body rep))"

lemma furnish_segments: "path_segments (''/furnish/'' @ x) = ''furnish'' # splitOn (CHR ''/'') x"
  using splitOn_append [of "CHR ''/''" "''/furnish''" x] by (simp add: path_segments_def)

lemma furnishDo_refused:
  assumes "path_segments path = ''furnish'' # rest"
  shows "\<exists>out. furnishDo (send_to q status render_body s) addr ''POST'' path = (out, Some (''furnish: POST '' @ path @ '' -> ''
           @ status (rp_status (snd (serve q \<lparr>rq_method = ''POST'', rq_path = path_segments path, rq_authorization = [], rq_query_type = [], rq_body = []\<rparr> s)))))
     \<and> fst (serve q \<lparr>rq_method = ''POST'', rq_path = path_segments path, rq_authorization = [], rq_query_type = [], rq_body = []\<rparr> s) = s"
proof -
  let ?r = "\<lparr>rq_method = ''POST'', rq_path = path_segments path, rq_authorization = [], rq_query_type = [], rq_body = []\<rparr>"
  have "fst (serve q ?r s) = s \<and> rp_status (snd (serve q ?r s)) \<in> {401, 503, 404, 405}"
    using assms by (intro serve_unauthorised) (auto simp: authorised_def)
  moreover from this have "rp_status (snd (serve q ?r s)) div 100 \<noteq> 2" by auto
  ultimately show ?thesis
    by (simp add: furnishDo_def send_to_def Let_def)
qed

text \<open>
  C40: The furnish command line cannot converge or remove anything: against this server, in whatever state, with or without a
  provisioned token, \<^verbatim>\<open>furnish up\<close> and \<^verbatim>\<open>furnish down\<close> change nothing and exit with an error, because the
  command sends no bearer.
\<close>

theorem furnish_command_line_is_refused:
  "(\<exists>out err. furnishCmd (send_to q status render_body s) addr (CmdUp p) = (out, Some err))
   \<and> (\<exists>out err. furnishCmd (send_to q status render_body s) addr (CmdDown p) = (out, Some err))
   \<and> fst (serve q \<lparr>rq_method = ''POST'', rq_path = path_segments (''/furnish/'' @ p @ ''/up''), rq_authorization = [],
        rq_query_type = [], rq_body = []\<rparr> s) = s
   \<and> fst (serve q \<lparr>rq_method = ''POST'', rq_path = path_segments (''/furnish/'' @ p @ ''/down''), rq_authorization = [],
        rq_query_type = [], rq_body = []\<rparr> s) = s"
  using furnishDo_refused [OF furnish_segments [of "p @ ''/up''"], of q status render_body s addr]
    furnishDo_refused [OF furnish_segments [of "p @ ''/down''"], of q status render_body s addr]
  by (auto simp: furnishCmd_def)

section \<open>A sample daemon\<close>

definition sample_reqenv :: "(Registration bucket, Registration, EnRecord bucket, ref_objects) reqenv" where
  "sample_reqenv =
     \<lparr>q_kv = demo_kv, q_codec = id_codec, q_register = demo_env (\<lambda>b. Inr demo_req), q_readDir = (\<lambda>p. None),
      q_client = Inr ref_cluster, q_ready = (\<lambda>c. None), q_probe = None, q_metrics = ([], Map.empty),
      q_llm = \<lparr>ln_badURL = (\<lambda>u. False), ln_get = (\<lambda>u. Inl ''refused''), ln_tags = (\<lambda>b. Inr [])\<rparr>,
      q_git = \<lparr>go_home = None, go_stat = (\<lambda>p. PathMissing), go_open = (\<lambda>p. Inl ''no repository'')\<rparr>, q_late = (\<lambda>i. False), q_order = [],
      q_f2i = (\<lambda>f. 0), q_reading = \<lparr>r_now = 8, r_done = 9, r_intn = 0\<rparr>, q_marshalProject = (\<lambda>p. Inr []),
      q_marshalRegistration = (\<lambda>r. Inr []), q_marshalService = (\<lambda>s. Inr []), q_marshalResolved = (\<lambda>r. Inr []),
      q_fragment = (\<lambda>p. False), q_enstore = bolt_enstore (ref_kv (\<lambda>_. True)) id_codec (\<lambda>r. r) 7,
      q_decodeState = (\<lambda>b. Inl ''malformed''), q_pieces = Inr [''bus''], q_kustomize = (\<lambda>d. Inr [Inr demo_deploy]),
      q_mcp = sample_mcpenv\<rparr>"

definition sample_server :: "(Registration bucket, EnRecord bucket, ref_objects) Server" where
  "sample_server = boot demo_kv id_codec Register.demo_cfg False 0 (NewAggregator ''/w'') (Some bk_empty) None None (Some ''s3cret'') Map.empty"

lemma sample_start: "reachable (server_start demo_kv id_codec) (server_step demo_kv id_codec) sample_server"
proof (rule reach_start)
  have "reachable (registry_start demo_kv) (registry_step demo_kv id_codec) bk_empty"
    by (rule reach_start) (simp add: registry_start_def ref_kv_def)
  then show "server_start demo_kv id_codec sample_server"
    unfolding server_start_def sample_server_def by blast
qed

theorem daemon_invariant_witness:
  "dom (srv_machines sample_server) = pc_name ` set (Projects (srv_cfg sample_server))
   \<and> ag_controlToken (srv_skills sample_server) = srv_controlToken sample_server"
  using daemon_invariant [OF demo_store sample_start] by blast

theorem requests_change_only_their_own_witness:
  "srv_machines (fst (serve sample_reqenv
      \<lparr>rq_method = ''POST'', rq_path = [''projects'', ''obs'', ''reset''], rq_authorization = ''Bearer guess'', rq_query_type = [], rq_body = []\<rparr>
      sample_server)) ''obs'' = srv_machines sample_server ''obs''"
proof -
  let ?r = "\<lparr>rq_method = ''POST'', rq_path = [''projects'', ''obs'', ''reset''], rq_authorization = ''Bearer guess'', rq_query_type = [], rq_body = []\<rparr>"
  have "\<forall>L. q_client sample_reqenv = Inr L \<longrightarrow> apiserver L (\<lambda>c. c)"
    using refapi.apiserver_axioms by (simp add: sample_reqenv_def)
  from requests_change_only_their_own [OF surjective_pairing this, of ?r sample_server]
  have "srv_machines (fst (serve sample_reqenv ?r sample_server)) ''obs'' \<noteq> srv_machines sample_server ''obs'' \<longrightarrow>
      authorised ?r (srv_controlToken sample_server)" by blast
  moreover have "\<not> authorised ?r (srv_controlToken sample_server)"
    by (simp add: authorised_def sample_server_def boot_fields)
  ultimately show ?thesis by blast
qed

end
