(* ===== verification/Fleet.thy ===== *)
theory Fleet
  imports Daemon Config
begin

text \<open>
  The loops of all projects at once, as \<^verbatim>\<open>runDaemon\<close> of \<^verbatim>\<open>cmd/delightd/main.go\<close> starts them: one goroutine per roster entry,
  each with its own machine, all with the same backup directory, the same bus and the same
  counters. The refinement at the end projects the fleet on one project: what that project goes through is a run of
  the single loop of the theory Daemon.
\<close>

section \<open>The goroutines\<close>

text \<open>A goroutine has been started, is in its loop, or has returned after the context was cancelled.\<close>

datatype goroutine = GStart | GRun loop_pc | GReturned

record fleet =
  fl_machines :: "string \<Rightarrow> Machine option"
  fl_store :: store
  fl_loops :: "nat \<Rightarrow> goroutine"
  fl_events :: "BackupEvent list"
  fl_metrics :: counters
  fl_ctxDone :: bool
  fl_panicked :: bool

text \<open>What the goroutine of a project closes over.\<close>

definition loopcfg_of :: "DelightConfig \<Rightarrow> bool \<Rightarrow> bool \<Rightarrow> (BackupEvent \<Rightarrow> bool) option \<Rightarrow> (int \<Rightarrow> duration) \<Rightarrow> ProjectConfig \<Rightarrow> loopcfg" where
  "loopcfg_of cfg dryRun immediate pub f2i p =
     \<lparr>lc_name = pc_name p, lc_check_interval = CheckInterval (pc_backup p), lc_max_archives = MaxArchives (pc_backup p),
      lc_exclude = Exclude (pc_backup p), lc_backups_root = BackupsRoot (System cfg), lc_dry_run = dryRun, lc_immediate = immediate,
      lc_publisher = pub, lc_f2i = f2i\<rparr>"

definition loops_of :: "DelightConfig \<Rightarrow> bool \<Rightarrow> bool \<Rightarrow> (BackupEvent \<Rightarrow> bool) option \<Rightarrow> (int \<Rightarrow> duration) \<Rightarrow> loopcfg list" where
  "loops_of cfg dryRun immediate pub f2i = map (loopcfg_of cfg dryRun immediate pub f2i) (Projects cfg)"

text \<open>What a loop sees of the fleet, and the fleet after a move of the loop.\<close>

definition view_of :: "Machine \<Rightarrow> loop_pc \<Rightarrow> fleet \<Rightarrow> loopstate" where
  "view_of m pc s = \<lparr>ls_machine = m, ls_store = fl_store s, ls_pc = pc, ls_events = fl_events s, ls_metrics = fl_metrics s\<rparr>"

definition put_view :: "nat \<Rightarrow> string \<Rightarrow> loopstate \<Rightarrow> fleet \<Rightarrow> fleet" where
  "put_view i name v s =
     s\<lparr>fl_machines := (fl_machines s)(name \<mapsto> ls_machine v), fl_store := ls_store v,
       fl_loops := (fl_loops s)(i := GRun (ls_pc v)), fl_events := ls_events v, fl_metrics := ls_metrics v\<rparr>"

text \<open>
  One move of the goroutines: one starts (or panics, which ends the process), moves in its loop, or returns once the context is done.
\<close>

inductive fleet_move :: "loopcfg list \<Rightarrow> fleet \<Rightarrow> fleet \<Rightarrow> bool" for loops :: "loopcfg list" where
  start_loop: "i < length loops \<Longrightarrow> fl_loops s i = GStart \<Longrightarrow> fl_machines s (lc_name (loops ! i)) = Some m \<Longrightarrow>
    loop_start parse (loops ! i) churn rd (view_of m LSelect s) = Some (v, interval) \<Longrightarrow>
    fleet_move loops s (put_view i (lc_name (loops ! i)) v s)"
| panic_loop: "i < length loops \<Longrightarrow> fl_loops s i = GStart \<Longrightarrow> fl_machines s (lc_name (loops ! i)) = Some m \<Longrightarrow>
    loop_start parse (loops ! i) churn rd (view_of m LSelect s) = None \<Longrightarrow>
    fleet_move loops s (s\<lparr>fl_panicked := True\<rparr>)"
| move_loop: "i < length loops \<Longrightarrow> fl_loops s i = GRun pc \<Longrightarrow>
    fl_machines s (lc_name (loops ! i)) = Some m \<Longrightarrow> loop_move (loops ! i) (view_of m pc s) v \<Longrightarrow>
    fleet_move loops s (put_view i (lc_name (loops ! i)) v s)"
| return_loop: "i < length loops \<Longrightarrow> fl_loops s i = GRun LSelect \<Longrightarrow> fl_ctxDone s \<Longrightarrow>
    fleet_move loops s (s\<lparr>fl_loops := (fl_loops s)(i := GReturned)\<rparr>)"

text \<open>What happens to the fleet: its own moves, an event a handler of the control port sends to a machine, the cancelled context.\<close>

inductive fleet_step :: "(int \<Rightarrow> duration) \<Rightarrow> loopcfg list \<Rightarrow> fleet \<Rightarrow> fleet \<Rightarrow> bool"
  for f2i :: "int \<Rightarrow> duration" and loops :: "loopcfg list" where
  fleet_moves: "\<not> fl_panicked s \<Longrightarrow> fleet_move loops s t \<Longrightarrow> fleet_step f2i loops s t"
| request: "\<not> fl_panicked s \<Longrightarrow> fl_machines s p = Some m \<Longrightarrow> e = EventTriggerBackup \<or> e = EventClearError \<Longrightarrow>
    fleet_step f2i loops s (s\<lparr>fl_machines := (fl_machines s)(p \<mapsto> fst (Transition f2i rd e m))\<rparr>)"
| cancel: "\<not> fl_panicked s \<Longrightarrow> fleet_step f2i loops s (s\<lparr>fl_ctxDone := True\<rparr>)"

inductive_cases fleet_moveE: "fleet_move loops s t"

inductive_cases fleet_stepE: "fleet_step f2i loops s t"

definition fleet_init :: "loopcfg list \<Rightarrow> store \<Rightarrow> fleet \<Rightarrow> bool" where
  "fleet_init loops st s \<longleftrightarrow>
     (\<forall>c \<in> set loops. \<exists>now. fl_machines s (lc_name c) = Some (NewMachine (lc_name c) now))
     \<and> fl_store s = st \<and> fl_loops s = (\<lambda>i. GStart) \<and> fl_events s = [] \<and> fl_metrics s = (\<lambda>_. None)
     \<and> \<not> fl_ctxDone s \<and> \<not> fl_panicked s"

section \<open>What a move leaves to the others\<close>

definition pc_of :: "goroutine \<Rightarrow> loop_pc" where
  "pc_of g = (case g of GRun pc \<Rightarrow> pc | _ \<Rightarrow> LSelect)"

lemma pc_of_simps [simp]: "pc_of GStart = LSelect" "pc_of (GRun pc) = pc" "pc_of GReturned = LSelect"
  by (simp_all add: pc_of_def)

lemma metric_keys_of_others:
  "m \<in> own_metrics \<Longrightarrow> m' \<in> own_metrics \<Longrightarrow> p \<noteq> q \<Longrightarrow> metric_key m p \<noteq> metric_key m' q"
  by (auto simp: own_metrics_def metric_key_def)

lemma Inc_other: "k \<noteq> k' \<Longrightarrow> Inc k m k' = m k'"
  by (simp add: Inc_def)

lemma publish_other: "p \<noteq> q \<Longrightarrow> own_events q (publishBackupEvent pub now p ok res evs) = own_events q evs"
  by (simp add: publishBackupEvent_def own_events_def Let_def split: option.split)

lemma loop_move_others:
  assumes "loop_move c s t" and "lc_name c \<noteq> q"
  shows "own_events q (ls_events t) = own_events q (ls_events s)
    \<and> (\<forall>m \<in> own_metrics. ls_metrics t (metric_key m q) = ls_metrics s (metric_key m q))"
proof -
  have key: "Inc (metric_key m' (lc_name c)) f (metric_key m q) = f (metric_key m q)"
    if "m \<in> own_metrics" "m' \<in> own_metrics" for m m' f
    using metric_keys_of_others [OF that(2,1) assms(2)] by (rule Inc_other)
  show ?thesis
    using assms(1)
    by (cases rule: loop_move.cases)
      (auto simp: poll_tick_def polled_tick_def advance_tick_def eval_tick_def count_tick_def publish_tick_def finish_tick_def
        retry_check_def can_retry_check_def retry_tick_def publish_other [OF assms(2)] key own_metrics_def
        split: sum.splits prod.splits)
qed

lemma loop_start_shape:
  assumes "loop_start parse c churn rd s = Some (v, interval)"
  shows "v = s \<or> v = on_machine c rd EventTriggerBackup s"
  using assms by (auto simp: loop_start_def Let_def split: if_splits)

section \<open>The projection on one project\<close>

text \<open>Every step of the fleet is, seen by one project, a step of its own loop or none at all.\<close>

definition project_view :: "loopcfg \<Rightarrow> nat \<Rightarrow> fleet \<Rightarrow> loopstate option" where
  "project_view c j s = map_option (\<lambda>m. view_of m (pc_of (fl_loops s j)) s) (fl_machines s (lc_name c))"

lemma project_view_put_own:
  "project_view c j (put_view j (lc_name c) v s) = Some v"
  by (simp add: project_view_def put_view_def view_of_def)

lemma put_view_others:
  assumes "i \<noteq> j" and "lc_name c \<noteq> lc_name d" and "project_view d j s = Some w"
    and "own_events (lc_name d) (ls_events v) = own_events (lc_name d) (fl_events s)"
    and "\<forall>m \<in> own_metrics. ls_metrics v (metric_key m (lc_name d)) = fl_metrics s (metric_key m (lc_name d))"
  shows "\<exists>w'. project_view d j (put_view i (lc_name c) v s) = Some w' \<and> untouched_by_others d w w'"
  using assms by (auto simp: project_view_def put_view_def view_of_def untouched_by_others_def)

lemma names_apart:
  "distinct (map lc_name loops) \<Longrightarrow> i < length loops \<Longrightarrow> j < length loops \<Longrightarrow> i \<noteq> j \<Longrightarrow> lc_name (loops ! i) \<noteq> lc_name (loops ! j)"
  by (metis distinct_conv_nth length_map nth_map)

lemma fleet_move_projects:
  assumes "distinct (map lc_name loops)" and "j < length loops"
    and "fleet_move loops s t" and "project_view (loops ! j) j s = Some w"
  shows "\<exists>w'. project_view (loops ! j) j t = Some w' \<and> (w' = w \<or> loop_step (loops ! j) w w')"
  using assms(3)
proof cases
  case (start_loop i m parse churn rd v interval)
  note v = loop_start_shape [OF start_loop(5)]
  show ?thesis
  proof (cases "i = j")
    case True
    then have "w = view_of m LSelect s" using assms(4) start_loop(3,4) by (simp add: project_view_def)
    then show ?thesis using v start_loop(1) True by (auto simp: project_view_put_own intro: http_backup)
  next
    case False
    have "ls_events v = fl_events s" "ls_metrics v = fl_metrics s" using v by (auto simp: view_of_def)
    then show ?thesis
      using put_view_others [OF False names_apart [OF assms(1) start_loop(2) assms(2) False] assms(4), of v] start_loop(1)
      by (auto intro: others)
  qed
next
  case (move_loop i pc m v)
  show ?thesis
  proof (cases "i = j")
    case True
    then have "w = view_of m pc s" using assms(4) move_loop(3,4) by (simp add: project_view_def)
    then show ?thesis using move_loop(1,5) True by (auto simp: project_view_put_own intro: own)
  next
    case False
    note apart = names_apart [OF assms(1) move_loop(2) assms(2) False]
    have "own_events (lc_name (loops ! j)) (ls_events v) = own_events (lc_name (loops ! j)) (fl_events s)
      \<and> (\<forall>m \<in> own_metrics. ls_metrics v (metric_key m (lc_name (loops ! j))) = fl_metrics s (metric_key m (lc_name (loops ! j))))"
      using loop_move_others [OF move_loop(5) apart] by (simp add: view_of_def)
    then show ?thesis
      using put_view_others [OF False apart assms(4), of v] move_loop(1) by (auto intro: others)
  qed
next
  case (return_loop i)
  then show ?thesis using assms(4) by (cases "i = j") (auto simp: project_view_def view_of_def)
qed (use assms(4) in \<open>auto simp: project_view_def view_of_def\<close>)

lemma fleet_step_projects:
  assumes "distinct (map lc_name loops)" and "\<forall>c \<in> set loops. lc_f2i c = f2i" and "j < length loops"
    and "fleet_step f2i loops s t" and "project_view (loops ! j) j s = Some w"
  shows "\<exists>w'. project_view (loops ! j) j t = Some w' \<and> (w' = w \<or> loop_step (loops ! j) w w')"
  using assms(4)
proof cases
  case fleet_moves
  then show ?thesis using fleet_move_projects [OF assms(1,3) _ assms(5)] by blast
next
  case (request p m e rd)
  have f2i: "lc_f2i (loops ! j) = f2i" using assms(2,3) by simp
  show ?thesis
  proof (cases "p = lc_name (loops ! j)")
    case True
    then have w: "w = view_of m (pc_of (fl_loops s j)) s" using assms(5) request(3) by (simp add: project_view_def)
    have "project_view (loops ! j) j t = Some (on_machine (loops ! j) rd e w)"
      using True by (simp add: request(1) w project_view_def view_of_def on_machine_def f2i)
    then show ?thesis using request(4) by (auto intro: http_backup http_reset)
  qed (use assms(5) request(1) in \<open>auto simp: project_view_def view_of_def\<close>)
qed (use assms(5) in \<open>auto simp: project_view_def view_of_def\<close>)

lemma fleet_projects:
  assumes "distinct (map lc_name loops)" and "\<forall>c \<in> set loops. lc_f2i c = f2i" and "j < length loops"
    and "reachable (fleet_init loops st) (fleet_step f2i loops) s"
  shows "\<exists>w. project_view (loops ! j) j s = Some w \<and> reachable (loop_init (loops ! j) st) (loop_step (loops ! j)) w"
  using assms(4)
proof induction
  case (reach_start s)
  then obtain now where "fl_machines s (lc_name (loops ! j)) = Some (NewMachine (lc_name (loops ! j)) now)"
    using nth_mem [OF assms(3)] unfolding fleet_init_def by blast
  then show ?case
    using reach_start by (auto simp: fleet_init_def project_view_def view_of_def loop_init_def intro!: reachable.reach_start)
next
  case (reach_step s t)
  then obtain w where w: "project_view (loops ! j) j s = Some w" "reachable (loop_init (loops ! j) st) (loop_step (loops ! j)) w"
    by blast
  from fleet_step_projects [OF assms(1-3) reach_step(2) w(1)] w(2) show ?case
    by (auto intro: reachable.reach_step)
qed

lemma Load_distinct: "Load vp env viperRead readDir = Inr cfg \<Longrightarrow> distinct (map pc_name (Projects cfg))"
proof (cases "vp_bind_err vp")
  case None
  assume L: "Load vp env viperRead readDir = Inr cfg"
  obtain c where "Load vp env viperRead readDir =
       Inr ((fst (validate_from 0 {} (candidates vp env viperRead readDir) c))
            \<lparr>Projects := snd (validate_from 0 {} (candidates vp env viperRead readDir) c)\<rparr>)"
    by (rule Load_shape [OF None])
  with L show ?thesis by (auto simp: validate_from_names)
qed (simp add: Load_def)

lemma loops_of_names: "map lc_name (loops_of cfg dryRun immediate pub f2i) = map pc_name (Projects cfg)"
  by (simp add: loops_of_def loopcfg_of_def)

lemma loops_of_f2i: "\<forall>c \<in> set (loops_of cfg dryRun immediate pub f2i). lc_f2i c = f2i"
  by (simp add: loops_of_def loopcfg_of_def)

lemma loops_of_nth: "j < length (Projects cfg) \<Longrightarrow> loops_of cfg dryRun immediate pub f2i ! j = loopcfg_of cfg dryRun immediate pub f2i (Projects cfg ! j)"
  by (simp add: loops_of_def)

text \<open>What any one project sees of the fleet is a run of its own loop; the names of a loaded roster are distinct.\<close>

lemma fleet_projection:
  assumes "Load vp env viperRead readDir = Inr cfg" and "j < length (Projects cfg)"
    and "reachable (fleet_init (loops_of cfg dryRun immediate pub f2i) st) (fleet_step f2i (loops_of cfg dryRun immediate pub f2i)) s"
  shows "\<exists>m. fl_machines s (pc_name (Projects cfg ! j)) = Some m
    \<and> reachable (loop_init (loopcfg_of cfg dryRun immediate pub f2i (Projects cfg ! j)) st)
        (loop_step (loopcfg_of cfg dryRun immediate pub f2i (Projects cfg ! j))) (view_of m (pc_of (fl_loops s j)) s)"
proof -
  have "distinct (map lc_name (loops_of cfg dryRun immediate pub f2i))" using Load_distinct [OF assms(1)] by (simp add: loops_of_names)
  moreover have "j < length (loops_of cfg dryRun immediate pub f2i)" using assms(2) by (simp add: loops_of_def)
  ultimately obtain w where "project_view (loops_of cfg dryRun immediate pub f2i ! j) j s = Some w"
    and "reachable (loop_init (loops_of cfg dryRun immediate pub f2i ! j) st) (loop_step (loops_of cfg dryRun immediate pub f2i ! j)) w"
    using fleet_projects [OF _ loops_of_f2i _ assms(3)] by blast
  then show ?thesis
    unfolding loops_of_nth [OF assms(2)] by (auto simp: project_view_def loopcfg_of_def)
qed

end
