(* ===== verification/Lifecycle.thy ===== *)
theory Lifecycle
  imports Fleet Server Events
begin

text \<open>
  The life of the daemon process: \<^verbatim>\<open>runDaemon\<close> of \<^verbatim>\<open>cmd/delightd/main.go\<close> from the loaded configuration to the exit status, with
  the detached emits of \<^verbatim>\<open>pkg/httpapi/register.go\<close> and \<^verbatim>\<open>DrainEvents\<close>. A start-up that succeeds gives a process;
  its steps are those of the fleet of project loops, of requests that are accepted, answered and, when they
  refuse a registration, leave an event to emit, of the background tickers, and of the main goroutine: the
  signal or the failed listener, \<^verbatim>\<open>Shutdown\<close>, the drain and the deferred closes.
\<close>

section \<open>Detached emits\<close>

text \<open>
  A refused registration is answered first; its event is published by a goroutine of its own. One request therefore
  leaves the server as it changed it, and the events begun.
\<close>

definition detached ::
  "('b, 'v, 'e, 'c) reqenv \<Rightarrow> request \<Rightarrow> ('b, 'e, 'c) Server \<Rightarrow> ('b, 'e, 'c) Server \<times> NotRegistered list \<times> body reply" where
  "detached q r s =
     (case serve q r (s\<lparr>srv_events := map_option (\<lambda>pub ev. True) (srv_events s), srv_bus := []\<rparr>) of
        (t, rep) \<Rightarrow> (t\<lparr>srv_events := srv_events s, srv_bus := srv_bus s\<rparr>, srv_bus t, rep))"

definition takes :: "(NotRegistered \<Rightarrow> bool) option \<Rightarrow> NotRegistered \<Rightarrow> bool" where
  "takes pub ev = (case pub of None \<Rightarrow> False | Some publish \<Rightarrow> publish ev)"

section \<open>Start-up\<close>

text \<open>What \<^verbatim>\<open>runDaemon\<close> has deferred, by what each closes.\<close>

datatype resource = Context | BackupPublisher | EmitPublisher | RegistryDB | EnablementDB | HeartbeatConsumer | ShutdownTimer

text \<open>The deferred calls in the order they are pushed; they run in the opposite order.\<close>

definition deferred :: "bool \<Rightarrow> bool \<Rightarrow> bool \<Rightarrow> bool \<Rightarrow> bool \<Rightarrow> resource list" where
  "deferred publisher emitPub reg stateHome hb =
     [Context] @ (if publisher then [BackupPublisher] else []) @ (if emitPub then [EmitPublisher] else [])
     @ (if reg then [RegistryDB] else []) @ (if stateHome then [EnablementDB] else [])
     @ (if hb then [HeartbeatConsumer] else []) @ [ShutdownTimer]"

text \<open>
  What the surroundings answer while the daemon starts: the configuration sources, the environment, the file system of the exports
  and of the skills, the constructors of the Kafka clients, the two stores, the token file and the clock. A client that
  was built delivers what \<open>h_delivers\<close> and \<open>h_emits\<close> say.
\<close>

record ('b, 'v, 'e, 'w, 'c, 's, 'y) host =
  h_viper :: viper
  h_osenv :: osenv
  h_viperRead :: fragment_reader
  h_readDir :: "string \<Rightarrow> ReadDirError + (string \<times> bool) list"
  h_home :: string
  h_env :: "string \<Rightarrow> string option"
  h_xos :: "'s xos"
  h_iter :: "exports_map \<Rightarrow> exports_map"
  h_links :: 's
  h_skillos :: skillos
  h_clientErr :: "string option"
  h_pingErr :: "string option"
  h_schema :: string
  h_delivers :: "BackupEvent \<Rightarrow> bool"
  h_emitErr :: "string option"
  h_emits :: "NotRegistered \<Rightarrow> bool"
  h_consumeErr :: "string option"
  h_kv :: "('b, 'v) kv"
  h_codec :: "(Registration, 'v) codec"
  h_mkdir :: "string \<Rightarrow> string option"
  h_boltOpen :: "string \<Rightarrow> string + 'b"
  h_ensure :: "'b \<Rightarrow> string + 'b"
  h_enkv :: "('e, 'w) kv"
  h_enOpen :: "string \<Rightarrow> string + 'e"
  h_enEnsure :: "'e \<Rightarrow> string + 'e"
  h_tokenenv :: tokenenv
  h_readFile :: "string \<Rightarrow> bytes option"
  h_now :: time
  h_cluster :: 'c
  h_store :: store
  h_routes :: "string \<Rightarrow> 'y option"
  h_f2i :: "int \<Rightarrow> duration"

definition initPublisher :: "('b, 'v, 'e, 'w, 'c, 's, 'y) host \<Rightarrow> KafkaConfig \<Rightarrow> (BackupEvent \<Rightarrow> bool) option" where
  "initPublisher h k =
     (if length (Brokers k) > 0 then
        (case NewPublisher (Brokers k) (h_clientErr h) (h_pingErr h) (SchemaRegistryURL k) (Topic k) (h_schema h) of
           Inl e \<Rightarrow> None
         | Inr p \<Rightarrow> Some (h_delivers h))
      else None)"

definition initEmit :: "('b, 'v, 'e, 'w, 'c, 's, 'y) host \<Rightarrow> KafkaConfig \<Rightarrow> (NotRegistered \<Rightarrow> bool) option" where
  "initEmit h k =
     (if length (Brokers k) > 0 then (case h_emitErr h of Some e \<Rightarrow> None | None \<Rightarrow> Some (h_emits h)) else None)"

text \<open>The heartbeat consumer, wired only beside a registry.\<close>

definition initConsumer :: "('b, 'v, 'e, 'w, 'c, 's, 'y) host \<Rightarrow> KafkaConfig \<Rightarrow> 'b option \<Rightarrow> bool" where
  "initConsumer h k reg \<longleftrightarrow> reg \<noteq> None \<and> length (Brokers k) > 0 \<and> h_consumeErr h = None"

text \<open>The \<^verbatim>\<open>http.Server\<close> of the control port; times in nanoseconds, zero is no timeout.\<close>

record httpServer =
  hs_Addr :: string
  hs_ReadHeaderTimeout :: int
  hs_WriteTimeout :: int
  hs_IdleTimeout :: int

definition control_server :: "DelightConfig \<Rightarrow> httpServer" where
  "control_server cfg =
     \<lparr>hs_Addr = '':'' @ showInt (ResolveControlPort (DaemonCfg (System cfg))), hs_ReadHeaderTimeout = 5 * second_ns,
      hs_WriteTimeout = 0, hs_IdleTimeout = 120 * second_ns\<rparr>"

text \<open>What stays fixed while the process runs.\<close>

record ('b, 'v) wiring =
  w_cfg :: DelightConfig
  w_dryRun :: bool
  w_immediate :: bool
  w_kv :: "('b, 'v) kv"
  w_codec :: "(Registration, 'v) codec"
  w_publisher :: "(BackupEvent \<Rightarrow> bool) option"
  w_consumer :: bool
  w_engine :: Engine
  w_knownProjects :: "string list"
  w_deferred :: "resource list"
  w_http :: httpServer
  w_f2i :: "int \<Rightarrow> duration"

text \<open>Where the main goroutine is. A crash is a panic outside a handler.\<close>

datatype phase = Serving | ShuttingDown | Draining | Closing "resource list" | Exited nat | Crashed

datatype ticker = TExports | TDiscovery | TSweep

text \<open>
  The process. \<open>ps_inflight\<close> are the requests being handled, \<open>ps_pending\<close> the emits under way (the wait group \<^verbatim>\<open>emitWG\<close> counts
  them); \<open>ps_begun\<close> and \<open>ps_undelivered\<close> keep the history: every event begun, and those whose
  publication failed.
\<close>

record ('b, 'e, 'c, 's, 'y) process =
  ps_server :: "('b, 'e, 'c) Server"
  ps_store :: store
  ps_loops :: "nat \<Rightarrow> goroutine"
  ps_events :: "BackupEvent list"
  ps_metrics :: counters
  ps_ctxDone :: bool
  ps_seen :: "string set"
  ps_links :: 's
  ps_routes :: "string \<Rightarrow> 'y option"
  ps_tickers :: "ticker set"
  ps_listening :: bool
  ps_inflight :: "request list"
  ps_pending :: "NotRegistered list"
  ps_begun :: "NotRegistered list"
  ps_undelivered :: "NotRegistered list"
  ps_phase :: phase
  ps_forced :: bool
  ps_listenFailed :: bool
  ps_closed :: "resource set"

text \<open>
  \<open>Inl\<close> is the error \<^verbatim>\<open>runDaemon\<close> returns; \<open>None\<close> a skill synchronisation that does not return, which never happens.
\<close>

definition runDaemon ::
  "('b, 'v, 'e, 'w, 'c, 's, 'y) host \<Rightarrow> bool \<Rightarrow> bool \<Rightarrow> (string + ('b, 'v) wiring \<times> ('b, 'e, 'c, 's, 'y) process) option" where
  "runDaemon h dryRun immediate =
     (case Load (h_viper h) (h_osenv h) (h_viperRead h) (h_readDir h) of
        Inl err \<Rightarrow> Some (Inl (''failed to load configuration: '' @ err))
      | Inr cfg \<Rightarrow>
          (let monitorRoot = MonitorRoot (System cfg);
               exportEngine = NewEngine (h_home h) (h_env h) monitorRoot;
               knownProjects = map pc_name (Projects cfg);
               links = Sync (h_xos h) exportEngine (h_iter h) knownProjects dryRun (h_links h);
               skillAggregator = SetSelfManifest (fp_join [ConfigRoot (System cfg), ''mcp.json'']) (NewAggregator monitorRoot)
           in map_option
             (\<lambda>(aggregator, written).
                let publisher = initPublisher h (Kafka (System cfg));
                    emitPub = initEmit h (Kafka (System cfg));
                    reg = (case OpenRegistry (h_kv h) (h_mkdir h) (h_boltOpen h) (h_ensure h)
                             (fp_join [DaemonRoot (System cfg), ''registry'', ''registry.db'']) of Inl e \<Rightarrow> None | Inr b \<Rightarrow> Some b);
                    stateHome = (case en_open (h_enkv h) (h_mkdir h) (h_enOpen h) (h_enEnsure h)
                             (fp_join [DaemonRoot (System cfg), ''state'', ''enablement.db'']) of Inl e \<Rightarrow> None | Inr b \<Rightarrow> Some b);
                    controlToken = loadControlToken (h_readFile h) (controlTokenPath (h_tokenenv h));
                    hb = initConsumer h (Kafka (System cfg)) reg
                in Inr
                  (\<lparr>w_cfg = cfg, w_dryRun = dryRun, w_immediate = immediate, w_kv = h_kv h, w_codec = h_codec h, w_publisher = publisher, w_consumer = hb,
                    w_engine = exportEngine, w_knownProjects = knownProjects,
                    w_deferred = deferred (publisher \<noteq> None) (emitPub \<noteq> None) (reg \<noteq> None) (stateHome \<noteq> None) hb,
                    w_http = control_server cfg, w_f2i = h_f2i h\<rparr>,
                   \<lparr>ps_server = boot (h_kv h) (h_codec h) cfg dryRun (h_now h) aggregator reg stateHome emitPub controlToken (h_cluster h),
                    ps_store = h_store h, ps_loops = (\<lambda>i. GStart), ps_events = [], ps_metrics = (\<lambda>k. None), ps_ctxDone = False,
                    ps_seen = {}, ps_links = links, ps_routes = h_routes h,
                    ps_tickers = {TExports, TDiscovery} \<union> (if reg \<noteq> None then {TSweep} else {}), ps_listening = True,
                    ps_inflight = [], ps_pending = [], ps_begun = [], ps_undelivered = [], ps_phase = Serving,
                    ps_forced = False, ps_listenFailed = False, ps_closed = {}\<rparr>))
             (syncSkills (h_skillos h) cfg knownProjects dryRun skillAggregator)))"

section \<open>The running process\<close>

text \<open>The fleet inside the process: its machines are those of the server.\<close>

definition fleet_of :: "('b, 'e, 'c, 's, 'y) process \<Rightarrow> fleet" where
  "fleet_of s =
     \<lparr>fl_machines = srv_machines (ps_server s), fl_store = ps_store s, fl_loops = ps_loops s, fl_events = ps_events s,
      fl_metrics = ps_metrics s, fl_ctxDone = ps_ctxDone s, fl_panicked = (ps_phase s = Crashed)\<rparr>"

definition put_fleet :: "fleet \<Rightarrow> ('b, 'e, 'c, 's, 'y) process \<Rightarrow> ('b, 'e, 'c, 's, 'y) process" where
  "put_fleet f s =
     s\<lparr>ps_server := (ps_server s)\<lparr>srv_machines := fl_machines f\<rparr>, ps_store := fl_store f, ps_loops := fl_loops f,
       ps_events := fl_events f, ps_metrics := fl_metrics f, ps_phase := if fl_panicked f then Crashed else ps_phase s\<rparr>"

text \<open>
  A closed store starts no transaction; a closed publisher delivers nothing.
\<close>

definition closed_kv :: "('b, 'v) kv \<Rightarrow> ('b, 'v) kv" where
  "closed_kv K = K\<lparr>kv_begin := \<lambda>b. Some ''database not open''\<rparr>"

definition kv_now :: "('b, 'v) wiring \<Rightarrow> ('b, 'e, 'c, 's, 'y) process \<Rightarrow> ('b, 'v) kv" where
  "kv_now w s = (if RegistryDB \<in> ps_closed s then closed_kv (w_kv w) else w_kv w)"

definition loops_now :: "('b, 'v) wiring \<Rightarrow> ('b, 'e, 'c, 's, 'y) process \<Rightarrow> loopcfg list" where
  "loops_now w s =
     loops_of (w_cfg w) (w_dryRun w) (w_immediate w)
       (if BackupPublisher \<in> ps_closed s then map_option (\<lambda>pub ev. False) (w_publisher w) else w_publisher w) (w_f2i w)"

definition running :: "('b, 'e, 'c, 's, 'y) process \<Rightarrow> bool" where
  "running s \<longleftrightarrow> (case ps_phase s of Exited n \<Rightarrow> False | Crashed \<Rightarrow> False | _ \<Rightarrow> True)"

text \<open>One request answered; one emit goroutine done; one tick of the export goroutine.\<close>

definition respond :: "('b, 'v, 'e, 'c) reqenv \<Rightarrow> request \<Rightarrow> ('b, 'e, 'c, 's, 'y) process \<Rightarrow> ('b, 'e, 'c, 's, 'y) process" where
  "respond q r s =
     (case detached q r (ps_server s) of
        (t, evs, rep) \<Rightarrow>
          s\<lparr>ps_server := t, ps_inflight := remove1 r (ps_inflight s), ps_pending := ps_pending s @ evs, ps_begun := ps_begun s @ evs\<rparr>)"

definition emit_done :: "NotRegistered \<Rightarrow> ('b, 'e, 'c, 's, 'y) process \<Rightarrow> ('b, 'e, 'c, 's, 'y) process" where
  "emit_done ev s =
     (let s1 = s\<lparr>ps_pending := remove1 ev (ps_pending s)\<rparr>
      in if EmitPublisher \<notin> ps_closed s \<and> takes (srv_events (ps_server s)) ev
         then s1\<lparr>ps_server := (ps_server s)\<lparr>srv_bus := srv_bus (ps_server s) @ [ev]\<rparr>\<rparr>
         else s1\<lparr>ps_undelivered := ps_undelivered s @ [ev]\<rparr>)"

definition export_tick ::
  "('b, 'v) wiring \<Rightarrow> 's xos \<Rightarrow> (exports_map \<Rightarrow> exports_map) \<Rightarrow> skillos \<Rightarrow> ('b, 'e, 'c, 's, 'y) process \<Rightarrow> ('b, 'e, 'c, 's, 'y) process option" where
  "export_tick w X iter os s =
     map_option
       (\<lambda>(aggregator, written).
          s\<lparr>ps_links := Sync X (w_engine w) iter (w_knownProjects w) (w_dryRun w) (ps_links s),
            ps_server := (ps_server s)\<lparr>srv_skills := aggregator\<rparr>\<rparr>)
       (syncSkills os (w_cfg w) (w_knownProjects w) (w_dryRun w) (srv_skills (ps_server s)))"

text \<open>\<^verbatim>\<open>DrainEvents\<close> returns when no emit is under way.\<close>

definition DrainEvents :: "('b, 'e, 'c, 's, 'y) process \<Rightarrow> bool" where
  "DrainEvents s \<longleftrightarrow> ps_pending s = []"

text \<open>
  The steps. A signal and a cancelled context both lead to \<^verbatim>\<open>Shutdown\<close>, which stops the listener and returns when no
  request is left, or with an error after five seconds, whatever is still being handled; the handlers go on. The
  deferred calls then run one by one, and the process ends with status 0.
\<close>

inductive process_step ::
  "('b, 'v) wiring \<Rightarrow> ('b, 'e, 'c, 's, 'y) process \<Rightarrow> ('b, 'e, 'c, 's, 'y) process \<Rightarrow> bool" for w :: "('b, 'v) wiring" where
  accept: "ps_phase s = Serving \<Longrightarrow> ps_listening s \<Longrightarrow> process_step w s (s\<lparr>ps_inflight := ps_inflight s @ [r]\<rparr>)"
| answer: "running s \<Longrightarrow> r \<in> set (ps_inflight s) \<Longrightarrow> q_kv q = kv_now w s \<Longrightarrow> q_codec q = w_codec w \<Longrightarrow> q_f2i q = w_f2i w \<Longrightarrow>
    snd (q_metrics q) = ps_metrics s \<Longrightarrow> process_step w s (respond q r s)"
| emit: "running s \<Longrightarrow> ev \<in> set (ps_pending s) \<Longrightarrow> process_step w s (emit_done ev s)"
| loops: "running s \<Longrightarrow> fleet_move (loops_now w s) (fleet_of s) f \<Longrightarrow> process_step w s (put_fleet f s)"
| beat: "running s \<Longrightarrow> w_consumer w \<Longrightarrow> HeartbeatConsumer \<notin> ps_closed s \<Longrightarrow> srv_reg (ps_server s) = Some b \<Longrightarrow>
    on_heartbeat (kv_now w s) (w_codec w) clock payload (b, ps_seen s) = ((b', seen'), err) \<Longrightarrow>
    process_step w s (s\<lparr>ps_server := (ps_server s)\<lparr>srv_reg := Some b'\<rparr>, ps_seen := seen'\<rparr>)"
| sweeps: "running s \<Longrightarrow> TSweep \<in> ps_tickers s \<Longrightarrow> srv_reg (ps_server s) = Some b \<Longrightarrow>
    sweep (kv_now w s) (w_codec w) now (b, ps_seen s) = ((b', seen'), logged) \<Longrightarrow>
    process_step w s (s\<lparr>ps_server := (ps_server s)\<lparr>srv_reg := Some b'\<rparr>, ps_seen := seen'\<rparr>)"
| exports: "running s \<Longrightarrow> TExports \<in> ps_tickers s \<Longrightarrow> export_tick w X iter os s = Some t \<Longrightarrow> process_step w s t"
| discovers: "running s \<Longrightarrow> TDiscovery \<in> ps_tickers s \<Longrightarrow> discovery_tick net tos yaml (w_cfg w) (ps_routes s) = (routes, err) \<Longrightarrow>
    process_step w s (s\<lparr>ps_routes := routes\<rparr>)"
| stop_ticker: "running s \<Longrightarrow> ps_ctxDone s \<Longrightarrow> process_step w s (s\<lparr>ps_tickers := ps_tickers s - {k}\<rparr>)"
| listen_fails: "ps_phase s = Serving \<Longrightarrow> ps_listening s \<Longrightarrow>
    process_step w s (s\<lparr>ps_listening := False, ps_listenFailed := True, ps_ctxDone := True\<rparr>)"
| signal: "ps_phase s = Serving \<Longrightarrow> process_step w s (s\<lparr>ps_phase := ShuttingDown, ps_listening := False\<rparr>)"
| context_done: "ps_phase s = Serving \<Longrightarrow> ps_ctxDone s \<Longrightarrow>
    process_step w s (s\<lparr>ps_phase := ShuttingDown, ps_listening := False\<rparr>)"
| shutdown_clean: "ps_phase s = ShuttingDown \<Longrightarrow> ps_inflight s = [] \<Longrightarrow> process_step w s (s\<lparr>ps_phase := Draining\<rparr>)"
| shutdown_forced: "ps_phase s = ShuttingDown \<Longrightarrow> process_step w s (s\<lparr>ps_phase := Draining, ps_forced := True\<rparr>)"
| drained: "ps_phase s = Draining \<Longrightarrow> DrainEvents s \<Longrightarrow> process_step w s (s\<lparr>ps_phase := Closing (rev (w_deferred w))\<rparr>)"
| close_next: "ps_phase s = Closing (x # xs) \<Longrightarrow>
    process_step w s (s\<lparr>ps_phase := Closing xs, ps_closed := insert x (ps_closed s), ps_ctxDone := ps_ctxDone s \<or> x = Context\<rparr>)"
| return: "ps_phase s = Closing [] \<Longrightarrow> process_step w s (s\<lparr>ps_phase := Exited 0\<rparr>)"

inductive_cases process_stepE: "process_step w s t"

text \<open>The registry file is one that earlier processes left.\<close>

definition registry_left :: "('b, 'v, 'e, 'w, 'c, 's, 'y) host \<Rightarrow> bool" where
  "registry_left h \<longleftrightarrow>
     (\<forall>path b. OpenRegistry (h_kv h) (h_mkdir h) (h_boltOpen h) (h_ensure h) path = Inr b \<longrightarrow>
        reachable (registry_start (h_kv h)) (registry_step (h_kv h) (h_codec h)) b)"


section \<open>Facts\<close>

subsection \<open>Detached emits against immediate ones\<close>

lemma handleRegister_detached:
  "handleRegister K (env\<lparr>re_publisher := p\<rparr>) body \<lparr>rs_reg = R, rs_events = B\<rparr> =
   (case handleRegister K (env\<lparr>re_publisher := map_option (\<lambda>pub ev. True) p\<rparr>) body \<lparr>rs_reg = R, rs_events = []\<rparr> of
      (t, rep) \<Rightarrow> (\<lparr>rs_reg = rs_reg t, rs_events = B @ filter (takes p) (rs_events t)\<rparr>, rep))"
  by (cases p) (simp_all add: handleRegister_def record_registration_def new_registration_def notRegistered_def emitNotRegistered_def
      takes_def Let_def split: sum.split option.split prod.split)

abbreviation recorded :: "('b, 'e, 'c) Server \<Rightarrow> ('b, 'e, 'c) Server" where
  "recorded s \<equiv> s\<lparr>srv_events := map_option (\<lambda>pub ev. True) (srv_events s), srv_bus := []\<rparr>"

lemma handle_detached:
  "handle q h v r s =
   (case handle q h v r (recorded s) of
      (t, rep) \<Rightarrow> (t\<lparr>srv_events := srv_events s, srv_bus := srv_bus s @ filter (takes (srv_events s)) (srv_bus t)\<rparr>, rep))"
proof (cases h)
  case RRegister
  let ?env = "(q_register q)\<lparr>re_cfg := srv_cfg s, re_codec := q_codec q\<rparr>"
  show ?thesis
    using handleRegister_detached [of "q_kv q" "srv_events s" ?env "rq_body r" "srv_reg s" "srv_bus s"]
    by (simp add: RRegister handle_def Let_def split: prod.splits)
qed (simp_all add: handle_def clusterReady_def furnishing_of_def Let_def split: prod.splits)

lemma serve_detached:
  "serve q r s =
   (case serve q r (recorded s) of
      (t, rep) \<Rightarrow> (t\<lparr>srv_events := srv_events s, srv_bus := srv_bus s @ filter (takes (srv_events s)) (srv_bus t)\<rparr>, rep))"
proof (cases "dispatch_in (mx_table (Mux (mcpEnabled (srv_cfg s)) [])) r")
  case (Found g h v)
  then show ?thesis
    using handle_detached [of q h v r s]
    by (auto simp: serve_def serve_mux_def requireBearer_def Let_def split: prod.splits)
qed (simp_all add: serve_def serve_mux_def writeError_def)

lemma detached_serve:
  "detached q r s = (t, evs, rep) \<Longrightarrow> serve q r s = (t\<lparr>srv_bus := srv_bus s @ filter (takes (srv_events s)) evs\<rparr>, rep)"
  unfolding serve_detached [of q r s] by (auto simp: detached_def split: prod.splits)

lemma detached_bus: "detached q r s = (t, evs, rep) \<Longrightarrow> srv_bus t = srv_bus s"
  by (auto simp: detached_def split: prod.splits)

subsection \<open>The server through the life of the process\<close>

lemma closed_kv_fields [simp]:
  "kv_get (closed_kv K) = kv_get K" "kv_put (closed_kv K) = kv_put K" "kv_delete (closed_kv K) = kv_delete K"
  "kv_entries (closed_kv K) = kv_entries K" "kv_fits (closed_kv K) = kv_fits K"
  by (simp_all add: closed_kv_def)

lemma registry_store_closed: "registry_store K C \<Longrightarrow> registry_store (closed_kv K) C"
  by (simp add: registry_store_def bolt_def)

lemma live_closed [simp]: "live (closed_kv K) C = live K C"
  by (simp add: live_def fun_eq_iff)

lemma server_ok_closed: "server_ok (closed_kv K) C s \<longleftrightarrow> server_ok K C s"
  by (simp add: server_ok_def registry_ok_def)

lemma registry_store_now: "registry_store (w_kv w) C \<Longrightarrow> registry_store (kv_now w s) C"
  by (simp add: kv_now_def registry_store_closed)

lemma server_ok_now: "server_ok (kv_now w s) C u \<longleftrightarrow> server_ok (w_kv w) C u"
  by (simp add: kv_now_def server_ok_closed)

lemma server_ok_bus [simp]: "server_ok K C (s\<lparr>srv_bus := b\<rparr>) \<longleftrightarrow> server_ok K C s"
  by (simp add: server_ok_def)

lemma detached_ok:
  assumes "registry_store K C" and "server_ok K C s" and "q_kv q = K" and "q_codec q = C" and "detached q r s = (t, evs, rep)"
  shows "server_ok K C t"
proof -
  have "server_ok K C (fst (serve q r s))"
    by (rule step_ok_server [OF assms(1,2)]) (rule step_request [OF assms(3,4)])
  then show ?thesis by (simp add: detached_serve [OF assms(5)])
qed

lemma loop_move_machine:
  assumes "loop_move c s t" and "machine_ok (ls_machine s)"
  shows "machine_ok (ls_machine t) \<and> ProjectName (ls_machine t) = ProjectName (ls_machine s)"
  using assms
  by (cases rule: loop_move.cases)
    (auto simp: poll_tick_def polled_tick_def advance_tick_def eval_tick_def count_tick_def publish_tick_def finish_tick_def
      retry_check_def can_retry_check_def retry_tick_def Transition_ok advance_from_ok split: sum.splits prod.splits)

text \<open>Machines that are consistent and named by their key.\<close>

definition machines_ok :: "(string \<Rightarrow> Machine option) \<Rightarrow> bool" where
  "machines_ok ms \<longleftrightarrow> (\<forall>p m. ms p = Some m \<longrightarrow> machine_ok m \<and> ProjectName m = p)"

lemma machines_ok_upd:
  "machines_ok ms \<Longrightarrow> ms p = Some m \<Longrightarrow> machine_ok m' \<Longrightarrow> ProjectName m' = ProjectName m \<Longrightarrow>
     machines_ok (ms(p \<mapsto> m')) \<and> dom (ms(p \<mapsto> m')) = dom ms"
  by (auto simp: machines_ok_def)

lemma fleet_move_machines:
  assumes "fleet_move loops f f'" and "machines_ok (fl_machines f)"
  shows "machines_ok (fl_machines f') \<and> dom (fl_machines f') = dom (fl_machines f)"
  using assms(1)
proof cases
  case (start_loop i m parse churn rd v interval)
  have m: "machine_ok m" using assms(2) start_loop(4) by (simp add: machines_ok_def)
  have "machine_ok (ls_machine v) \<and> ProjectName (ls_machine v) = ProjectName m"
    using loop_start_shape [OF start_loop(5)] m by (auto simp: view_of_def Transition_ok)
  then show ?thesis using machines_ok_upd [OF assms(2) start_loop(4), of "ls_machine v"] by (simp add: start_loop(1) put_view_def)
next
  case (move_loop i pc m v)
  have m: "machine_ok m" using assms(2) move_loop(4) by (simp add: machines_ok_def)
  have "machine_ok (ls_machine v) \<and> ProjectName (ls_machine v) = ProjectName m"
    using loop_move_machine [OF move_loop(5)] m by (simp add: view_of_def)
  then show ?thesis using machines_ok_upd [OF assms(2) move_loop(4), of "ls_machine v"] by (simp add: move_loop(1) put_view_def)
qed (use assms(2) in simp_all)

lemma server_ok_machines:
  "server_ok K C s \<Longrightarrow> machines_ok ms \<Longrightarrow> dom ms = dom (srv_machines s) \<Longrightarrow> server_ok K C (s\<lparr>srv_machines := ms\<rparr>)"
  by (simp add: server_ok_def machines_ok_def)

lemma syncSkills_token: "syncSkills os cfg known dry a = Some (a', written) \<Longrightarrow> ag_controlToken a' = ag_controlToken a"
  by (auto simp: syncSkills_def Let_def split: if_splits)

lemma process_step_server:
  assumes "registry_store (w_kv w) (w_codec w)" and "server_ok (w_kv w) (w_codec w) (ps_server s)" and "process_step w s t"
  shows "server_ok (w_kv w) (w_codec w) (ps_server t)"
proof -
  note store = registry_store_now [OF assms(1), of s]
  have ok: "server_ok (kv_now w s) (w_codec w) (ps_server s)" using assms(2) by (simp add: server_ok_now)
  show ?thesis
    using assms(3)
  proof cases
    case (answer r q)
    obtain u evs rep where d: "detached q r (ps_server s) = (u, evs, rep)" by (metis prod.exhaust)
    show ?thesis
      using detached_ok [OF store ok answer(4,5) d] by (simp add: answer(1) respond_def d server_ok_now)
  next
    case (emit ev)
    then show ?thesis using assms(2) by (simp add: emit_done_def Let_def)
  next
    case (loops f)
    have "machines_ok (fl_machines (fleet_of s))" using assms(2) by (simp add: fleet_of_def server_ok_def machines_ok_def)
    from fleet_move_machines [OF loops(3) this] show ?thesis
      using server_ok_machines [OF assms(2), of "fl_machines f"] by (simp add: loops(1) put_fleet_def fleet_of_def)
  next
    case (beat b clock payload b' seen' err)
    then show ?thesis
      using step_ok_server [OF store ok step_heartbeat [OF beat(5,6)]] by (simp add: server_ok_now)
  next
    case (sweeps b now b' seen' logged)
    then show ?thesis
      using step_ok_server [OF store ok step_sweep [OF sweeps(4,5)]] by (simp add: server_ok_now)
  next
    case (exports X iter os)
    then obtain a written where "syncSkills os (w_cfg w) (w_knownProjects w) (w_dryRun w) (srv_skills (ps_server s)) = Some (a, written)"
      and t: "ps_server t = (ps_server s)\<lparr>srv_skills := a\<rparr>"
      by (auto simp: export_tick_def)
    from syncSkills_token [OF this(1)] show ?thesis using assms(2) by (simp add: t server_ok_def)
  qed (use assms(2) in simp_all)
qed

subsection \<open>Emits and phases\<close>

text \<open>Every event begun is on the bus, failed, or still under way.\<close>

definition ledger_ok :: "('b, 'e, 'c, 's, 'y) process \<Rightarrow> bool" where
  "ledger_ok s \<longleftrightarrow> mset (ps_begun s) = mset (srv_bus (ps_server s)) + mset (ps_undelivered s) + mset (ps_pending s)"

text \<open>
  What each phase of the main goroutine guarantees: nothing is closed before the drain; what was closed is what the deferred list
  lost; without a forced shutdown no request outlives it and no emit the drain.
\<close>

definition phase_ok :: "('b, 'v) wiring \<Rightarrow> ('b, 'e, 'c, 's, 'y) process \<Rightarrow> bool" where
  "phase_ok w s \<longleftrightarrow>
     (case ps_phase s of
        Serving \<Rightarrow> \<not> ps_forced s \<and> ps_closed s = {}
      | ShuttingDown \<Rightarrow> \<not> ps_forced s \<and> ps_closed s = {}
      | Draining \<Rightarrow> ps_closed s = {} \<and> (ps_forced s \<or> ps_inflight s = [])
      | Closing xs \<Rightarrow> (\<exists>gone. rev (w_deferred w) = gone @ xs \<and> ps_closed s = set gone) \<and> (ps_forced s \<or> ps_inflight s = [] \<and> ps_pending s = [])
      | Exited n \<Rightarrow> n = 0 \<and> ps_closed s = set (w_deferred w) \<and> (ps_forced s \<or> ps_inflight s = [] \<and> ps_pending s = [])
      | Crashed \<Rightarrow> True)"

definition context_ok :: "('b, 'e, 'c, 's, 'y) process \<Rightarrow> bool" where
  "context_ok s \<longleftrightarrow> (ps_ctxDone s \<longrightarrow> ps_listenFailed s \<or> Context \<in> ps_closed s)"

definition life_ok :: "('b, 'v) wiring \<Rightarrow> ('b, 'e, 'c, 's, 'y) process \<Rightarrow> bool" where
  "life_ok w s \<longleftrightarrow> server_ok (w_kv w) (w_codec w) (ps_server s) \<and> ledger_ok s \<and> phase_ok w s \<and> context_ok s"

lemma respond_fields:
  obtains t evs rep where "detached q r (ps_server s) = (t, evs, rep)" and
    "respond q r s = s\<lparr>ps_server := t, ps_inflight := remove1 r (ps_inflight s), ps_pending := ps_pending s @ evs, ps_begun := ps_begun s @ evs\<rparr>"
  by (cases "detached q r (ps_server s)") (simp add: respond_def)

lemma process_step_ledger:
  assumes "ledger_ok s" and "process_step w s t"
  shows "ledger_ok t"
  using assms(2)
proof cases
  case (answer r q)
  obtain u evs rep where d: "detached q r (ps_server s) = (u, evs, rep)"
    and "respond q r s = s\<lparr>ps_server := u, ps_inflight := remove1 r (ps_inflight s), ps_pending := ps_pending s @ evs, ps_begun := ps_begun s @ evs\<rparr>"
    by (rule respond_fields)
  then show ?thesis using assms(1) detached_bus [OF d] by (simp add: answer(1) ledger_ok_def ac_simps)
next
  case (emit ev)
  then show ?thesis using assms(1) by (simp add: emit_done_def Let_def ledger_ok_def)
next
  case (exports X iter os)
  then show ?thesis using assms(1) by (auto simp: export_tick_def ledger_ok_def)
qed (use assms(1) in \<open>simp_all add: ledger_ok_def put_fleet_def\<close>)

lemma emit_done_fields [simp]:
  "ps_phase (emit_done ev s) = ps_phase s" "ps_forced (emit_done ev s) = ps_forced s" "ps_closed (emit_done ev s) = ps_closed s"
  "ps_inflight (emit_done ev s) = ps_inflight s" "ps_pending (emit_done ev s) = remove1 ev (ps_pending s)"
  "ps_ctxDone (emit_done ev s) = ps_ctxDone s" "ps_listenFailed (emit_done ev s) = ps_listenFailed s"
  by (simp_all add: emit_done_def Let_def)

lemma phase_ok_frame:
  "phase_ok w s \<Longrightarrow> ps_phase t = ps_phase s \<Longrightarrow> ps_forced t = ps_forced s \<Longrightarrow> ps_closed t = ps_closed s \<Longrightarrow>
   (ps_inflight s = [] \<Longrightarrow> ps_inflight t = []) \<Longrightarrow> (ps_pending s = [] \<Longrightarrow> ps_pending t = []) \<Longrightarrow> phase_ok w t"
  by (auto simp: phase_ok_def split: phase.splits)

lemma process_step_phase:
  assumes "phase_ok w s" and "process_step w s t"
  shows "phase_ok w t"
  using assms(2)
proof cases
  case (accept r)
  then show ?thesis using assms(1) by (simp add: phase_ok_def)
next
  case (answer r q)
  obtain u evs rep where "respond q r s = s\<lparr>ps_server := u, ps_inflight := remove1 r (ps_inflight s),
      ps_pending := ps_pending s @ evs, ps_begun := ps_begun s @ evs\<rparr>"
    by (rule respond_fields)
  then show ?thesis using assms(1) answer by (auto simp: phase_ok_def split: phase.splits)
next
  case (emit ev)
  then show ?thesis using assms(1) by (auto intro: phase_ok_frame)
next
  case (loops f)
  show ?thesis
  proof (cases "fl_panicked f")
    case False
    then show ?thesis by (intro phase_ok_frame [OF assms(1)]) (simp_all add: loops(1) put_fleet_def)
  qed (simp add: loops(1) put_fleet_def phase_ok_def)
next
  case (exports X iter os)
  then show ?thesis using assms(1) by (auto simp: export_tick_def intro: phase_ok_frame)
next
  case drained
  then show ?thesis using assms(1) by (auto simp: phase_ok_def DrainEvents_def)
next
  case (close_next x xs)
  from assms(1) close_next(2) obtain gone where "rev (w_deferred w) = gone @ x # xs" "ps_closed s = set gone"
    and rest: "ps_forced s \<or> ps_inflight s = [] \<and> ps_pending s = []"
    by (auto simp: phase_ok_def)
  then have "rev (w_deferred w) = (gone @ [x]) @ xs \<and> insert x (ps_closed s) = set (gone @ [x])" by simp
  then show ?thesis using rest unfolding close_next(1) phase_ok_def by (auto simp del: append_assoc)
next
  case return
  with assms(1) have "ps_closed s = set (rev (w_deferred w))" by (auto simp: phase_ok_def)
  then show ?thesis using assms(1) return by (simp add: phase_ok_def)
qed (use assms(1) in \<open>auto simp: phase_ok_def split: phase.splits\<close>)

lemma process_step_context:
  assumes "context_ok s" and "process_step w s t"
  shows "context_ok t"
  using assms(2)
proof cases
  case (answer r q)
  obtain u evs rep where "respond q r s = s\<lparr>ps_server := u, ps_inflight := remove1 r (ps_inflight s),
      ps_pending := ps_pending s @ evs, ps_begun := ps_begun s @ evs\<rparr>"
    by (rule respond_fields)
  then show ?thesis using assms(1) answer by (simp add: context_ok_def)
next
  case (exports X iter os)
  then show ?thesis using assms(1) by (auto simp: export_tick_def context_ok_def)
qed (use assms(1) in \<open>auto simp: context_ok_def put_fleet_def\<close>)

lemma life_step_ok:
  "registry_store (w_kv w) (w_codec w) \<Longrightarrow> life_ok w s \<Longrightarrow> process_step w s t \<Longrightarrow> life_ok w t"
  unfolding life_ok_def using process_step_server process_step_ledger process_step_phase process_step_context by blast

subsection \<open>Start-up\<close>

lemma runDaemon_started:
  assumes "runDaemon h dryRun immediate = Some (Inr (w, p))"
  obtains aggregator reg stateHome controlToken where
    "Load (h_viper h) (h_osenv h) (h_viperRead h) (h_readDir h) = Inr (w_cfg w)"
    "w_dryRun w = dryRun" "w_immediate w = immediate" "w_kv w = h_kv h" "w_codec w = h_codec h" "w_publisher w = initPublisher h (Kafka (System (w_cfg w)))"
    "w_f2i w = h_f2i h" "\<forall>b. reg = Some b \<longrightarrow> (\<exists>path. OpenRegistry (h_kv h) (h_mkdir h) (h_boltOpen h) (h_ensure h) path = Inr b)"
    "ps_server p = boot (h_kv h) (h_codec h) (w_cfg w) dryRun (h_now h) aggregator reg stateHome (initEmit h (Kafka (System (w_cfg w)))) controlToken (h_cluster h)"
    "w_deferred w = deferred (w_publisher w \<noteq> None) (initEmit h (Kafka (System (w_cfg w))) \<noteq> None) (reg \<noteq> None) (stateHome \<noteq> None) (w_consumer w)"
    "ps_store p = h_store h" "ps_loops p = (\<lambda>i. GStart)" "ps_events p = []" "ps_metrics p = (\<lambda>k. None)" "\<not> ps_ctxDone p"
    "ps_inflight p = []" "ps_pending p = []" "ps_begun p = []" "ps_undelivered p = []" "ps_phase p = Serving" "\<not> ps_forced p"
    "\<not> ps_listenFailed p" "ps_closed p = {}" "ps_listening p"
proof (cases "Load (h_viper h) (h_osenv h) (h_viperRead h) (h_readDir h)")
  case (Inl e)
  then show ?thesis using assms by (simp add: runDaemon_def)
next
  case (Inr cfg)
  note D = assms [unfolded runDaemon_def Inr sum.case Let_def, simplified]
  show ?thesis
    using D by clarify (rule that; simp add: Inr split: sum.splits; blast)
qed

lemma boot_bus [simp]: "srv_bus (boot K C cfg dry now a opened st ev tok c) = []"
  by (simp add: boot_def NewServer_def UseEnablement_def UseEvents_def UseFurnish_def UseControlBearer_def Let_def split: option.split)

lemma started_life_ok:
  assumes "runDaemon h dryRun immediate = Some (Inr (w, p))" and "registry_store (w_kv w) (w_codec w)" and "registry_left h"
  shows "life_ok w p"
  using assms(1)
proof (rule runDaemon_started)
  fix aggregator reg stateHome controlToken
  assume *: "w_kv w = h_kv h" "w_codec w = h_codec h"
    "\<forall>b. reg = Some b \<longrightarrow> (\<exists>path. OpenRegistry (h_kv h) (h_mkdir h) (h_boltOpen h) (h_ensure h) path = Inr b)"
    and server: "ps_server p = boot (h_kv h) (h_codec h) (w_cfg w) dryRun (h_now h) aggregator reg stateHome (initEmit h (Kafka (System (w_cfg w)))) controlToken (h_cluster h)"
    and rest: "\<not> ps_ctxDone p" "ps_pending p = []" "ps_begun p = []" "ps_undelivered p = []" "ps_phase p = Serving" "\<not> ps_forced p" "ps_closed p = {}"
  have "\<forall>b. reg = Some b \<longrightarrow> reachable (registry_start (h_kv h)) (registry_step (h_kv h) (h_codec h)) b"
    using *(3) assms(3) by (auto simp: registry_left_def)
  then have "server_start (w_kv w) (w_codec w) (ps_server p)"
    unfolding server_start_def server *(1,2) by blast
  with boot_ok [OF assms(2)] show ?thesis
    using rest by (simp add: life_ok_def ledger_ok_def phase_ok_def context_ok_def server)
qed

lemma process_life_ok:
  assumes "runDaemon h dryRun immediate = Some (Inr (w, p))" and "registry_store (w_kv w) (w_codec w)" and "registry_left h"
    and "reachable ((=) p) (process_step w) s"
  shows "life_ok w s"
proof -
  have "invariant_system ((=) p) (process_step w) (life_ok w)"
    by (rule invariant_system.intro) (use started_life_ok [OF assms(1-3)] life_step_ok [OF assms(2)] in blast)+
  then show ?thesis using assms(4) by (rule invariant_system.reachable_inv)
qed

subsection \<open>The fleet inside the process\<close>

lemma serve_machines:
  "srv_machines (fst (serve q r s)) = srv_machines s
   \<or> (\<exists>v m e. srv_machines s v = Some m \<and> (e = EventTriggerBackup \<or> e = EventClearError)
        \<and> srv_machines (fst (serve q r s)) = (srv_machines s)(v \<mapsto> fst (Transition (q_f2i q) (q_reading q) e m)))"
proof (cases rule: serve_cases [of q r s])
  case (handled h v)
  show ?thesis
  proof (cases h)
    case RBackup
    obtain ms' rep where b: "handleBackup (q_f2i q) (q_reading q) v (srv_machines s) = (ms', rep)" by fastforce
    show ?thesis using machine_handlers(1) [OF b] by (auto simp: handled(1) RBackup handle_def b)
  next
    case RReset
    obtain ms' rep where b: "handleReset (q_f2i q) (q_reading q) v (srv_machines s) = (ms', rep)" by fastforce
    show ?thesis using machine_handlers(2) [OF b] by (auto simp: handled(1) RReset handle_def b)
  qed (simp_all add: handled(1) handle_def Let_def split: prod.split)
qed simp

lemma detached_machines: "detached q r s = (t, evs, rep) \<Longrightarrow> srv_machines t = srv_machines (fst (serve q r s))"
  by (simp add: detached_serve)

lemma fleet_move_ctx: "fleet_move loops f f' \<Longrightarrow> fl_ctxDone f' = fl_ctxDone f"
  by (auto simp: put_view_def elim: fleet_moveE)

lemma fleet_of_put: "\<not> ps_phase s = Crashed \<Longrightarrow> fl_ctxDone f = ps_ctxDone s \<Longrightarrow> fleet_of (put_fleet f s) = f"
  by (simp add: fleet_of_def put_fleet_def)

lemma fleet_of_cong:
  "srv_machines (ps_server t) = srv_machines (ps_server s) \<Longrightarrow> ps_store t = ps_store s \<Longrightarrow> ps_loops t = ps_loops s \<Longrightarrow>
   ps_events t = ps_events s \<Longrightarrow> ps_metrics t = ps_metrics s \<Longrightarrow> ps_ctxDone t = ps_ctxDone s \<Longrightarrow>
   (ps_phase t = Crashed \<longleftrightarrow> ps_phase s = Crashed) \<Longrightarrow> fleet_of t = fleet_of s"
  by (simp add: fleet_of_def)

lemma running_phase: "running s \<Longrightarrow> ps_phase s \<noteq> Crashed"
  by (auto simp: running_def)

lemma process_step_fleet:
  assumes "process_step w s t" and "BackupPublisher \<notin> ps_closed t"
  shows "BackupPublisher \<notin> ps_closed s
    \<and> (fleet_of t = fleet_of s \<or> fleet_step (w_f2i w) (loops_of (w_cfg w) (w_dryRun w) (w_immediate w) (w_publisher w) (w_f2i w)) (fleet_of s) (fleet_of t))"
  using assms(1)
proof cases
  case (answer r q)
  obtain u evs rep where d: "detached q r (ps_server s) = (u, evs, rep)"
    and t: "respond q r s = s\<lparr>ps_server := u, ps_inflight := remove1 r (ps_inflight s),
      ps_pending := ps_pending s @ evs, ps_begun := ps_begun s @ evs\<rparr>"
    by (rule respond_fields)
  let ?f = "fleet_of s" and ?ms = "srv_machines u"
  have ft: "fleet_of t = ?f\<lparr>fl_machines := ?ms\<rparr>" by (simp add: answer(1) t fleet_of_def)
  have "\<not> fl_panicked ?f" using running_phase [OF answer(2)] by (simp add: fleet_of_def)
  moreover have "?ms = fl_machines ?f \<or> (\<exists>v m e. fl_machines ?f v = Some m \<and> (e = EventTriggerBackup \<or> e = EventClearError)
        \<and> ?ms = (fl_machines ?f)(v \<mapsto> fst (Transition (w_f2i w) (q_reading q) e m)))"
    using serve_machines [of q r "ps_server s"] answer(6) by (simp add: detached_machines [OF d] fleet_of_def)
  ultimately have "?f\<lparr>fl_machines := ?ms\<rparr> = ?f
      \<or> fleet_step (w_f2i w) (loops_of (w_cfg w) (w_dryRun w) (w_immediate w) (w_publisher w) (w_f2i w)) ?f (?f\<lparr>fl_machines := ?ms\<rparr>)"
    by (auto intro: request)
  then show ?thesis using assms(2) unfolding ft by (simp add: answer(1) t)
next
  case (loops f)
  have "fleet_of t = f"
    using running_phase [OF loops(2)] fleet_move_ctx [OF loops(3)] by (simp add: loops(1) fleet_of_put fleet_of_def [of s])
  moreover have "loops_now w s = loops_of (w_cfg w) (w_dryRun w) (w_immediate w) (w_publisher w) (w_f2i w)"
    using assms(2) by (simp add: loops(1) loops_now_def put_fleet_def)
  moreover have "\<not> fl_panicked (fleet_of s)" using running_phase [OF loops(2)] by (simp add: fleet_of_def)
  ultimately show ?thesis
    using loops assms(2) by (auto simp: put_fleet_def intro: fleet_moves)
next
  case listen_fails
  then have "fleet_of t = (fleet_of s)\<lparr>fl_ctxDone := True\<rparr>" "\<not> fl_panicked (fleet_of s)" by (simp_all add: fleet_of_def)
  then show ?thesis using assms(2) listen_fails(1) by (auto intro: cancel)
next
  case (close_next x xs)
  then have "fleet_of t = (fleet_of s)\<lparr>fl_ctxDone := True\<rparr> \<or> fleet_of t = fleet_of s" "\<not> fl_panicked (fleet_of s)"
    by (auto simp: fleet_of_def)
  then show ?thesis using assms(2) close_next(1) cancel [of "fleet_of s"] by auto
next
  case (exports X iter os)
  then show ?thesis using assms(2) by (auto simp: export_tick_def fleet_of_def)
next
  case (emit ev)
  have "fleet_of t = fleet_of s" by (simp add: emit(1) emit_done_def fleet_of_def Let_def)
  then show ?thesis using assms(2) emit(1) by simp
qed (use assms(2) in \<open>auto simp: fleet_of_def\<close>)

lemma started_fleet:
  assumes "runDaemon h dryRun immediate = Some (Inr (w, p))"
  shows "fleet_init (loops_of (w_cfg w) (w_dryRun w) (w_immediate w) (w_publisher w) (w_f2i w)) (ps_store p) (fleet_of p)"
  using assms
proof (rule runDaemon_started)
  fix aggregator reg stateHome controlToken
  assume server: "ps_server p = boot (h_kv h) (h_codec h) (w_cfg w) dryRun (h_now h) aggregator reg stateHome (initEmit h (Kafka (System (w_cfg w)))) controlToken (h_cluster h)"
    and rest: "ps_loops p = (\<lambda>i. GStart)" "ps_events p = []" "ps_metrics p = (\<lambda>k. None)" "\<not> ps_ctxDone p" "ps_phase p = Serving"
  have "\<exists>now. new_machines (Projects (w_cfg w)) (h_now h) (pc_name c) = Some (NewMachine (pc_name c) now)"
    if "c \<in> set (Projects (w_cfg w))" for c
    using new_machines_spec [of "Projects (w_cfg w)" "h_now h"] that by (metis domD image_eqI)
  then show ?thesis
    using rest by (auto simp: fleet_init_def fleet_of_def server boot_fields loops_of_def loopcfg_of_def)
qed

lemma process_fleet:
  assumes "runDaemon h dryRun immediate = Some (Inr (w, p))" and "reachable ((=) p) (process_step w) s" and "BackupPublisher \<notin> ps_closed s"
  shows "reachable (fleet_init (loops_of (w_cfg w) (w_dryRun w) (w_immediate w) (w_publisher w) (w_f2i w)) (ps_store p))
    (fleet_step (w_f2i w) (loops_of (w_cfg w) (w_dryRun w) (w_immediate w) (w_publisher w) (w_f2i w))) (fleet_of s)"
  using assms(2,3)
proof induction
  case (reach_start s)
  then show ?case using started_fleet [OF assms(1)] by (auto intro: reachable.reach_start)
next
  case (reach_step s t)
  from process_step_fleet [OF reach_step(2) reach_step(4)] reach_step(3) show ?case
    by (auto intro: reachable.reach_step)
qed

section \<open>Properties\<close>

text \<open>
  C2: Through the whole life of the process, each project lives in a loop of its own: from the configuration that was loaded, whatever requests,
  heartbeats, ticks, loops of other projects, listener failures and shutdowns interleave, what a project sees of the
  daemon (its machine, its goroutine, and the backup directory, the bus and the counters it shares) is
  a reachable state of the single loop, as long as the publisher of backup events is open. All that holds of the single loop holds of each
  project of the running daemon.
\<close>

theorem process_refines_each_loop:
  assumes "runDaemon h dryRun immediate = Some (Inr (w, p))" and "reachable ((=) p) (process_step w) s" and "BackupPublisher \<notin> ps_closed s"
    and "j < length (Projects (w_cfg w))"
  shows "\<exists>m. srv_machines (ps_server s) (pc_name (Projects (w_cfg w) ! j)) = Some m
    \<and> reachable (loop_init (loopcfg_of (w_cfg w) dryRun immediate (w_publisher w) (w_f2i w) (Projects (w_cfg w) ! j)) (ps_store p))
        (loop_step (loopcfg_of (w_cfg w) dryRun immediate (w_publisher w) (w_f2i w) (Projects (w_cfg w) ! j)))
        \<lparr>ls_machine = m, ls_store = ps_store s, ls_pc = pc_of (ps_loops s j), ls_events = ps_events s, ls_metrics = ps_metrics s\<rparr>"
  using assms(1)
proof (rule runDaemon_started)
  assume L: "Load (h_viper h) (h_osenv h) (h_viperRead h) (h_readDir h) = Inr (w_cfg w)" and dry: "w_dryRun w = dryRun" "w_immediate w = immediate"
  from fleet_projection [OF L assms(4) process_fleet [OF assms(1-3)]] show ?thesis
    by (simp add: dry fleet_of_def view_of_def)
qed

text \<open>
  C1: The daemon's own promises hold from start-up to exit, through shutdown and closed stores: one consistent machine per project, no
  endpoint with two holders, the MCP token the one the gate asks for; and every refused registration whose event was begun is
  on the bus, was refused by the publisher, or is still being emitted: none disappears.
\<close>

theorem process_invariant:
  assumes "runDaemon h dryRun immediate = Some (Inr (w, p))" and "registry_store (w_kv w) (w_codec w)" and "registry_left h"
    and "reachable ((=) p) (process_step w) s"
  shows "dom (srv_machines (ps_server s)) = pc_name ` set (Projects (srv_cfg (ps_server s)))
    \<and> (\<forall>n m. srv_machines (ps_server s) n = Some m \<longrightarrow> ProjectName m = n \<and> 0 \<le> ErrorCount m
         \<and> (CurrentState m \<in> {StateFallow, StateMonitoring} \<longrightarrow> ErrorCount m = 0 \<and> NextRetryAt m = zero_time)
         \<and> (CurrentState m = StateError \<longrightarrow> 1 \<le> ErrorCount m))
    \<and> (\<forall>b k k' r r'. srv_reg (ps_server s) = Some b \<longrightarrow> live (w_kv w) (w_codec w) b k = Some r \<longrightarrow> live (w_kv w) (w_codec w) b k' = Some r' \<longrightarrow>
         rg_project r = k \<and> (reg_address r = reg_address r' \<and> reg_address r \<noteq> [] \<longrightarrow> k = k'))
    \<and> ag_controlToken (srv_skills (ps_server s)) = srv_controlToken (ps_server s)
    \<and> mset (ps_begun s) = mset (srv_bus (ps_server s)) + mset (ps_undelivered s) + mset (ps_pending s)"
proof -
  have ok: "server_ok (w_kv w) (w_codec w) (ps_server s)" and "ledger_ok s"
    using process_life_ok [OF assms] by (simp_all add: life_ok_def)
  moreover have "rg_project r = k \<and> (reg_address r = reg_address r' \<and> reg_address r \<noteq> [] \<longrightarrow> k = k')"
    if "srv_reg (ps_server s) = Some b" "live (w_kv w) (w_codec w) b k = Some r" "live (w_kv w) (w_codec w) b k' = Some r'" for b k k' r r'
    using ok that exclusiveD unfolding server_ok_def registry_ok_def keyed_def by blast
  ultimately show ?thesis by (auto simp: server_ok_def machine_ok_def ledger_ok_def)
qed

lemma process_step_registry:
  assumes "process_step w s t"
  shows "srv_reg (ps_server t) = srv_reg (ps_server s)
    \<or> (\<exists>b b'. srv_reg (ps_server s) = Some b \<and> srv_reg (ps_server t) = Some b' \<and> registry_step (kv_now w s) (w_codec w) b b')"
  using assms
proof cases
  case (answer r q)
  obtain u evs rep where d: "detached q r (ps_server s) = (u, evs, rep)"
    and "respond q r s = s\<lparr>ps_server := u, ps_inflight := remove1 r (ps_inflight s),
      ps_pending := ps_pending s @ evs, ps_begun := ps_begun s @ evs\<rparr>"
    by (rule respond_fields)
  then show ?thesis
    using serve_reg [of q r "ps_server s"] answer(1,4,5) by (simp add: detached_serve [OF d])
next
  case (beat b clock payload b' seen' err)
  then show ?thesis using heartbeat_steps [OF beat(6)] by auto
next
  case (sweeps b now b' seen' logged)
  then show ?thesis using sweep_steps [OF sweeps(5)] by auto
next
  case (exports X iter os)
  then show ?thesis by (auto simp: export_tick_def)
qed (simp_all add: put_fleet_def emit_done_def Let_def)


text \<open>
  C8: A shutdown that was not forced loses nothing: when the process has ended, every request that was accepted has been answered, no
  emit is under way, every event begun is on the bus or was refused by the publisher, and all that was opened has been closed. The
  exit status is 0.
\<close>

theorem clean_shutdown_loses_nothing:
  assumes "runDaemon h dryRun immediate = Some (Inr (w, p))" and "registry_store (w_kv w) (w_codec w)" and "registry_left h"
    and "reachable ((=) p) (process_step w) s" and "ps_phase s = Exited n" and "\<not> ps_forced s"
  shows "n = 0 \<and> ps_inflight s = [] \<and> ps_pending s = [] \<and> ps_closed s = set (w_deferred w)
    \<and> mset (ps_begun s) = mset (srv_bus (ps_server s)) + mset (ps_undelivered s)"
  using process_life_ok [OF assms(1-4)] assms(5,6) by (simp add: life_ok_def phase_ok_def ledger_ok_def)

lemma context_closed_last:
  assumes "rev (deferred a b c d e) = gone @ xs" and "Context \<in> set gone"
  shows "set gone = set (deferred a b c d e)"
proof (cases xs rule: rev_cases)
  case Nil
  then show ?thesis using arg_cong [OF assms(1), of set] by simp
next
  case (snoc ys y)
  have "distinct (rev (deferred a b c d e))" "last (rev (deferred a b c d e)) = Context"
    by (simp_all add: deferred_def)
  then show ?thesis using assms snoc by auto
qed

text \<open>
  On a signal nobody is told before everything is closed: unless the listener failed, the context is cancelled only when every store, publisher
  and consumer that \<^verbatim>\<open>runDaemon\<close> opened is closed; until then the project loops, the sweep and the ticks go on, with closed stores under them.
\<close>

theorem context_cancelled_last:
  assumes "runDaemon h dryRun immediate = Some (Inr (w, p))" and "registry_store (w_kv w) (w_codec w)" and "registry_left h"
    and "reachable ((=) p) (process_step w) s" and "ps_ctxDone s" and "\<not> ps_listenFailed s" and "ps_phase s \<noteq> Crashed"
  shows "ps_closed s = set (w_deferred w)"
proof -
  obtain a b c d e where def: "w_deferred w = deferred a b c d e" using assms(1) by (rule runDaemon_started)
  have "life_ok w s" using process_life_ok [OF assms(1-4)] .
  then have cl: "Context \<in> ps_closed s" and ph: "phase_ok w s" using assms(5,6) by (simp_all add: life_ok_def context_ok_def)
  show ?thesis
  proof (cases "ps_phase s")
    case (Closing xs)
    then obtain gone where "rev (w_deferred w) = gone @ xs" "ps_closed s = set gone" using ph by (auto simp: phase_ok_def)
    then show ?thesis using cl context_closed_last [of a b c d e] by (simp add: def)
  qed (use ph cl assms(7) in \<open>simp_all add: phase_ok_def\<close>)
qed

lemma expose_loop_returns: "\<exists>written. expose_loop os dryRun tools methods = Some written"
proof (induction methods)
  case (Cons m ms)
  have "\<exists>outcome. GenerateCLIWrapper (so_mkdirAll os) (so_writeFile os) (varBinDir os) tools = Some outcome"
    using cli_arms_return [of tools] by (auto simp: GenerateCLIWrapper_def Let_def split: option.split)
  with Cons show ?case by auto
qed simp

lemma syncSkills_returns: "\<exists>a' written. syncSkills os cfg known dryRun a = Some (a', written)"
  using expose_loop_returns [of os dryRun "GetTools (so_order os) (ScanProjects (so_readManifest os) known a)"
      "as_expose_via (AgentSkills (System cfg))"]
  by (auto simp: syncSkills_def Let_def)

lemma Load_outcome:
  "Load vp env viperRead readDir = Inl e \<longleftrightarrow> vp_bind_err vp = Some e"
  by (cases "vp_bind_err vp") (auto simp: Load_def Let_def split: prod.split)

lemma runDaemon_returns:
  assumes "Load (h_viper h) (h_osenv h) (h_viperRead h) (h_readDir h) = Inr cfg"
  shows "\<exists>w p. runDaemon h dryRun immediate = Some (Inr (w, p))"
  using syncSkills_returns [of "h_skillos h" cfg "map pc_name (Projects cfg)" dryRun
      "SetSelfManifest (fp_join [ConfigRoot (System cfg), ''mcp.json'']) (NewAggregator (MonitorRoot (System cfg)))"]
  by (auto simp: runDaemon_def assms Let_def)

text \<open>
  C18: The daemon comes up: whatever happens to the two stores, to Kafka, to the schema registry, to the token file, to the export and skill
  synchronisation and to the configuration files, start-up ends with a process that listens and serves every project of the roster it
  loaded. Only a failing environment binding makes it return an error, and then nothing is started.
\<close>

theorem daemon_comes_up:
  "case vp_bind_err (h_viper h) of
     Some e \<Rightarrow> runDaemon h dryRun immediate = Some (Inl (''failed to load configuration: '' @ e))
   | None \<Rightarrow> \<exists>w p. runDaemon h dryRun immediate = Some (Inr (w, p)) \<and> ps_phase p = Serving \<and> ps_listening p
        \<and> Load (h_viper h) (h_osenv h) (h_viperRead h) (h_readDir h) = Inr (w_cfg w)
        \<and> dom (srv_machines (ps_server p)) = pc_name ` set (Projects (w_cfg w))"
proof (cases "vp_bind_err (h_viper h)")
  case (Some e)
  then have "Load (h_viper h) (h_osenv h) (h_viperRead h) (h_readDir h) = Inl e" by (simp add: Load_outcome)
  then show ?thesis by (simp add: Some runDaemon_def)
next
  case None
  then obtain cfg where "Load (h_viper h) (h_osenv h) (h_viperRead h) (h_readDir h) = Inr cfg"
    using Load_outcome [of "h_viper h" "h_osenv h" "h_viperRead h" "h_readDir h"]
    by (cases "Load (h_viper h) (h_osenv h) (h_viperRead h) (h_readDir h)") auto
  then obtain w p where wp: "runDaemon h dryRun immediate = Some (Inr (w, p))" using runDaemon_returns by blast
  have "ps_phase p = Serving \<and> ps_listening p \<and> Load (h_viper h) (h_osenv h) (h_viperRead h) (h_readDir h) = Inr (w_cfg w)
      \<and> dom (srv_machines (ps_server p)) = pc_name ` set (Projects (w_cfg w))"
    using wp by (rule runDaemon_started) (simp add: boot_fields new_machines_spec)
  then show ?thesis using wp by (auto simp: None)
qed

subsection \<open>Shutdown ends\<close>

text \<open>The rest of the way once the drain is over, one deferred call after the other.\<close>

lemma close_all:
  assumes "ps_phase s = Closing xs"
  shows "\<exists>t. (process_step w ^^ (length xs + 1)) s t \<and> ps_phase t = Exited 0 \<and> ps_inflight t = ps_inflight s
    \<and> ps_pending t = ps_pending s \<and> ps_server t = ps_server s \<and> ps_forced t = ps_forced s
    \<and> ps_listenFailed t = ps_listenFailed s \<and> ps_ctxDone t = (ps_ctxDone s \<or> Context \<in> set xs)"
  using assms
proof (induction xs arbitrary: s)
  case Nil
  then have "process_step w s (s\<lparr>ps_phase := Exited 0\<rparr>)" by (rule return)
  then show ?case by (intro exI [of _ "s\<lparr>ps_phase := Exited 0\<rparr>"]) (simp add: OO_def)
next
  case (Cons x xs)
  let ?s = "s\<lparr>ps_phase := Closing xs, ps_closed := insert x (ps_closed s), ps_ctxDone := ps_ctxDone s \<or> x = Context\<rparr>"
  have "process_step w s ?s" using Cons.prems by (rule close_next)
  moreover from Cons.IH [of ?s] obtain t where t: "(process_step w ^^ (length xs + 1)) ?s t" "ps_phase t = Exited 0"
    "ps_inflight t = ps_inflight s" "ps_pending t = ps_pending s" "ps_server t = ps_server s" "ps_forced t = ps_forced s"
    "ps_listenFailed t = ps_listenFailed s" "ps_ctxDone t = (ps_ctxDone s \<or> x = Context \<or> Context \<in> set xs)" by auto
  ultimately have "(process_step w ^^ Suc (length xs + 1)) s t" by (intro relpowp_Suc_I2)
  then show ?case using t(2-) by (intro exI [of _ t]) (simp only: list.size add_Suc add_Suc_right, auto)
qed

lemma drain_all:
  assumes "ps_phase s = Draining"
  shows "\<exists>t. (process_step w ^^ length (ps_pending s)) s t \<and> ps_phase t = Draining \<and> ps_inflight t = ps_inflight s
    \<and> ps_pending t = []"
  using assms
proof (induction "length (ps_pending s)" arbitrary: s)
  case 0
  then show ?case by auto
next
  case (Suc n)
  then obtain ev evs where ev: "ps_pending s = ev # evs" by (cases "ps_pending s") auto
  have "running s" using Suc.prems by (simp add: running_def)
  then have "process_step w s (emit_done ev s)" by (rule emit) (simp add: ev)
  moreover from Suc.hyps(1) [of "emit_done ev s"] obtain t where
    "(process_step w ^^ n) (emit_done ev s) t" "ps_phase t = Draining" "ps_inflight t = ps_inflight s" "ps_pending t = []"
    using Suc.prems Suc.hyps(2) ev by auto
  ultimately show ?case using Suc.hyps(2) by (metis relpowp_Suc_I2)
qed

lemma leave_draining:
  assumes "ps_phase s = Draining"
  shows "\<exists>t. (process_step w ^^ (length (ps_pending s) + length (w_deferred w) + 2)) s t \<and> ps_phase t = Exited 0 \<and> ps_inflight t = ps_inflight s"
proof -
  obtain u where u: "(process_step w ^^ length (ps_pending s)) s u" "ps_phase u = Draining" "ps_inflight u = ps_inflight s" "ps_pending u = []"
    using drain_all [OF assms] by blast
  let ?v = "u\<lparr>ps_phase := Closing (rev (w_deferred w))\<rparr>"
  have "process_step w u ?v" using u by (intro drained) (simp_all add: DrainEvents_def)
  moreover obtain t where "(process_step w ^^ (length (w_deferred w) + 1)) ?v t" "ps_phase t = Exited 0" "ps_inflight t = ps_inflight s"
    using close_all [of ?v "rev (w_deferred w)" w] u by auto
  ultimately have "(process_step w ^^ (length (w_deferred w) + 2)) u t" by (metis add_Suc_right nat_1_add_1 plus_1_eq_Suc relpowp_Suc_I2)
  with u(1) have "(process_step w ^^ (length (ps_pending s) + (length (w_deferred w) + 2))) s t"
    by (auto simp: relpowp_add)
  then show ?thesis using \<open>ps_phase t = Exited 0\<close> \<open>ps_inflight t = ps_inflight s\<close> by (auto simp: add.assoc)
qed


section \<open>A sample process\<close>

definition sample_viper :: viper where
  "sample_viper = \<lparr>vp_bind_err = None, vp_read = ConfigRead,
     vp_unmarshalled = (empty_system\<lparr>Kafka := \<lparr>Brokers = [''k:9092''], SchemaRegistryURL = ''http://sr'', Topic = ''t''\<rparr>\<rparr>,
       [demo_project ''obs'' ''/w/obs'']), vp_unmarshal_err = None\<rparr>"

definition sample_host :: "(Registration bucket, Registration, EnRecord bucket, EnRecord, ref_objects, flat, unit) host" where
  "sample_host =
     \<lparr>h_viper = sample_viper, h_osenv = demo_osenv, h_viperRead = (\<lambda>p. Inl ''io''), h_readDir = (\<lambda>d. Inl DirNotExist),
      h_home = ''/home/jane'', h_env = (\<lambda>k. None), h_xos = flat_os ''/'' [], h_iter = (\<lambda>m. m), h_links = [],
      h_skillos = \<lparr>so_readManifest = (\<lambda>p. None), so_order = (\<lambda>ts. ts), so_bin = [], so_home = ''/home/jane'',
        so_mkdirAll = (\<lambda>d. None), so_writeFile = (\<lambda>f. None)\<rparr>,
      h_clientErr = None, h_pingErr = None, h_schema = [], h_delivers = (\<lambda>ev. True), h_emitErr = None, h_emits = (\<lambda>ev. True),
      h_consumeErr = None, h_kv = demo_kv, h_codec = id_codec, h_mkdir = (\<lambda>d. None), h_boltOpen = (\<lambda>p. Inr bk_empty), h_ensure = Inr,
      h_enkv = ref_kv (\<lambda>_. True), h_enOpen = (\<lambda>p. Inr bk_empty), h_enEnsure = Inr,
      h_tokenenv = \<lparr>te_token_path = [], te_kubeconfig = []\<rparr>, h_readFile = (\<lambda>p. Some ''s3cret''), h_now = 0, h_cluster = Map.empty,
      h_store = (\<lambda>_. None), h_routes = (\<lambda>p. None), h_f2i = (\<lambda>x. 0)\<rparr>"

definition sample_cfg :: DelightConfig where
  "sample_cfg = projr (Load sample_viper demo_osenv (\<lambda>p. Inl ''io'') (\<lambda>d. Inl DirNotExist))"

lemma sample_loads: "Load (h_viper sample_host) (h_osenv sample_host) (h_viperRead sample_host) (h_readDir sample_host) = Inr sample_cfg"
proof -
  have "isl (Load sample_viper demo_osenv (\<lambda>p. Inl ''io'') (\<lambda>d. Inl DirNotExist)) = False" by code_simp
  then show ?thesis by (simp add: sample_cfg_def sample_host_def)
qed

lemma sample_cfg_facts:
  "Brokers (Kafka (System sample_cfg)) = [''k:9092'']" "map pc_name (Projects sample_cfg) = [''obs'']" "\<not> mcpEnabled sample_cfg"
  by code_simp+

lemma sample_host_fields [simp]:
  "h_kv sample_host = demo_kv" "h_codec sample_host = id_codec" "h_emitErr sample_host = None" "h_emits sample_host = (\<lambda>ev. True)"
  by (simp_all add: sample_host_def)

lemma sample_opens: "OpenRegistry (h_kv sample_host) (h_mkdir sample_host) (h_boltOpen sample_host) (h_ensure sample_host) path = Inr bk_empty"
  by (simp add: sample_host_def OpenRegistry_def db_update_def ref_kv_def)

lemma sample_registry_left: "registry_left sample_host"
proof -
  have "reachable (registry_start demo_kv) (registry_step demo_kv id_codec) bk_empty"
    by (rule reach_start) (simp add: registry_start_def ref_kv_def bk_empty.rep_eq bk_entries.rep_eq)
  then show ?thesis unfolding registry_left_def sample_opens by (simp add: sample_host_def)
qed

lemma sample_started:
  obtains w p where "runDaemon sample_host False False = Some (Inr (w, p))" "w_kv w = demo_kv" "w_codec w = id_codec"
    "w_f2i w = h_f2i sample_host" "w_cfg w = sample_cfg"
    "srv_cfg (ps_server p) = w_cfg w" "srv_events (ps_server p) = Some (\<lambda>ev. True)" "srv_bus (ps_server p) = []"
    "ps_phase p = Serving" "ps_listening p" "ps_inflight p = []" "ps_pending p = []" "ps_closed p = {}"
    "\<not> ps_forced p" "\<not> ps_listenFailed p" "w_deferred w \<noteq> []" "Context \<in> set (w_deferred w)"
proof -
  obtain w p where wp: "runDaemon sample_host False False = Some (Inr (w, p))" using runDaemon_returns [OF sample_loads, of False False] by auto
  have ev: "srv_events (boot K C c dry now a opened st (Some pub) tok cl) = Some pub" for K C c dry now a opened st pub tok cl
    by (simp add: boot_def NewServer_def UseEnablement_def UseEvents_def UseFurnish_def UseControlBearer_def Let_def split: option.split)
  show thesis
    using wp
  proof (rule runDaemon_started)
    assume L: "Load (h_viper sample_host) (h_osenv sample_host) (h_viperRead sample_host) (h_readDir sample_host) = Inr (w_cfg w)"
      and f: "w_kv w = h_kv sample_host" "w_codec w = h_codec sample_host" "w_f2i w = h_f2i sample_host"
      and p: "ps_phase p = Serving" "ps_listening p" "ps_inflight p = []" "ps_pending p = []" "ps_closed p = {}"
        "\<not> ps_forced p" "\<not> ps_listenFailed p"
    fix aggregator reg stateHome controlToken
    assume s: "ps_server p = boot (h_kv sample_host) (h_codec sample_host) (w_cfg w) False (h_now sample_host) aggregator reg stateHome
      (initEmit sample_host (Kafka (System (w_cfg w)))) controlToken (h_cluster sample_host)"
      and d: "w_deferred w = deferred (w_publisher w \<noteq> None) (initEmit sample_host (Kafka (System (w_cfg w))) \<noteq> None) (reg \<noteq> None)
        (stateHome \<noteq> None) (w_consumer w)"
    have "w_deferred w \<noteq> []" "Context \<in> set (w_deferred w)" by (simp_all add: d deferred_def)
    note d' = this
    have c: "w_cfg w = sample_cfg" using L sample_loads by simp
    have "initEmit sample_host (Kafka (System sample_cfg)) = Some (\<lambda>ev. True)" by (simp add: initEmit_def sample_cfg_facts(1))
    then have "srv_cfg (ps_server p) = w_cfg w" "srv_events (ps_server p) = Some (\<lambda>ev. True)" "srv_bus (ps_server p) = []"
      by (simp_all add: s c ev boot_fields)
    moreover have "w_kv w = demo_kv" "w_codec w = id_codec" using f by simp_all
    ultimately show thesis using that [OF wp] f(3) p c d' by simp
  qed
qed

definition sample_request :: request where
  "sample_request = \<lparr>rq_method = ''POST'', rq_path = [''register''], rq_authorization = [], rq_query_type = [], rq_body = ''{''\<rparr>"

definition sample_event :: NotRegistered where
  "sample_event = \<lparr>nr_project = [], nr_endpoint = [], nr_code = ''malformed_request'',
     nr_reason = Fmt ''invalid RegisterRequest: %v'' [''unexpected end''], nr_occurred_at = 5\<rparr>"

definition sample_asked :: "(Registration bucket, Registration) kv \<Rightarrow> counters \<Rightarrow> (Registration bucket, Registration, EnRecord bucket, ref_objects) reqenv" where
  "sample_asked K m = sample_reqenv\<lparr>q_kv := K, q_f2i := (\<lambda>x. 0), q_metrics := ([], m), q_register := demo_env (\<lambda>b. Inl ''unexpected end'')\<rparr>"

lemma sample_asked_fields [simp]:
  "q_kv (sample_asked K m) = K" "q_codec (sample_asked K m) = id_codec" "q_f2i (sample_asked K m) = (\<lambda>x. 0)"
  "q_metrics (sample_asked K m) = ([], m)" "q_register (sample_asked K m) = demo_env (\<lambda>b. Inl ''unexpected end'')"
  by (simp_all add: sample_asked_def sample_reqenv_def)

lemma sample_dispatch: "dispatch_in (mx_table (Mux False [])) sample_request = Found False RRegister []"
  by code_simp

lemma sample_refused:
  assumes "srv_cfg s = sample_cfg" and "srv_events s = Some (\<lambda>ev. True)"
  shows "\<exists>rep. detached (sample_asked K m) sample_request s = (s, [sample_event], rep)"
  using assms sample_cfg_facts(3) sample_dispatch
  by (simp add: detached_def serve_def serve_mux_def handle_def handleRegister_def demo_env_def notRegistered_def emitNotRegistered_def
      sample_event_def Let_def)

text \<open>
  A forced shutdown can lose an event, against the comment above \<^verbatim>\<open>DrainEvents\<close>: with a handler still at work when the five seconds are over, the
  drain finds nothing under way and returns, the handler then refuses its registration and begins its emit, and the
  process exits with status 0 and the event unpublished, although the publisher would have taken it.
\<close>

theorem forced_shutdown_loses_an_event:
  "\<exists>w p s. runDaemon sample_host False False = Some (Inr (w, p)) \<and> reachable ((=) p) (process_step w) s
     \<and> ps_phase s = Exited 0 \<and> ps_forced s \<and> ps_pending s = [sample_event] \<and> takes (srv_events (ps_server s)) sample_event
     \<and> srv_bus (ps_server s) = []"
proof (rule sample_started)
  fix w p
  assume run: "runDaemon sample_host False False = Some (Inr (w, p))" and w: "w_kv w = demo_kv" "w_codec w = id_codec"
    "w_f2i w = h_f2i sample_host" and p: "srv_cfg (ps_server p) = w_cfg w" "w_cfg w = sample_cfg"
    "srv_events (ps_server p) = Some (\<lambda>ev. True)" "srv_bus (ps_server p) = []" "ps_phase p = Serving" "ps_listening p"
    "ps_inflight p = []" "ps_pending p = []" "ps_closed p = {}"
  let ?R = "reachable ((=) p) (process_step w)"
  define s1 where "s1 = p\<lparr>ps_inflight := ps_inflight p @ [sample_request]\<rparr>"
  define s2 where "s2 = s1\<lparr>ps_phase := ShuttingDown, ps_listening := False\<rparr>"
  define s3 where "s3 = s2\<lparr>ps_phase := Draining, ps_forced := True\<rparr>"
  define s4 where "s4 = s3\<lparr>ps_phase := Closing (rev (w_deferred w))\<rparr>"
  define q where "q = sample_asked (kv_now w s4) (ps_metrics s4)"
  define s5 where "s5 = respond q sample_request s4"
  have "?R p" by (rule reach_start) simp
  then have "?R s1" unfolding s1_def by (rule reach_step) (rule accept, simp_all add: p)
  then have "?R s2" unfolding s2_def by (rule reach_step) (rule signal, simp add: s1_def p)
  then have "?R s3" unfolding s3_def by (rule reach_step) (rule shutdown_forced, simp add: s2_def)
  then have "?R s4" unfolding s4_def by (rule reach_step) (rule drained, simp_all add: s3_def s2_def s1_def DrainEvents_def p)
  then have r5: "?R s5" unfolding s5_def
    by (rule reach_step)
      (rule answer, simp_all add: running_def q_def s4_def s3_def s2_def s1_def w sample_host_def)
  have s4: "ps_server s4 = ps_server p" "ps_pending s4 = []" "ps_phase s4 = Closing (rev (w_deferred w))" "ps_forced s4"
    by (simp_all add: s4_def s3_def s2_def s1_def p)
  obtain rep where "detached q sample_request (ps_server s4) = (ps_server p, [sample_event], rep)"
    using sample_refused [of "ps_server p" "kv_now w s4" "ps_metrics s4"] p by (auto simp: q_def s4)
  then have s5: "ps_server s5 = ps_server p" "ps_pending s5 = [sample_event]" "ps_phase s5 = Closing (rev (w_deferred w))" "ps_forced s5"
    by (simp_all add: s5_def respond_def s4)
  from close_all [OF s5(3), of w] obtain t where st: "(process_step w)\<^sup>*\<^sup>* s5 t"
    and t: "ps_phase t = Exited 0" "ps_pending t = [sample_event]" "ps_server t = ps_server p" "ps_forced t"
    using s5 relpowp_imp_rtranclp by fastforce
  have "?R t" using st r5 by (rule reachable_steps)
  then show ?thesis using run t p by (auto simp: takes_def)
qed

lemma sample_exit:
  obtains w p s where "runDaemon sample_host False False = Some (Inr (w, p))" "registry_store (w_kv w) (w_codec w)"
    "reachable ((=) p) (process_step w) s" "ps_phase s = Exited 0" "\<not> ps_forced s" "ps_ctxDone s" "\<not> ps_listenFailed s"
proof (rule sample_started)
  fix w p
  assume run: "runDaemon sample_host False False = Some (Inr (w, p))" and w: "w_kv w = demo_kv" "w_codec w = id_codec"
    and p: "ps_phase p = Serving" "ps_inflight p = []" "ps_pending p = []" "\<not> ps_forced p" "\<not> ps_listenFailed p"
      "Context \<in> set (w_deferred w)"
  let ?R = "reachable ((=) p) (process_step w)"
  define s2 where "s2 = p\<lparr>ps_phase := ShuttingDown, ps_listening := False\<rparr>"
  define s3 where "s3 = s2\<lparr>ps_phase := Draining\<rparr>"
  define s4 where "s4 = s3\<lparr>ps_phase := Closing (rev (w_deferred w))\<rparr>"
  have "?R p" by (rule reach_start) simp
  then have "?R s2" unfolding s2_def by (rule reach_step) (rule signal, simp add: p)
  then have "?R s3" unfolding s3_def by (rule reach_step) (rule shutdown_clean, simp_all add: s2_def p)
  then have r4: "?R s4" unfolding s4_def by (rule reach_step) (rule drained, simp_all add: s3_def s2_def DrainEvents_def p)
  from close_all [of s4 "rev (w_deferred w)" w] obtain t where st: "(process_step w)\<^sup>*\<^sup>* s4 t"
    and t: "ps_phase t = Exited 0" "\<not> ps_forced t" "ps_ctxDone t" "\<not> ps_listenFailed t"
    using relpowp_imp_rtranclp p by (fastforce simp: s4_def s3_def s2_def)
  have "?R t" using st r4 by (rule reachable_steps)
  then show thesis using that run t demo_store by (simp add: w)
qed

theorem process_refines_each_loop_witness:
  "\<exists>w p m. runDaemon sample_host False False = Some (Inr (w, p))
     \<and> reachable (loop_init (loopcfg_of (w_cfg w) False False (w_publisher w) (w_f2i w) (Projects (w_cfg w) ! 0)) (ps_store p))
        (loop_step (loopcfg_of (w_cfg w) False False (w_publisher w) (w_f2i w) (Projects (w_cfg w) ! 0)))
        \<lparr>ls_machine = m, ls_store = ps_store p, ls_pc = pc_of (ps_loops p 0), ls_events = ps_events p, ls_metrics = ps_metrics p\<rparr>"
proof (rule sample_started)
  fix w p
  assume run: "runDaemon sample_host False False = Some (Inr (w, p))" and c: "w_cfg w = sample_cfg" and cl: "ps_closed p = {}"
  have "reachable ((=) p) (process_step w) p" by (rule reach_start) simp
  moreover have "0 < length (Projects (w_cfg w))" using sample_cfg_facts(2) by (cases "Projects sample_cfg") (simp_all add: c)
  ultimately show ?thesis using process_refines_each_loop [OF run, of p 0] cl run by blast
qed

theorem process_invariant_witness:
  "\<exists>w p s. runDaemon sample_host False False = Some (Inr (w, p)) \<and> reachable ((=) p) (process_step w) s \<and> ps_phase s = Exited 0
     \<and> mset (ps_begun s) = mset (srv_bus (ps_server s)) + mset (ps_undelivered s) + mset (ps_pending s)"
proof (rule sample_exit)
  fix w p s
  assume run: "runDaemon sample_host False False = Some (Inr (w, p))" "registry_store (w_kv w) (w_codec w)"
    "reachable ((=) p) (process_step w) s" and "ps_phase s = Exited 0"
  then show ?thesis using process_invariant [OF run(1,2) sample_registry_left run(3)] by blast
qed

theorem clean_shutdown_loses_nothing_witness:
  "\<exists>w p s. runDaemon sample_host False False = Some (Inr (w, p)) \<and> reachable ((=) p) (process_step w) s \<and> ps_phase s = Exited 0 \<and> ps_pending s = []
     \<and> ps_closed s = set (w_deferred w)"
proof (rule sample_exit)
  fix w p s
  assume run: "runDaemon sample_host False False = Some (Inr (w, p))" "registry_store (w_kv w) (w_codec w)"
    "reachable ((=) p) (process_step w) s" and s: "ps_phase s = Exited 0" "\<not> ps_forced s"
  then show ?thesis using clean_shutdown_loses_nothing [OF run(1,2) sample_registry_left run(3) s] by blast
qed

theorem context_cancelled_last_witness:
  "\<exists>w p s. runDaemon sample_host False False = Some (Inr (w, p)) \<and> reachable ((=) p) (process_step w) s \<and> ps_ctxDone s \<and> ps_closed s = set (w_deferred w)"
proof (rule sample_exit)
  fix w p s
  assume run: "runDaemon sample_host False False = Some (Inr (w, p))" "registry_store (w_kv w) (w_codec w)"
    "reachable ((=) p) (process_step w) s" and s: "ps_phase s = Exited 0" "ps_ctxDone s" "\<not> ps_listenFailed s"
  have "ps_phase s \<noteq> Crashed" using s by simp
  then show ?thesis using context_cancelled_last [OF run(1,2) sample_registry_left run(3) s(2,3)] run s by blast
qed



text \<open>
  A control port that cannot be bound ends the daemon as a success: the failed listener cancels the context, the shutdown
  runs, and the process exits with status 0, as after a signal.
\<close>

theorem failed_listener_exits_with_success:
  "\<exists>w p s. runDaemon sample_host False False = Some (Inr (w, p)) \<and> reachable ((=) p) (process_step w) s
     \<and> ps_listenFailed s \<and> ps_phase s = Exited 0"
proof (rule sample_started)
  fix w p
  assume run: "runDaemon sample_host False False = Some (Inr (w, p))" and p: "ps_phase p = Serving" "ps_listening p" "ps_pending p = []"
  let ?R = "reachable ((=) p) (process_step w)"
  define s1 where "s1 = p\<lparr>ps_listening := False, ps_listenFailed := True, ps_ctxDone := True\<rparr>"
  define s2 where "s2 = s1\<lparr>ps_phase := ShuttingDown, ps_listening := False\<rparr>"
  define s3 where "s3 = s2\<lparr>ps_phase := Draining, ps_forced := True\<rparr>"
  define s4 where "s4 = s3\<lparr>ps_phase := Closing (rev (w_deferred w))\<rparr>"
  have "?R p" by (rule reach_start) simp
  then have "?R s1" unfolding s1_def by (rule reach_step) (rule listen_fails, simp_all add: p)
  then have "?R s2" unfolding s2_def by (rule reach_step) (rule context_done, simp_all add: s1_def p)
  then have "?R s3" unfolding s3_def by (rule reach_step) (rule shutdown_forced, simp add: s2_def)
  then have r4: "?R s4" unfolding s4_def by (rule reach_step) (rule drained, simp_all add: s3_def s2_def s1_def DrainEvents_def p)
  from close_all [of s4 "rev (w_deferred w)" w] obtain t where st: "(process_step w)\<^sup>*\<^sup>* s4 t"
    and t: "ps_phase t = Exited 0" "ps_listenFailed t"
    using relpowp_imp_rtranclp by (fastforce simp: s4_def s3_def s2_def s1_def)
  have "?R t" using st r4 by (rule reachable_steps)
  then show ?thesis using run t by blast
qed


end
