(* ===== verification/Cli.thy ===== *)
theory Cli
  imports Lifecycle Model
begin

text \<open>
  The command line of \<^verbatim>\<open>cmd/delightd\<close>: \<^verbatim>\<open>rootCmd\<close> with its subcommands \<^verbatim>\<open>lint\<close>, \<^verbatim>\<open>model\<close>, \<^verbatim>\<open>furnish\<close> and \<^verbatim>\<open>healthcheck\<close>, what each prints, and the
  exit status \<^verbatim>\<open>main\<close> ends with. Parsing of words and flags is cobra's: a command arrives here with its flags and
  arguments.
\<close>

section \<open>Lint output\<close>

definition fragment_error_text :: "FragmentError \<Rightarrow> errtext" where
  "fragment_error_text e = (case e of ReadingFragment m \<Rightarrow> Msg (''reading fragment: '' @ m) | ParsingFragment m \<Rightarrow> Msg (''parsing fragment: '' @ m))"

definition lint_error_text :: "LintError \<Rightarrow> errtext" where
  "lint_error_text e = (case e of LintParse f \<Rightarrow> fragment_error_text f | LintStructural m \<Rightarrow> Msg m)"

definition lint_warning_text :: "LintWarning \<Rightarrow> errtext" where
  "lint_warning_text wn = (case wn of
      PathNotFound p \<Rightarrow> Fmt ''path %q not found on this host'' [p]
    | NotADirectory p \<Rightarrow> Fmt ''path %q is not a directory'' [p]
    | NotAGitRepository p \<Rightarrow> Fmt ''path %q is not a git repository'' [p])"

definition labelled :: "string \<Rightarrow> errtext \<Rightarrow> errtext" where
  "labelled label t = (case t of Msg m \<Rightarrow> Msg (label @ m) | Fmt f xs \<Rightarrow> Fmt (label @ f) xs)"

text \<open>One element per line.\<close>

definition renderLintText :: "LintResult \<Rightarrow> errtext list" where
  "renderLintText res =
     [Msg (li_path res @ '': '' @ (if \<not> li_valid res then ''INVALID'' else ''ok''))]
     @ map (\<lambda>e. labelled ''  error:   '' (lint_error_text e)) (li_errors res)
     @ map (\<lambda>wn. labelled ''  warning: '' (lint_warning_text wn)) (li_warnings res)"

text \<open>\<open>json\<close> is \<^verbatim>\<open>json.MarshalIndent\<close>; its error is dropped, which leaves the empty string.\<close>

definition LintResult_JSON :: "(LintResult \<Rightarrow> string + string) \<Rightarrow> LintResult \<Rightarrow> string" where
  "LintResult_JSON json res = (case json res of Inl e \<Rightarrow> [] | Inr t \<Rightarrow> t)"

definition lint_lines :: "(LintResult \<Rightarrow> string + string) \<Rightarrow> bool \<Rightarrow> LintResult \<Rightarrow> errtext list" where
  "lint_lines json as_text res = (if as_text then renderLintText res else [Msg (LintResult_JSON json res)])"

section \<open>The command tree\<close>

datatype command =
    DaemonCmd bool bool
  | LintCmd bool "string list"
  | ModelCmd model_command
  | FurnishCmd string furnish_command
  | HealthcheckCmd string

text \<open>The default of \<^verbatim>\<open>--control\<close>.\<close>

definition default_control :: string where
  "default_control = ''127.0.0.1:'' @ showInt DefaultControlPort"

datatype cli_error =
    TooFewArguments
  | FragmentsInvalid nat
  | ModelFailed model_error
  | PrintFailed string
  | RequestFailed string
  | DaemonFailed string

text \<open>\<open>marshal\<close> is \<^verbatim>\<open>json.MarshalIndent\<close> on what a command prints.\<close>

definition printJSON :: "('x \<Rightarrow> string + string) \<Rightarrow> 'x \<Rightarrow> errtext list \<times> cli_error option" where
  "printJSON marshal x = (case marshal x of Inl e \<Rightarrow> ([], Some (PrintFailed e)) | Inr t \<Rightarrow> ([Msg t], None))"

text \<open>What the commands work with besides their arguments.\<close>

record ('b, 'v, 'e, 'w, 'c, 's, 'y) clienv =
  ce_host :: "('b, 'v, 'e, 'w, 'c, 's, 'y) host"
  ce_viperRead :: fragment_reader
  ce_statFragment :: "string \<Rightarrow> StatResult"
  ce_lintJSON :: "LintResult \<Rightarrow> string + string"
  ce_stat :: "string \<Rightarrow> bool"
  ce_get :: "string \<Rightarrow> string + nat"
  ce_set :: "LoadSetError + DeploymentDescriptor list"
  ce_modelJSON :: "model_output \<Rightarrow> string + string"
  ce_send :: "string \<Rightarrow> request \<Rightarrow> string + nat \<times> string \<times> string"

definition lintCmd :: "('b, 'v, 'e, 'w, 'c, 's, 'y) clienv \<Rightarrow> bool \<Rightarrow> string list \<Rightarrow> errtext list \<times> cli_error option" where
  "lintCmd ce as_text args =
     (if length args < 1 then ([], Some TooFewArguments)
      else case lint_command (ce_viperRead ce) (ce_statFragment ce) args of
        (results, invalid) \<Rightarrow> (concat (map (lint_lines (ce_lintJSON ce) as_text) results), map_option FragmentsInvalid invalid))"

definition model_main :: "('b, 'v, 'e, 'w, 'c, 's, 'y) clienv \<Rightarrow> model_command \<Rightarrow> errtext list \<times> cli_error option" where
  "model_main ce cmd =
     (case modelCmd (ce_stat ce) (ce_get ce) (ce_set ce) cmd of
        (None, err) \<Rightarrow> ([], map_option ModelFailed err)
      | (Some out, err) \<Rightarrow>
          (case printJSON (ce_modelJSON ce) out of
             (printed, Some e) \<Rightarrow> (printed, Some e)
           | (printed, None) \<Rightarrow> (printed, map_option ModelFailed err)))"

definition relayed :: "string option \<times> string option \<Rightarrow> errtext list \<times> cli_error option" where
  "relayed r = (case r of (out, err) \<Rightarrow> (case out of None \<Rightarrow> [] | Some b \<Rightarrow> [Msg b], map_option RequestFailed err))"

text \<open>
  \<^verbatim>\<open>rootCmd().Execute()\<close>: what is printed and the error. The daemon returns its start-up error, or nil once it has shut down.
\<close>

definition rootCmd :: "('b, 'v, 'e, 'w, 'c, 's, 'y) clienv \<Rightarrow> command \<Rightarrow> errtext list \<times> cli_error option" where
  "rootCmd ce cmd = (case cmd of
      DaemonCmd dryRun immediate \<Rightarrow>
        (case runDaemon (ce_host ce) dryRun immediate of
           Some (Inl err) \<Rightarrow> ([], Some (DaemonFailed err))
         | _ \<Rightarrow> ([], None))
    | LintCmd as_text args \<Rightarrow> lintCmd ce as_text args
    | ModelCmd m \<Rightarrow> model_main ce m
    | FurnishCmd addr f \<Rightarrow> relayed (furnishCmd (ce_send ce addr) addr f)
    | HealthcheckCmd addr \<Rightarrow> relayed (healthcheckCmd (ce_send ce addr) addr))"

definition main_status :: "('b, 'v, 'e, 'w, 'c, 's, 'y) clienv \<Rightarrow> command \<Rightarrow> nat" where
  "main_status ce cmd = (case snd (rootCmd ce cmd) of Some err \<Rightarrow> 1 | None \<Rightarrow> 0)"

section \<open>Facts\<close>

definition succeeded :: "string + nat \<times> string \<times> string \<Rightarrow> bool" where
  "succeeded answer \<longleftrightarrow> (case answer of Inl e \<Rightarrow> False | Inr (code, st, body) \<Rightarrow> code div 100 = 2)"

lemma furnishDo_ok:
  "snd (furnishDo send addr method path) = None \<longleftrightarrow>
     succeeded (send \<lparr>rq_method = method, rq_path = path_segments path, rq_authorization = [], rq_query_type = [], rq_body = []\<rparr>)"
  by (auto simp: furnishDo_def succeeded_def Let_def split: sum.split prod.split)

lemma snd_relayed: "snd (relayed r) = None \<longleftrightarrow> snd r = None"
  by (cases r) (simp add: relayed_def)

text \<open>The request of each furnish command.\<close>

definition furnish_request :: "furnish_command \<Rightarrow> request" where
  "furnish_request c =
     (let path = (case c of CmdList \<Rightarrow> ''/furnish/pieces'' | CmdHealth None \<Rightarrow> ''/furnish/health'' | CmdHealth (Some p) \<Rightarrow> ''/furnish/health/'' @ p
        | CmdUp p \<Rightarrow> ''/furnish/'' @ p @ ''/up'' | CmdDown p \<Rightarrow> ''/furnish/'' @ p @ ''/down'')
      in \<lparr>rq_method = (case c of CmdUp p \<Rightarrow> ''POST'' | CmdDown p \<Rightarrow> ''POST'' | _ \<Rightarrow> ''GET''), rq_path = path_segments path,
          rq_authorization = [], rq_query_type = [], rq_body = []\<rparr>)"

lemma furnishCmd_ok: "snd (furnishCmd send addr c) = None \<longleftrightarrow> succeeded (send (furnish_request c))"
  by (simp add: furnishCmd_def furnish_request_def furnishDo_ok split: furnish_command.split option.split)

lemma lint_none: "snd (lint_command rd stat args) = None \<longleftrightarrow> list_all (\<lambda>path. li_valid (LintFragment rd stat path)) args"
  by (auto simp: lint_command_def Let_def filter_empty_conv list_all_iff)

lemma model_main_ok:
  "snd (model_main ce m) = None \<longleftrightarrow>
     (\<exists>out t. modelCmd (ce_stat ce) (ce_get ce) (ce_set ce) m = (Some out, None) \<and> ce_modelJSON ce out = Inr t)
     \<or> modelCmd (ce_stat ce) (ce_get ce) (ce_set ce) m = (None, None)"
  by (auto simp: model_main_def printJSON_def split: prod.split option.split sum.split)

lemma modelCmd_not_silent: "modelCmd stat get loaded m \<noteq> (None, None)"
  by (auto simp: modelCmd_def withDeployment_def Let_def split: model_command.split sum.split option.split prod.split)

lemma daemon_err: "snd (rootCmd ce (DaemonCmd dryRun immediate)) = None \<longleftrightarrow> vp_bind_err (h_viper (ce_host ce)) = None"
proof (cases "vp_bind_err (h_viper (ce_host ce))")
  case (Some e)
  then have "Load (h_viper (ce_host ce)) (h_osenv (ce_host ce)) (h_viperRead (ce_host ce)) (h_readDir (ce_host ce)) = Inl e"
    by (simp add: Load_outcome)
  then show ?thesis by (simp add: Some rootCmd_def runDaemon_def)
next
  case None
  then obtain cfg where "Load (h_viper (ce_host ce)) (h_osenv (ce_host ce)) (h_viperRead (ce_host ce)) (h_readDir (ce_host ce)) = Inr cfg"
    using Load_outcome [of "h_viper (ce_host ce)" "h_osenv (ce_host ce)" "h_viperRead (ce_host ce)" "h_readDir (ce_host ce)"]
    by (cases "Load (h_viper (ce_host ce)) (h_osenv (ce_host ce)) (h_viperRead (ce_host ce)) (h_readDir (ce_host ce))") auto
  from runDaemon_returns [OF this, of dryRun immediate] show ?thesis by (auto simp: None rootCmd_def)
qed

text \<open>What each command is asked to do has been done.\<close>

definition succeeds :: "('b, 'v, 'e, 'w, 'c, 's, 'y) clienv \<Rightarrow> command \<Rightarrow> bool" where
  "succeeds ce cmd \<longleftrightarrow> (case cmd of
      DaemonCmd dryRun immediate \<Rightarrow> vp_bind_err (h_viper (ce_host ce)) = None
    | LintCmd as_text args \<Rightarrow> args \<noteq> [] \<and> list_all (\<lambda>path. li_valid (LintFragment (ce_viperRead ce) (ce_statFragment ce) path)) args
    | ModelCmd m \<Rightarrow> (\<exists>out t. modelCmd (ce_stat ce) (ce_get ce) (ce_set ce) m = (Some out, None) \<and> ce_modelJSON ce out = Inr t)
    | FurnishCmd addr c \<Rightarrow> succeeded (ce_send ce addr (furnish_request c))
    | HealthcheckCmd addr \<Rightarrow> succeeded (ce_send ce addr
        \<lparr>rq_method = ''GET'', rq_path = [''readyz''], rq_authorization = [], rq_query_type = [], rq_body = []\<rparr>))"

lemma rootCmd_succeeds: "snd (rootCmd ce cmd) = None \<longleftrightarrow> succeeds ce cmd"
proof (cases cmd)
  case (LintCmd as_text args)
  then show ?thesis
    using lint_none [of "ce_viperRead ce" "ce_statFragment ce" args]
    by (auto simp: succeeds_def rootCmd_def lintCmd_def Suc_le_eq split: prod.splits)
next
  case (HealthcheckCmd addr)
  have "path_segments ''/readyz'' = [''readyz'']" by code_simp
  with HealthcheckCmd show ?thesis by (simp add: succeeds_def rootCmd_def snd_relayed healthcheckCmd_def furnishDo_ok)
next
  case (DaemonCmd dryRun immediate)
  then show ?thesis by (simp add: daemon_err succeeds_def)
qed (simp_all add: succeeds_def rootCmd_def snd_relayed furnishCmd_ok model_main_ok modelCmd_not_silent)

section \<open>Properties\<close>


lemma showInt_inject_nat: "showInt p = showInt (int n) \<longleftrightarrow> p = int n"
proof (cases "p < 0")
  case True
  have "CHR ''-'' \<in> set (showInt p)" using True by (simp add: showInt_def)
  moreover have "CHR ''-'' \<notin> set (showInt (int n))" using showNat_no_dash [of n] by (simp add: showInt_def)
  ultimately show ?thesis using True by auto
next
  case False
  then show ?thesis using showNat_inject [of "nat p" n] by (auto simp: showInt_def)
qed

text \<open>
  The commands dial the daemon where it listens only as long as the port is left at its default: without \<^verbatim>\<open>--control\<close>, the furnish commands and the health
  check the image declares reach the address of the control port exactly when the configured port is unset or 8088.
\<close>

theorem default_address_needs_default_port:
  "default_control = ''127.0.0.1'' @ hs_Addr (control_server cfg) \<longleftrightarrow> ControlPort (DaemonCfg (System cfg)) \<in> {0, 8088}"
proof -
  have "default_control = ''127.0.0.1'' @ hs_Addr (control_server cfg) \<longleftrightarrow> showInt (ResolveControlPort (DaemonCfg (System cfg))) = showInt (int 8088)"
    by (auto simp: default_control_def control_server_def DefaultControlPort_def)
  then show ?thesis
    unfolding showInt_inject_nat by (auto simp: ResolveControlPort_def DefaultControlPort_def)
qed

end
