(* ===== verification/Archives.thy ===== *)
theory Archives
  imports Lifecycle
begin

text \<open>
  The archives of the running daemon: the backup directory of \<^verbatim>\<open>pkg/backup/backup.go\<close> through the life of the process of
  \<^verbatim>\<open>cmd/delightd/main.go\<close>. Every project has a directory of its own, and nothing but its own checkpoints changes it;
  what a loop reports as a success is on disk when it reports it.
\<close>

section \<open>Directories of projects\<close>

definition archiveDir :: "DelightConfig \<Rightarrow> ProjectConfig \<Rightarrow> string" where
  "archiveDir cfg p = fp_join [BackupsRoot (System cfg), pc_name p]"

lemma archiveDirs_apart:
  assumes "distinct (map pc_name (Projects cfg))" and "\<forall>q \<in> set (Projects cfg). name_ok (pc_name q)"
    and "i < length (Projects cfg)" and "j < length (Projects cfg)"
    and "archiveDir cfg (Projects cfg ! i) = archiveDir cfg (Projects cfg ! j)"
  shows "i = j"
proof -
  have "pc_name (Projects cfg ! i) = pc_name (Projects cfg ! j)"
    using assms(2-) fp_base_join unfolding archiveDir_def by (metis nth_mem)
  then show ?thesis using assms(1,3,4) by (metis length_map nth_eq_iff_index_eq nth_map)
qed

section \<open>Checkpoints of a project\<close>

text \<open>One run of \<^verbatim>\<open>CreateCheckpoint\<close> for a project, from what the goroutine of the project closes over.\<close>

definition checkpoint_run ::
  "DelightConfig \<Rightarrow> bool \<Rightarrow> ProjectConfig \<Rightarrow> store \<Rightarrow> store \<Rightarrow> CheckpointError + CheckpointResult \<Rightarrow> bool" where
  "checkpoint_run cfg dryRun p st st' r \<longleftrightarrow>
     (\<exists>env src. checkpoint_input env src
        \<and> CreateCheckpoint env (pc_name p) src (BackupsRoot (System cfg)) (MaxArchives (pc_backup p)) (Exclude (pc_backup p)) dryRun st = (st', r))"

definition store_ok :: "store \<Rightarrow> bool" where
  "store_ok st \<longleftrightarrow> (\<forall>d es. st d = Some es \<longrightarrow> listing_ok es)"

lemma input_stamp: "checkpoint_input env src \<Longrightarrow> CHR ''/'' \<notin> set (ce_stamp env)"
  by (auto simp: checkpoint_input_def stamp_format_def)

lemma checkpoint_run_frame:
  assumes "checkpoint_run cfg dryRun p st st' r" and "name_ok (pc_name p)" and "store_ok st"
  shows "st' = st \<or> \<not> dryRun \<and> (\<exists>es'. st' = st(archiveDir cfg p \<mapsto> es') \<and> listing_ok es'
     \<and> (\<forall>es. st (archiveDir cfg p) = Some es \<longrightarrow> keeps_others es es'))"
proof -
  obtain env src where o: "checkpoint_input env src" and c: "CreateCheckpoint env (pc_name p) src (BackupsRoot (System cfg))
      (MaxArchives (pc_backup p)) (Exclude (pc_backup p)) dryRun st = (st', r)"
    using assms(1) by (auto simp: checkpoint_run_def)
  let ?d = "archiveDir cfg p"
  define es where "es = (case st ?d of None \<Rightarrow> [] | Some es \<Rightarrow> es)"
  have "listing_ok []" by (simp add: listing_ok_def)
  then have "listing_ok es" using assms(3) by (auto simp: es_def store_ok_def split: option.split)
  with checkpoint_frame [OF assms(2) input_stamp [OF o] _ _ c, of es] show ?thesis
    by (auto simp: es_def archiveDir_def split: option.splits)
qed

lemma checkpoint_run_store_ok:
  "checkpoint_run cfg dryRun p st st' r \<Longrightarrow> name_ok (pc_name p) \<Longrightarrow> store_ok st \<Longrightarrow> store_ok st'"
  using checkpoint_run_frame [of cfg dryRun p st st' r] by (auto simp: store_ok_def split: if_splits)

lemma checkpoint_run_elsewhere:
  "checkpoint_run cfg dryRun p st st' r \<Longrightarrow> name_ok (pc_name p) \<Longrightarrow> store_ok st \<Longrightarrow> d \<noteq> archiveDir cfg p \<Longrightarrow> st' d = st d"
  using checkpoint_run_frame [of cfg dryRun p st st' r] by auto

text \<open>A success left its archive, or as many of later names as the rotation limit allows.\<close>

definition on_disk :: "int \<Rightarrow> string list \<Rightarrow> string \<Rightarrow> listing \<Rightarrow> bool" where
  "on_disk limit exclude name es \<longleftrightarrow>
     (\<exists>n flushed. (name, ArchiveFile (map tar_entry (checkpoint_entries exclude n)) flushed) \<in> set es)
     \<or> 0 < limit \<and> nat limit \<le> length (filter ((<) name) (archive_names es))"

lemma checkpoint_run_success:
  assumes "checkpoint_run cfg False p st st' (Inr res)" and "name_ok (pc_name p)" and "store_ok st"
  shows "fp_dir (ArchivePath res) = archiveDir cfg p \<and> hasSuffix (fp_base (ArchivePath res)) ''.tgz''
    \<and> (\<exists>es. st' (archiveDir cfg p) = Some es
        \<and> on_disk (MaxArchives (pc_backup p)) (Exclude (pc_backup p)) (fp_base (ArchivePath res)) es)"
proof -
  obtain env src where o: "checkpoint_input env src" and c: "CreateCheckpoint env (pc_name p) src (BackupsRoot (System cfg))
      (MaxArchives (pc_backup p)) (Exclude (pc_backup p)) False st = (st', Inr res)"
    using assms(1) by (auto simp: checkpoint_run_def)
  note stamp = input_stamp [OF o]
  have path: "ArchivePath res = archive_path env (pc_name p) (BackupsRoot (System cfg))"
    using c by (auto simp: CreateCheckpoint_def Let_def split: option.splits prod.splits)
  note split = archive_path_split [OF assms(2) stamp, of "BackupsRoot (System cfg)"]
  obtain n where src: "src = Inr n"
    using c by (cases src) (auto simp: CreateCheckpoint_def createTarGz_def walkCheckpoint_def walkRoot_def Let_def
        split: option.splits prod.splits if_splits)
  then have "tree_ok n" using o by (simp add: checkpoint_input_def)
  from checkpoint_kept_or_superseded [OF assms(2) stamp this _ c [unfolded src]] assms(3)
    checkpoint_file_tgz [of env "pc_name p"]
  show ?thesis unfolding path split archiveDir_def on_disk_def store_ok_def by blast
qed

section \<open>Checkpoints of the process\<close>

definition outcome_of :: "goroutine \<Rightarrow> (CheckpointError + CheckpointResult) option" where
  "outcome_of g =
     (case g of GRun pc \<Rightarrow> (case pc of LFinish r \<Rightarrow> Some r | LPublish r \<Rightarrow> Some r | LRecord r \<Rightarrow> Some r | _ \<Rightarrow> None) | _ \<Rightarrow> None)"

lemma loop_move_store:
  assumes "loop_move (loopcfg_of cfg dryRun immediate pub f2i p) s t"
  shows "ls_store t = ls_store s \<and> (\<forall>r. outcome_of (GRun (ls_pc t)) = Some r \<longrightarrow> outcome_of (GRun (ls_pc s)) = Some r)
    \<or> (\<exists>r. ls_pc s = LSelect \<and> CurrentState (ls_machine s) = StateBackingUp \<and> ls_machine t = ls_machine s \<and> ls_pc t = LFinish r
         \<and> checkpoint_run cfg dryRun p (ls_store s) (ls_store t) r)"
  using assms
proof cases
  case (eval env src)
  then show ?thesis
    by (auto simp: eval_tick_def loopcfg_of_def checkpoint_run_def GetState_def outcome_of_def split: prod.splits)
qed (auto simp: outcome_of_def poll_tick_def polled_tick_def advance_tick_def count_tick_def publish_tick_def finish_tick_def
    retry_check_def can_retry_check_def retry_tick_def split: sum.splits)

lemma fleet_move_store:
  assumes "fleet_move (loops_of cfg dryRun immediate pub f2i) s t"
  shows "fl_store t = fl_store s \<and> (\<forall>j r. outcome_of (fl_loops t j) = Some r \<longrightarrow> outcome_of (fl_loops s j) = Some r)
    \<or> (\<exists>i m r. i < length (Projects cfg) \<and> fl_loops s i = GRun LSelect \<and> fl_machines s (pc_name (Projects cfg ! i)) = Some m
         \<and> CurrentState m = StateBackingUp \<and> fl_loops t = (fl_loops s)(i := GRun (LFinish r))
         \<and> checkpoint_run cfg dryRun (Projects cfg ! i) (fl_store s) (fl_store t) r)"
  using assms
proof cases
  case (start_loop i m parse churn rd v interval)
  then show ?thesis
    using loop_start_shape [OF start_loop(5)] by (auto simp: put_view_def view_of_def outcome_of_def)
next
  case (move_loop i pc m v)
  have i: "i < length (Projects cfg)" using move_loop(2) by (simp add: loops_of_def)
  note m = move_loop(4,5) [unfolded loops_of_nth [OF i]]
  from loop_move_store [OF m(2)] show ?thesis
  proof (elim disjE exE conjE)
    fix r
    assume *: "ls_pc (view_of m pc s) = LSelect" "CurrentState (ls_machine (view_of m pc s)) = StateBackingUp" "ls_pc v = LFinish r"
      "checkpoint_run cfg dryRun (Projects cfg ! i) (ls_store (view_of m pc s)) (ls_store v) r"
    then have "fl_loops s i = GRun LSelect \<and> fl_machines s (pc_name (Projects cfg ! i)) = Some m \<and> CurrentState m = StateBackingUp
      \<and> fl_loops t = (fl_loops s)(i := GRun (LFinish r)) \<and> checkpoint_run cfg dryRun (Projects cfg ! i) (fl_store s) (fl_store t) r"
      using move_loop(1,3) m(1) by (simp add: put_view_def view_of_def loopcfg_of_def)
    then show ?thesis using i by blast
  qed (use move_loop in \<open>auto simp: put_view_def view_of_def\<close>)
qed (auto simp: outcome_of_def)

lemma loops_now_shape: "\<exists>pub. loops_now w s = loops_of (w_cfg w) (w_dryRun w) (w_immediate w) pub (w_f2i w)"
  by (auto simp: loops_now_def)

lemma process_step_store:
  assumes "process_step w s t"
  shows "ps_store t = ps_store s \<and> (\<forall>j r. outcome_of (ps_loops t j) = Some r \<longrightarrow> outcome_of (ps_loops s j) = Some r)
    \<or> (\<exists>i m r. i < length (Projects (w_cfg w)) \<and> ps_loops s i = GRun LSelect
         \<and> srv_machines (ps_server s) (pc_name (Projects (w_cfg w) ! i)) = Some m
         \<and> CurrentState m = StateBackingUp \<and> ps_loops t = (ps_loops s)(i := GRun (LFinish r))
         \<and> checkpoint_run (w_cfg w) (w_dryRun w) (Projects (w_cfg w) ! i) (ps_store s) (ps_store t) r)"
  using assms
proof cases
  case (loops f)
  obtain pub where "fleet_move (loops_of (w_cfg w) (w_dryRun w) (w_immediate w) pub (w_f2i w)) (fleet_of s) f"
    using loops(3) loops_now_shape [of w s] by metis
  from fleet_move_store [OF this] show ?thesis
    by (simp add: loops(1) put_fleet_def fleet_of_def)
next
  case (answer r q)
  then show ?thesis by (simp add: respond_def split: prod.split)
next
  case (emit ev)
  then show ?thesis by (simp add: emit_done_def Let_def)
next
  case (exports X iter os)
  then show ?thesis by (auto simp: export_tick_def)
qed simp_all

text \<open>
  Every outcome a goroutine still holds comes from a checkpoint of its project, and its archive directory is as that checkpoint left it.
\<close>

definition archives_ok :: "('b, 'v) wiring \<Rightarrow> ('b, 'e, 'c, 's, 'y) process \<Rightarrow> bool" where
  "archives_ok w s \<longleftrightarrow> store_ok (ps_store s)
     \<and> (\<forall>j r. j < length (Projects (w_cfg w)) \<longrightarrow> outcome_of (ps_loops s j) = Some r \<longrightarrow>
          (\<exists>st st'. store_ok st \<and> checkpoint_run (w_cfg w) (w_dryRun w) (Projects (w_cfg w) ! j) st st' r
             \<and> ps_store s (archiveDir (w_cfg w) (Projects (w_cfg w) ! j)) = st' (archiveDir (w_cfg w) (Projects (w_cfg w) ! j))))"

lemma archives_okD:
  assumes "archives_ok w s" and "j < length (Projects (w_cfg w))" and "outcome_of (ps_loops s j) = Some r"
  obtains st st' where "store_ok st" "checkpoint_run (w_cfg w) (w_dryRun w) (Projects (w_cfg w) ! j) st st' r"
    "ps_store s (archiveDir (w_cfg w) (Projects (w_cfg w) ! j)) = st' (archiveDir (w_cfg w) (Projects (w_cfg w) ! j))"
  using assms unfolding archives_ok_def by meson

lemma archives_okI:
  assumes "store_ok (ps_store s)"
    and "\<And>j r. j < length (Projects (w_cfg w)) \<Longrightarrow> outcome_of (ps_loops s j) = Some r \<Longrightarrow>
      \<exists>st st'. store_ok st \<and> checkpoint_run (w_cfg w) (w_dryRun w) (Projects (w_cfg w) ! j) st st' r
        \<and> ps_store s (archiveDir (w_cfg w) (Projects (w_cfg w) ! j)) = st' (archiveDir (w_cfg w) (Projects (w_cfg w) ! j))"
  shows "archives_ok w s"
  using assms unfolding archives_ok_def by blast

lemma archives_step_ok:
  assumes "distinct (map pc_name (Projects (w_cfg w)))" and "\<forall>q \<in> set (Projects (w_cfg w)). name_ok (pc_name q)"
    and "archives_ok w s" and "process_step w s t"
  shows "archives_ok w t"
  using process_step_store [OF assms(4)]
proof (elim disjE exE conjE)
  fix i m r
  let ?P = "Projects (w_cfg w)"
  assume i: "i < length ?P" and loops: "ps_loops t = (ps_loops s)(i := GRun (LFinish r))"
    and run: "checkpoint_run (w_cfg w) (w_dryRun w) (?P ! i) (ps_store s) (ps_store t) r"
  have name: "name_ok (pc_name (?P ! i))" and st: "store_ok (ps_store s)" using assms(2,3) i by (simp_all add: archives_ok_def)
  have same: "ps_store t (archiveDir (w_cfg w) (?P ! j)) = ps_store s (archiveDir (w_cfg w) (?P ! j))" if "j < length ?P" "j \<noteq> i" for j
    using checkpoint_run_elsewhere [OF run name st] archiveDirs_apart [OF assms(1,2) that(1) i] that(2) by blast
  show ?thesis
  proof (rule archives_okI)
    show "store_ok (ps_store t)" by (rule checkpoint_run_store_ok [OF run name st])
  next
    fix j r'
    assume j: "j < length ?P" "outcome_of (ps_loops t j) = Some r'"
    show "\<exists>st st'. store_ok st \<and> checkpoint_run (w_cfg w) (w_dryRun w) (?P ! j) st st' r'
        \<and> ps_store t (archiveDir (w_cfg w) (?P ! j)) = st' (archiveDir (w_cfg w) (?P ! j))"
    proof (cases "j = i")
      case True
      then have "r' = r" using j(2) by (simp add: loops outcome_of_def)
      then show ?thesis using st run True by blast
    next
      case False
      then have "outcome_of (ps_loops s j) = Some r'" using j(2) by (simp add: loops)
      then show ?thesis using archives_okD [OF assms(3) j(1)] same [OF j(1) False] by metis
    qed
  qed
qed (use assms(3) in \<open>auto simp: archives_ok_def\<close>)

lemma process_archives_ok:
  assumes "runDaemon h dryRun immediate = Some (Inr (w, p))" and "\<forall>q \<in> set (Projects (w_cfg w)). name_ok (pc_name q)"
    and "store_ok (h_store h)" and "reachable ((=) p) (process_step w) s"
  shows "archives_ok w s \<and> w_dryRun w = dryRun \<and> distinct (map pc_name (Projects (w_cfg w)))"
  using assms(1)
proof (rule runDaemon_started)
  assume L: "Load (h_viper h) (h_osenv h) (h_viperRead h) (h_readDir h) = Inr (w_cfg w)" and dry: "w_dryRun w = dryRun"
    and st: "ps_store p = h_store h" "ps_loops p = (\<lambda>i. GStart)"
  note names = Load_distinct [OF L]
  have "archives_ok w p" using assms(3) by (simp add: archives_ok_def st outcome_of_def)
  then have "invariant_system ((=) p) (process_step w) (archives_ok w)"
    by (intro invariant_system.intro) (use archives_step_ok [OF names assms(2)] in blast)+
  then have "archives_ok w s" using assms(4) by (rule invariant_system.reachable_inv)
  then show ?thesis using dry names by simp
qed

lemma success_on_disk:
  assumes "runDaemon h dryRun immediate = Some (Inr (w, p))" and "\<not> dryRun" and "\<forall>q \<in> set (Projects (w_cfg w)). name_ok (pc_name q)"
    and "\<forall>d es. h_store h d = Some es \<longrightarrow> listing_ok es" and "reachable ((=) p) (process_step w) s"
    and "j < length (Projects (w_cfg w))" and "outcome_of (ps_loops s j) = Some (Inr res)"
  shows "fp_dir (ArchivePath res) = archiveDir (w_cfg w) (Projects (w_cfg w) ! j) \<and> hasSuffix (fp_base (ArchivePath res)) ''.tgz''
    \<and> (\<exists>es. ps_store s (archiveDir (w_cfg w) (Projects (w_cfg w) ! j)) = Some es
        \<and> on_disk (MaxArchives (pc_backup (Projects (w_cfg w) ! j))) (Exclude (pc_backup (Projects (w_cfg w) ! j))) (fp_base (ArchivePath res)) es)"
proof -
  have "store_ok (h_store h)" using assms(4) by (simp add: store_ok_def)
  note inv = process_archives_ok [OF assms(1,3) this assms(5)]
  let ?p = "Projects (w_cfg w) ! j"
  obtain st st' where st: "store_ok st" "checkpoint_run (w_cfg w) False ?p st st' (Inr res)"
    "ps_store s (archiveDir (w_cfg w) ?p) = st' (archiveDir (w_cfg w) ?p)"
    using archives_okD [OF conjunct1 [OF inv] assms(6,7)] inv assms(2) by metis
  have "name_ok (pc_name ?p)" using assms(3,6) by simp
  from checkpoint_run_success [OF st(2) this st(1)] st(3) show ?thesis by simp
qed

section \<open>Properties\<close>

text \<open>
  C13: In the running daemon a directory under the backup root changes only when a project that owns it, and no other does, runs a checkpoint: its machine is
  backing up, its goroutine was waiting and now holds the outcome. What is not a \<^verbatim>\<open>.tgz\<close> name stays. No request, no
  other project, no start-up, tick or shutdown touches an archive, and a dry run touches none at all. Project names are taken to be
  names of directory entries, as are the names already found under the root.
\<close>

theorem archives_change_only_by_own_checkpoint:
  assumes "runDaemon h dryRun immediate = Some (Inr (w, p))" and "\<forall>q \<in> set (Projects (w_cfg w)). name_ok (pc_name q)"
    and "\<forall>d es. h_store h d = Some es \<longrightarrow> listing_ok es" and "reachable ((=) p) (process_step w) s"
    and "process_step w s t" and "ps_store t d \<noteq> ps_store s d"
  shows "\<not> dryRun
    \<and> (\<exists>!i. i < length (Projects (w_cfg w)) \<and> d = fp_join [BackupsRoot (System (w_cfg w)), pc_name (Projects (w_cfg w) ! i)])
    \<and> (\<exists>i m r. i < length (Projects (w_cfg w)) \<and> d = fp_join [BackupsRoot (System (w_cfg w)), pc_name (Projects (w_cfg w) ! i)]
         \<and> ps_loops s i = GRun LSelect \<and> ps_loops t i = GRun (LFinish r)
         \<and> srv_machines (ps_server s) (pc_name (Projects (w_cfg w) ! i)) = Some m \<and> CurrentState m = StateBackingUp)
    \<and> (\<exists>es'. ps_store t d = Some es'
         \<and> (\<forall>es e. ps_store s d = Some es \<longrightarrow> e \<in> set es \<longrightarrow> \<not> hasSuffix (fst e) ''.tgz'' \<longrightarrow> e \<in> set es'))"
proof -
  have "store_ok (h_store h)" using assms(3) by (simp add: store_ok_def)
  note inv = process_archives_ok [OF assms(1,2) this assms(4)]
  let ?P = "Projects (w_cfg w)"
  from process_step_store [OF assms(5)] show ?thesis
  proof (elim disjE exE conjE)
    fix i m r
    assume i: "i < length ?P" and step: "ps_loops s i = GRun LSelect" "ps_loops t = (ps_loops s)(i := GRun (LFinish r))"
      "srv_machines (ps_server s) (pc_name (?P ! i)) = Some m" "CurrentState m = StateBackingUp"
      and run: "checkpoint_run (w_cfg w) (w_dryRun w) (?P ! i) (ps_store s) (ps_store t) r"
    have "name_ok (pc_name (?P ! i))" "store_ok (ps_store s)" using assms(2) i inv by (simp_all add: archives_ok_def)
    note frame = checkpoint_run_frame [OF run this] and else = checkpoint_run_elsewhere [OF run this]
    have d: "d = archiveDir (w_cfg w) (?P ! i)" using else assms(6) by blast
    then have "\<exists>!i. i < length ?P \<and> d = archiveDir (w_cfg w) (?P ! i)"
      using i archiveDirs_apart [OF _ assms(2)] inv by (intro ex1I [of _ i]) auto
    moreover have "\<not> dryRun \<and> (\<exists>es'. ps_store t d = Some es' \<and> (\<forall>es. ps_store s d = Some es \<longrightarrow> keeps_others es es'))"
      using frame assms(6) inv d by auto
    moreover have "ps_loops t i = GRun (LFinish r)" using step(2) by simp
    ultimately show ?thesis using i d step unfolding archiveDir_def keeps_others_def by blast
  qed (use assms(6) in simp)
qed


section \<open>A sample checkpoint\<close>

abbreviation sample_project :: ProjectConfig where
  "sample_project \<equiv> Projects sample_cfg ! 0"

lemma sample_project_facts: "pc_name sample_project = ''obs''" "length (Projects sample_cfg) = 1"
  "\<forall>q \<in> set (Projects sample_cfg). name_ok (pc_name q)"
  by code_simp+

definition sample_sources :: fsnode where
  "sample_sources = plain_dir [(''main.go'', plain_file RegularFile ''package main''), (''.git'', plain_dir [])]"

lemma sample_sources_input: "checkpoint_input sample_env (Inr sample_sources)"
  by code_simp

definition sample_outcome :: "store \<times> (CheckpointError + CheckpointResult)" where
  "sample_outcome = CreateCheckpoint sample_env ''obs'' (Inr sample_sources) (BackupsRoot (System sample_cfg))
     (MaxArchives (pc_backup sample_project)) (Exclude (pc_backup sample_project)) False (\<lambda>_. None)"

lemma sample_outcome_ok: "\<not> isl (snd sample_outcome)" "fst sample_outcome (archiveDir sample_cfg sample_project) \<noteq> None"
  by code_simp+

lemma sample_backup:
  obtains w p s t res where "runDaemon sample_host False True = Some (Inr (w, p))" "w_cfg w = sample_cfg"
    "reachable ((=) p) (process_step w) s" "process_step w s t" "ps_store s = (\<lambda>_. None)" "ps_store t = fst sample_outcome"
    "ps_loops t 0 = GRun (LFinish (Inr res))" "snd sample_outcome = Inr res"
proof -
  obtain w p where run: "runDaemon sample_host False True = Some (Inr (w, p))" using runDaemon_returns [OF sample_loads, of False True] by auto
  obtain res where res: "snd sample_outcome = Inr res" using sample_outcome_ok(1) by (cases "snd sample_outcome") auto
  show thesis
    using run
  proof (rule runDaemon_started)
    assume L: "Load (h_viper sample_host) (h_osenv sample_host) (h_viperRead sample_host) (h_readDir sample_host) = Inr (w_cfg w)"
      and f: "w_dryRun w = False" "w_immediate w = True"
      and p: "ps_phase p = Serving" "ps_closed p = {}" "ps_store p = h_store sample_host" "ps_loops p = (\<lambda>i. GStart)"
    have cfg: "w_cfg w = sample_cfg" using L sample_loads by simp
    define c where "c = loopcfg_of sample_cfg False True (w_publisher w) (w_f2i w) sample_project"
    have loops: "loops_now w u ! 0 = c" "0 < length (loops_now w u)" if "ps_closed u = {}" for u :: "(_, _, _, _, _) process"
      using that sample_project_facts(2) by (simp add: loops_now_def cfg f loops_of_nth c_def)
        (use that sample_project_facts(2) in \<open>simp add: loops_now_def cfg f loops_of_def del: length_0_conv\<close>)
    have c: "lc_name c = ''obs''" "lc_immediate c" by (simp_all add: c_def loopcfg_of_def sample_project_facts)
    obtain now where m: "fl_machines (fleet_of p) ''obs'' = Some (NewMachine ''obs'' now)"
    proof -
      have "c \<in> set (loops_of (w_cfg w) (w_dryRun w) (w_immediate w) (w_publisher w) (w_f2i w))"
        using nth_mem [OF loops(2) [OF p(2)]] loops(1) [OF p(2)] by (simp add: loops_now_def p(2))
      then have "\<exists>now. fl_machines (fleet_of p) (lc_name c) = Some (NewMachine (lc_name c) now)"
        using started_fleet [OF run] unfolding fleet_init_def by blast
      then show thesis using that by (auto simp: c(1))
    qed
    define v1 where "v1 = on_machine c fixed_reading EventTriggerBackup (view_of (NewMachine ''obs'' now) LSelect (fleet_of p))"
    define f1 where "f1 = put_view 0 ''obs'' v1 (fleet_of p)"
    define s1 where "s1 = put_fleet f1 p"
    have "loop_start (\<lambda>_. Some 1) c (Inr True) fixed_reading (view_of (NewMachine ''obs'' now) LSelect (fleet_of p)) = Some (v1, 1)"
      by (simp add: loop_start_def v1_def c(2))
    then have "fleet_move (loops_now w p) (fleet_of p) f1"
      unfolding f1_def using start_loop [of 0 "loops_now w p" "fleet_of p"] loops [OF p(2)] c(1) m p(4) by (simp add: fleet_of_def)
    then have "process_step w p s1" unfolding s1_def by (rule process_step.loops [rotated]) (simp add: running_def p)
    then have r1: "reachable ((=) p) (process_step w) s1" by (rule reach_step [OF reach_start, rotated]) simp
    have fl1: "fleet_of s1 = f1"
      unfolding s1_def by (rule fleet_of_put) (simp_all add: p f1_def put_view_def fleet_of_def)
    have s1: "ps_closed s1 = {}" "ps_phase s1 = Serving" "ps_store s1 = (\<lambda>_. None)"
      by (simp_all add: s1_def put_fleet_def f1_def put_view_def fleet_of_def p v1_def view_of_def sample_host_def)
    define m1 where "m1 = ls_machine v1"
    have m1: "CurrentState m1 = StateBackingUp" by (simp add: m1_def v1_def view_of_def Transition_def NewMachine_def)
    define v2 where "v2 = eval_tick c sample_env (Inr sample_sources) (view_of m1 LSelect f1)"
    define f2 where "f2 = put_view 0 ''obs'' v2 f1"
    have st1: "fl_store f1 = (\<lambda>_. None)" using s1(3) by (simp add: fl1 [symmetric] fleet_of_def)
    have v2: "ls_store v2 = fst sample_outcome" "ls_pc v2 = LFinish (Inr res)"
      using m1 res by (simp_all add: v2_def eval_tick_def GetState_def view_of_def st1 c_def loopcfg_of_def sample_project_facts
          sample_outcome_def case_prod_beta)
    have "loop_move c (view_of m1 LSelect f1) v2"
      unfolding v2_def by (rule eval) (simp_all add: view_of_def sample_sources_input)
    then have "fleet_move (loops_now w s1) (fleet_of s1) f2"
      unfolding f2_def fl1 using move_loop [of 0 "loops_now w s1" f1 LSelect m1 v2] loops [OF s1(1)] c(1)
      by (simp add: f1_def put_view_def m1_def v1_def view_of_def)
    then have step: "process_step w s1 (put_fleet f2 s1)" by (rule process_step.loops [rotated]) (simp add: running_def s1)
    have "ps_store (put_fleet f2 s1) = fst sample_outcome" "ps_loops (put_fleet f2 s1) 0 = GRun (LFinish (Inr res))"
      by (simp_all add: put_fleet_def f2_def put_view_def v2)
    then show thesis using that [OF run cfg r1 step s1(3) _ _ res] by blast
  qed
qed

theorem archives_change_only_by_own_checkpoint_witness:
  "\<exists>w p s t i r. runDaemon sample_host False True = Some (Inr (w, p)) \<and> reachable ((=) p) (process_step w) s \<and> process_step w s t
     \<and> ps_store t (archiveDir sample_cfg sample_project) \<noteq> ps_store s (archiveDir sample_cfg sample_project)
     \<and> ps_loops s i = GRun LSelect \<and> ps_loops t i = GRun (LFinish r)"
proof (rule sample_backup)
  fix w p s t
  assume w: "runDaemon sample_host False True = Some (Inr (w, p))" "w_cfg w = sample_cfg"
    "reachable ((=) p) (process_step w) s" "process_step w s t" and st: "ps_store s = (\<lambda>_. None)" "ps_store t = fst sample_outcome"
  have changed: "ps_store t (archiveDir sample_cfg sample_project) \<noteq> ps_store s (archiveDir sample_cfg sample_project)"
    using sample_outcome_ok(2) by (simp add: st)
  have "\<forall>d es. h_store sample_host d = Some es \<longrightarrow> listing_ok es" by (simp add: sample_host_def)
  from archives_change_only_by_own_checkpoint [OF w(1) _ this w(3,4) changed] sample_project_facts(3) w changed
  show ?thesis by (auto simp: w(2))
qed


end
