(* ===== verification/Surface.thy ===== *)
theory Surface
  imports Archives
begin

text \<open>
  The acceptance drive of the control surface, \<^verbatim>\<open>test/integration/control_surface.go\<close>: the client that asks a running daemon for every
  documented route and says what it expects of each. The daemon is a transport, an argument; the daemon of \<open>Server\<close> and \<open>Lifecycle\<close>
  is then put behind it, and the drive is shown to pass.
\<close>

section \<open>What the drive expects and what it reads\<close>

record surfaceExpect =
  cleanPath :: string
  dirtyPath :: string
  apiserverReachable :: bool
  wantModel :: string
  skillsEnabled :: bool
  controlToken :: string
  backupsDir :: string

record rosterProject =
  ro_Name :: string
  ro_Path :: string
  ro_Essential :: bool
  ro_DeployKind :: string
  ro_DeployDeployment :: string

definition zero_roster :: rosterProject where
  "zero_roster = \<lparr>ro_Name = [], ro_Path = [], ro_Essential = False, ro_DeployKind = [], ro_DeployDeployment = []\<rparr>"

record gitProject =
  gp_Dirty :: bool
  gp_Unpushed :: int

definition zero_gitProject :: gitProject where
  "zero_gitProject = \<lparr>gp_Dirty = False, gp_Unpushed = 0\<rparr>"

text \<open>
  The structs the subtests decode into: health (status, number of projects), readiness (named checks), discovery (status, the models of
  each source), the roster, git states, one git state, the names of services and of tools. \<open>'j\<close> is the body of a reply on the
  wire; each field is \<^verbatim>\<open>json.Decoder\<close> at one of those types, and \<open>dj_text\<close> reads the body as it is.
\<close>

record 'j decoders =
  dj_text :: "'j \<Rightarrow> string"
  dj_health :: "'j \<Rightarrow> string + string \<times> int"
  dj_ready :: "'j \<Rightarrow> string + (string \<times> bool) list"
  dj_discovery :: "'j \<Rightarrow> string + string \<times> string list list"
  dj_roster :: "'j \<Rightarrow> string + rosterProject list"
  dj_git :: "'j \<Rightarrow> string + (string \<times> gitProject) list"
  dj_projectGit :: "'j \<Rightarrow> string + bool"
  dj_services :: "'j \<Rightarrow> string + string list"
  dj_tools :: "'j \<Rightarrow> string + string list"

text \<open>A failure is known by its format. \<^verbatim>\<open>t.Fatalf\<close> ends the subtest, \<^verbatim>\<open>t.Errorf\<close> does not.\<close>

datatype failure = Errorf string | Fatalf string

type_synonym ('w, 'j) transport = "request \<Rightarrow> 'w \<Rightarrow> 'w \<times> (string + nat \<times> 'j)"

definition failing :: "bool \<Rightarrow> string \<Rightarrow> failure list" where
  "failing bad fmt = (if bad then [Errorf fmt] else [])"

definition checked :: "'w \<times> (failure + 'a) \<Rightarrow> ('a \<Rightarrow> failure list) \<Rightarrow> 'w \<times> failure list" where
  "checked r f = (case r of (w, Inl e) \<Rightarrow> (w, [e]) | (w, Inr x) \<Rightarrow> (w, f x))"

text \<open>A Go map filled by a loop over pairs: the last of a key stays, a missing key reads the zero value.\<close>

definition go_map :: "(string \<times> 'a) list \<Rightarrow> string \<Rightarrow> 'a option" where
  "go_map kvs = map_of (rev kvs)"

definition go_len :: "(string \<times> 'a) list \<Rightarrow> nat" where
  "go_len kvs = length (remdups (map fst kvs))"

definition go_get :: "'a \<Rightarrow> (string \<times> 'a) list \<Rightarrow> string \<Rightarrow> 'a" where
  "go_get zero kvs k = (case go_map kvs k of None \<Rightarrow> zero | Some v \<Rightarrow> v)"

section \<open>The HTTP helpers\<close>

text \<open>A URL is written without the base, which only chooses the daemon.\<close>

definition newRequest :: "string \<Rightarrow> string \<Rightarrow> bytes \<Rightarrow> request" where
  "newRequest method url body =
     \<lparr>rq_method = method, rq_path = path_segments url, rq_authorization = [], rq_query_type = [], rq_body = body\<rparr>"

definition setBearer :: "string \<Rightarrow> request \<Rightarrow> request" where
  "setBearer bearer req = (if bearer \<noteq> [] then req\<lparr>rq_authorization := ''Bearer '' @ bearer\<rparr> else req)"

definition mustGetJSON :: "('w, 'j) transport \<Rightarrow> ('j \<Rightarrow> string + 'a) \<Rightarrow> string \<Rightarrow> nat \<Rightarrow> 'w \<Rightarrow> 'w \<times> (failure + 'a)" where
  "mustGetJSON client dec url wantStatus w =
     (case client (newRequest ''GET'' url []) w of
        (w', Inl err) \<Rightarrow> (w', Inl (Fatalf ''GET %s: %v''))
      | (w', Inr (status, body)) \<Rightarrow>
          (w', if status \<noteq> wantStatus then Inl (Fatalf ''GET %s = %d, want %d; body %.200q'')
               else case dec body of Inl err \<Rightarrow> Inl (Fatalf ''decode %s: %v'') | Inr v \<Rightarrow> Inr v))"

definition getJSONAnyStatus :: "('w, 'j) transport \<Rightarrow> ('j \<Rightarrow> string + 'a) \<Rightarrow> string \<Rightarrow> 'w \<Rightarrow> 'w \<times> (failure + 'a)" where
  "getJSONAnyStatus client dec url w =
     (case client (newRequest ''GET'' url []) w of
        (w', Inl err) \<Rightarrow> (w', Inl (Fatalf ''GET %s: %v''))
      | (w', Inr (status, body)) \<Rightarrow>
          (w', case dec body of Inl err \<Rightarrow> Inl (Fatalf ''decode %s: %v'') | Inr v \<Rightarrow> Inr v))"

definition getRaw :: "('w, 'j) transport \<Rightarrow> string \<Rightarrow> 'w \<Rightarrow> 'w \<times> (failure + 'j \<times> nat)" where
  "getRaw client url w =
     (case client (newRequest ''GET'' url []) w of
        (w', Inl err) \<Rightarrow> (w', Inl (Fatalf ''GET %s: %v''))
      | (w', Inr (status, body)) \<Rightarrow> (w', Inr (body, status)))"

definition putBody :: "('w, 'j) transport \<Rightarrow> string \<Rightarrow> bytes \<Rightarrow> string \<Rightarrow> 'w \<Rightarrow> 'w \<times> (failure + 'j \<times> nat)" where
  "putBody client url body bearer w =
     (case client (setBearer bearer (newRequest ''PUT'' url body)) w of
        (w', Inl err) \<Rightarrow> (w', Inl (Fatalf ''PUT %s: %v''))
      | (w', Inr (status, b)) \<Rightarrow> (w', Inr (b, status)))"

definition postBody :: "('w, 'j) transport \<Rightarrow> string \<Rightarrow> bytes \<Rightarrow> string \<Rightarrow> 'w \<Rightarrow> 'w \<times> (failure + nat)" where
  "postBody client url body bearer w =
     (case client (setBearer bearer (newRequest ''POST'' url body)) w of
        (w', Inl err) \<Rightarrow> (w', Inl (Fatalf ''POST %s: %v''))
      | (w', Inr (status, b)) \<Rightarrow> (w', Inr status))"

definition fetchRoster :: "('w, 'j) transport \<Rightarrow> 'j decoders \<Rightarrow> 'w \<Rightarrow> 'w \<times> (failure + (string \<times> rosterProject) list)" where
  "fetchRoster client J w =
     (case mustGetJSON client (dj_roster J) ''/projects'' 200 w of
        (w', Inl e) \<Rightarrow> (w', Inl e)
      | (w', Inr ps) \<Rightarrow> (w', Inr (map (\<lambda>p. (ro_Name p, p)) ps)))"

definition fetchGitAll :: "('w, 'j) transport \<Rightarrow> 'j decoders \<Rightarrow> 'w \<Rightarrow> 'w \<times> (failure + (string \<times> gitProject) list)" where
  "fetchGitAll client J w = mustGetJSON client (dj_git J) ''/git'' 200 w"

text \<open>
  The wait for an archive: \<open>polls\<close> are the readings of the directory that fit before the deadline, and an entry is its name, whether it is a directory
  and the size \<^verbatim>\<open>Info\<close> reports, if it does.
\<close>

type_synonym 'w disk = "string \<Rightarrow> 'w \<Rightarrow> 'w \<times> (string + (string \<times> bool \<times> int option) list)"

definition is_checkpoint :: "string \<times> bool \<times> int option \<Rightarrow> bool" where
  "is_checkpoint e \<longleftrightarrow>
     (case e of (name, dir, sz) \<Rightarrow> \<not> dir \<and> hasSuffix name ''.tgz'' \<and> (case sz of None \<Rightarrow> False | Some n \<Rightarrow> 0 < n))"

fun waitForBackupArchive :: "'w disk \<Rightarrow> string \<Rightarrow> nat \<Rightarrow> 'w \<Rightarrow> 'w \<times> failure list" where
  "waitForBackupArchive readDir dir 0 w = (w, [Fatalf ''no checkpoint .tgz appeared under %s within %s''])"
| "waitForBackupArchive readDir dir (Suc polls) w =
     (case readDir dir w of
        (w', Inr entries) \<Rightarrow> if list_ex is_checkpoint entries then (w', []) else waitForBackupArchive readDir dir polls w'
      | (w', Inl err) \<Rightarrow> waitForBackupArchive readDir dir polls w')"

section \<open>The subtests\<close>

type_synonym 'w subtest = "'w \<Rightarrow> 'w \<times> failure list"

definition test_health :: "('w, 'j) transport \<Rightarrow> 'j decoders \<Rightarrow> 'w subtest" where
  "test_health client J w =
     checked (mustGetJSON client (dj_health J) ''/health'' 200 w) (\<lambda>(status, activeProjects).
       failing (status \<noteq> ''ok'') ''status = %q, want ok''
       @ failing (activeProjects \<noteq> 2) ''active_projects = %d, want 2'')"

definition test_readyz :: "('w, 'j) transport \<Rightarrow> 'j decoders \<Rightarrow> surfaceExpect \<Rightarrow> 'w subtest" where
  "test_readyz client J expect w =
     checked (getJSONAnyStatus client (dj_ready J) ''/readyz'' w) (\<lambda>checks.
       failing (go_map checks ''roots_readable'' \<noteq> Some True) ''roots_readable = %v (present=%v), want true''
       @ failing (go_map checks ''apiserver_reachable'' \<noteq> Some (apiserverReachable expect)) ''apiserver_reachable = %v, want %v'')"

definition test_metrics :: "('w, 'j) transport \<Rightarrow> 'j decoders \<Rightarrow> 'w subtest" where
  "test_metrics client J w =
     checked (getRaw client ''/metrics'' w) (\<lambda>(body, status).
       if status \<noteq> 200 then [Fatalf ''status = %d, want 200'']
       else failing (dj_text J body \<noteq> [] \<and> \<not> containsSub (dj_text J body) ''#'') ''non-empty body is not prometheus exposition: %.120q'')"

definition test_discovery :: "('w, 'j) transport \<Rightarrow> 'j decoders \<Rightarrow> surfaceExpect \<Rightarrow> 'w subtest" where
  "test_discovery client J expect w =
     checked (mustGetJSON client (dj_discovery J) ''/discovery/llms'' 200 w) (\<lambda>(status, sources).
       failing (status \<noteq> ''ok'') ''status = %q, want ok''
       @ failing (wantModel expect \<noteq> [] \<and> \<not> list_ex (\<lambda>models. wantModel expect \<in> set models) sources)
           ''/discovery/llms did not report mocked model %q: %+v'')"

definition test_projects :: "('w, 'j) transport \<Rightarrow> 'j decoders \<Rightarrow> surfaceExpect \<Rightarrow> 'w subtest" where
  "test_projects client J expect w =
     checked (fetchRoster client J w) (\<lambda>p.
       if go_len p \<noteq> 2 then [Fatalf ''roster has %d projects, want 2'']
       else
         let clean = go_get zero_roster p ''fake-clean''; dirty = go_get zero_roster p ''fake-dirty''
         in failing (\<not> ro_Essential clean) ''fake-clean essential = false, want true''
            @ failing (ro_DeployKind clean \<noteq> ''kube'' \<or> ro_DeployDeployment clean \<noteq> ''fake-clean-agg'') ''fake-clean deploy block not carried: %+v''
            @ failing (ro_Path clean \<noteq> cleanPath expect) ''fake-clean path = %q, want %q''
            @ failing (ro_Essential dirty) ''fake-dirty essential = true, want false'')"

definition test_git :: "('w, 'j) transport \<Rightarrow> 'j decoders \<Rightarrow> 'w subtest" where
  "test_git client J w =
     checked (fetchGitAll client J w) (\<lambda>g.
       if go_len g \<noteq> 2 then [Fatalf ''/git has %d projects, want 2'']
       else failing (gp_Dirty (go_get zero_gitProject g ''fake-clean'')) ''fake-clean dirty, want clean''
         @ failing (\<not> gp_Dirty (go_get zero_gitProject g ''fake-dirty'')) ''fake-dirty clean, want dirty''
         @ failing (gp_Unpushed (go_get zero_gitProject g ''fake-dirty'') < 1) ''fake-dirty unpushed = %d, want >= 1'')"

definition test_projectGit :: "('w, 'j) transport \<Rightarrow> 'j decoders \<Rightarrow> 'w subtest" where
  "test_projectGit client J w =
     checked (mustGetJSON client (dj_projectGit J) ''/projects/fake-dirty/git'' 200 w) (\<lambda>dirty.
       failing (\<not> dirty) ''fake-dirty single git not dirty: %+v'')"

text \<open>The routes of which only the status is asked.\<close>

definition test_status :: "('w, 'j) transport \<Rightarrow> string \<Rightarrow> nat \<Rightarrow> string \<Rightarrow> 'w subtest" where
  "test_status client url want fmt w = checked (getRaw client url w) (\<lambda>(body, status). failing (status \<noteq> want) fmt)"

definition disable_body :: bytes where
  \<open>disable_body = ''{"state":"disabled","reason":"integration test","actor":"itest"}''\<close>

definition test_statePut :: "('w, 'j) transport \<Rightarrow> 'j decoders \<Rightarrow> surfaceExpect \<Rightarrow> 'w subtest" where
  "test_statePut client J expect w =
     checked (putBody client ''/state/fake-clean'' disable_body (controlToken expect) w) (\<lambda>(resp, status).
       if status \<noteq> 200 then [Fatalf ''PUT /state/fake-clean = %d, want 200; body %.200q'']
       else failing (\<not> containsSub (dj_text J resp) ''disabled'') ''stored record does not reflect the disable: %.200q'')"

definition test_services :: "('w, 'j) transport \<Rightarrow> 'j decoders \<Rightarrow> 'w subtest" where
  "test_services client J w =
     checked (mustGetJSON client (dj_services J) ''/services'' 200 w) (\<lambda>names.
       failing (''fake-clean'' \<notin> set names \<or> ''fake-dirty'' \<notin> set names) ''composed roster missing a project: %+v'')"

definition test_register :: "('w, 'j) transport \<Rightarrow> surfaceExpect \<Rightarrow> 'w subtest" where
  "test_register client expect w =
     checked (postBody client ''/register'' ''{}'' (controlToken expect) w) (\<lambda>status.
       failing (status = 200) ''POST /register = 200 with no schema registry; want a fail-closed error status'')"

definition test_reset :: "('w, 'j) transport \<Rightarrow> surfaceExpect \<Rightarrow> 'w subtest" where
  "test_reset client expect w =
     checked (postBody client ''/projects/fake-dirty/reset'' [] (controlToken expect) w) (\<lambda>status.
       failing (status \<noteq> 200) ''POST /projects/fake-dirty/reset = %d, want 200'')"

definition tools_body :: bytes where
  \<open>tools_body = ''{"jsonrpc":"2.0","id":1,"method":"tools/list"}''\<close>

definition own_tools :: "string list" where
  "own_tools = [''delightd_furnish_up'', ''delightd_furnish_health'', ''delightd_trigger_backup'']"

definition test_mcp :: "('w, 'j) transport \<Rightarrow> 'j decoders \<Rightarrow> surfaceExpect \<Rightarrow> 'w subtest" where
  "test_mcp client J expect w =
     (if \<not> skillsEnabled expect then
        checked (postBody client ''/mcp'' ''{}'' (controlToken expect) w) (\<lambda>status.
          failing (status \<noteq> 404) ''POST /mcp = %d, want 404 (route unregistered when skills disabled)'')
      else
        (case client (setBearer (controlToken expect) (newRequest ''POST'' ''/mcp'' tools_body)) w of
           (w', Inl err) \<Rightarrow> (w', [Fatalf ''POST /mcp: %v''])
         | (w', Inr (status, body)) \<Rightarrow>
             (w', case dj_tools J body of
                    Inl err \<Rightarrow> [Fatalf ''decode tools/list: %v'']
                  | Inr names \<Rightarrow>
                      concat (map (\<lambda>want. failing (want \<notin> set names)
                        ''tools/list missing %s -- an agent cannot drive delightd in the container: %v'') own_tools))))"

definition test_backup :: "('w, 'j) transport \<Rightarrow> 'w disk \<Rightarrow> nat \<Rightarrow> surfaceExpect \<Rightarrow> 'w subtest" where
  "test_backup client readDir polls expect w =
     (case postBody client ''/projects/fake-dirty/backup'' [] (controlToken expect) w of
        (w', Inl e) \<Rightarrow> (w', [e])
      | (w', Inr status) \<Rightarrow>
          if status \<noteq> 200 then (w', [Fatalf ''POST /projects/fake-dirty/backup = %d, want 200''])
          else waitForBackupArchive readDir (fp_join [backupsDir expect, ''fake-dirty'']) polls w')"

text \<open>\<^verbatim>\<open>t.Run\<close> one after the other; a failed subtest does not keep the next from running.\<close>

fun run_subtests :: "(string \<times> 'w subtest) list \<Rightarrow> 'w \<Rightarrow> 'w \<times> (string \<times> failure list) list" where
  "run_subtests [] w = (w, [])"
| "run_subtests ((name, test) # tests) w =
     (case test w of (w1, fs) \<Rightarrow> case run_subtests tests w1 of (w2, rest) \<Rightarrow> (w2, (name, fs) # rest))"

definition surface_reads :: "('w, 'j) transport \<Rightarrow> 'j decoders \<Rightarrow> surfaceExpect \<Rightarrow> (string \<times> 'w subtest) list" where
  "surface_reads client J expect =
     [(''GET /health'', test_health client J), (''GET /readyz'', test_readyz client J expect), (''GET /metrics'', test_metrics client J),
      (''GET /discovery/llms'', test_discovery client J expect), (''GET /projects'', test_projects client J expect),
      (''GET /git'', test_git client J), (''GET /projects/{name}/git'', test_projectGit client J),
      (''GET /projects/{name}/state'', test_status client ''/projects/fake-dirty/state'' 200 ''status = %d, want 200''),
      (''GET /projects/{name}/introspect'', test_status client ''/projects/fake-dirty/introspect'' 200 ''status = %d, want 200''),
      (''GET /state'', test_status client ''/state'' 200 ''status = %d, want 200''),
      (''GET /state/{name}'', test_status client ''/state/fake-clean'' 200 ''status = %d, want 200''),
      (''PUT /state/{name}'', test_statePut client J expect), (''GET /services'', test_services client J),
      (''GET /services/{name}'', test_status client ''/services/fake-clean'' 200 ''status = %d, want 200''),
      (''GET /resolve/{name}'', test_status client ''/resolve/fake-clean'' 404 ''status = %d, want 404 (no live registration -> not resolvable)''),
      (''GET /registrations'', test_status client ''/registrations'' 200 ''status = %d, want 200''),
      (''POST /register (fail-closed without schema registry)'', test_register client expect),
      (''POST /projects/{name}/reset'', test_reset client expect),
      (''POST /mcp (agent drives delightd's own tools)'', test_mcp client J expect)]"

definition verifyControlSurface ::
  "('w, 'j) transport \<Rightarrow> 'w disk \<Rightarrow> nat \<Rightarrow> 'j decoders \<Rightarrow> surfaceExpect \<Rightarrow> 'w \<Rightarrow> 'w \<times> (string \<times> failure list) list" where
  "verifyControlSurface client readDir polls J expect =
     run_subtests (surface_reads client J expect @ [(''POST /projects/{name}/backup'', test_backup client readDir polls expect)])"

section \<open>The daemon behind the transport\<close>

text \<open>
  The \<open>n\<close>-th request is served in the surroundings \<open>envs n\<close>, after whatever \<open>between n\<close> the daemon did by itself. A connection dropped
  by a panic is an error of the client.
\<close>

definition server_transport ::
  "(nat \<Rightarrow> ('b, 'v, 'e, 'c) reqenv) \<Rightarrow> (nat \<Rightarrow> ('b, 'e, 'c) Server \<Rightarrow> ('b, 'e, 'c) Server) \<Rightarrow> (errtext + body \<Rightarrow> 'j)
   \<Rightarrow> (nat \<times> ('b, 'e, 'c) Server, 'j) transport" where
  "server_transport envs between wire r w =
     (case serve (envs (fst w)) r (between (fst w) (snd w)) of
        (t, rep) \<Rightarrow> ((Suc (fst w), t), if rp_status rep = 0 then Inl ''EOF'' else Inr (rp_status rep, wire (rp_body rep))))"

text \<open>
  What the wait reads of the daemon's disk: \<open>fsize\<close> is the size the operating system reports for a file.
\<close>

definition store_disk :: "(string \<Rightarrow> aentry \<Rightarrow> int option) \<Rightarrow> ('w \<Rightarrow> store) \<Rightarrow> 'w disk" where
  "store_disk fsize store_of dir w =
     (w, case store_of w dir of
           None \<Rightarrow> Inl ''no such file or directory''
         | Some es \<Rightarrow> Inr (map (\<lambda>(name, e). (name, e = SubDir, fsize name e)) es))"

text \<open>The synthetic configuration: two projects, the roots, the skills as expected.\<close>

definition suite_config :: "surfaceExpect \<Rightarrow> DelightConfig \<Rightarrow> bool" where
  "suite_config expect cfg \<longleftrightarrow>
     (case Projects cfg of
        [c, d] \<Rightarrow> pc_name c = ''fake-clean'' \<and> pc_path c = cleanPath expect \<and> pc_essential c
          \<and> dp_kind (pc_deploy c) = ''kube'' \<and> dp_deployment (pc_deploy c) = ''fake-clean-agg''
          \<and> pc_name d = ''fake-dirty'' \<and> pc_path d = dirtyPath expect \<and> \<not> pc_essential d
      | _ \<Rightarrow> False)
     \<and> \<not> Degraded cfg \<and> MonitorRoot (System cfg) \<noteq> [] \<and> DaemonRoot (System cfg) \<noteq> [] \<and> ConfigRoot (System cfg) \<noteq> []
     \<and> mcpEnabled cfg = skillsEnabled expect \<and> controlToken expect \<noteq> []"

text \<open>The daemon that serves it: the token and the state home are there, nothing is registered, no machine of the drive is in error.\<close>

definition suite_server ::
  "('b, 'v) kv \<Rightarrow> (Registration, 'v) codec \<Rightarrow> DelightConfig \<Rightarrow> surfaceExpect \<Rightarrow> ('b, 'e, 'c) Server \<Rightarrow> bool" where
  "suite_server K C cfg expect s \<longleftrightarrow>
     srv_cfg s = cfg \<and> srv_furnishWired s \<and> srv_controlToken s = controlToken expect \<and> srv_enablement s \<noteq> None
     \<and> (case srv_machines s ''fake-dirty'' of None \<Rightarrow> False | Some m \<Rightarrow> CurrentState m \<noteq> StateError)
     \<and> (case srv_reg s of None \<Rightarrow> True | Some b \<Rightarrow> Get K C ''fake-clean'' b = None)
     \<and> (skillsEnabled expect \<longrightarrow> (\<forall>want \<in> set own_tools. \<exists>e \<in> set (ag_tools (srv_skills s)). tool_name (snd e) = want))"

text \<open>
  The surroundings: readable roots, the apiserver as expected, the mocked model, the two trees as the fixture made them, encoders and the state
  home that work, and decoders that read the drive's bodies.
\<close>

definition suite_env ::
  "('b, 'v) kv \<Rightarrow> (Registration, 'v) codec \<Rightarrow> DelightConfig \<Rightarrow> surfaceExpect \<Rightarrow> (string \<Rightarrow> rosterProject) \<Rightarrow> (string \<Rightarrow> string)
   \<Rightarrow> ('b, 'v, 'e, 'c) reqenv \<Rightarrow> bool" where
  "suite_env K C cfg expect project_of service_of q \<longleftrightarrow>
     q_kv q = K \<and> q_codec q = C
     \<and> metrics_dump (fst (q_metrics q)) (snd (q_metrics q)) = []
     \<and> (\<forall>root \<in> {MonitorRoot (System cfg), DaemonRoot (System cfg), ConfigRoot (System cfg)}. q_readDir q root = None)
     \<and> (case q_client q of Inl e \<Rightarrow> False | Inr c \<Rightarrow> q_ready q c = None) = apiserverReachable expect
     \<and> (wantModel expect \<noteq> [] \<longrightarrow> (\<exists>src \<in> set (DiscoverLocalLLMs (q_llm q) (Some cfg)). wantModel expect \<in> set (ms_models src)))
     \<and> \<not> gs_dirty (Gitstate.Collect (q_git q) (cleanPath expect)) \<and> gs_dirty (Gitstate.Collect (q_git q) (dirtyPath expect))
     \<and> 1 \<le> gs_unpushed (Gitstate.Collect (q_git q) (dirtyPath expect)) \<and> \<not> q_late q 1 \<and> set (q_order q) = {..<2}
     \<and> (\<forall>p \<in> set (Projects cfg). \<forall>url. \<exists>raw. q_marshalProject q (projectToProto p url) = Inr raw
          \<and> project_of raw = \<lparr>ro_Name = pc_name p, ro_Path = pc_path p, ro_Essential = pc_essential p,
              ro_DeployKind = dp_kind (pc_deploy p), ro_DeployDeployment = dp_deployment (pc_deploy p)\<rparr>)
     \<and> (\<forall>svc. \<exists>raw. q_marshalService q svc = Inr raw \<and> service_of raw = sv_name svc)
     \<and> (\<forall>r. \<exists>raw. q_marshalRegistration q r = Inr raw)
     \<and> (\<exists>now. enablement_home (q_enstore q) now)
     \<and> (\<forall>k b. snd (snd (es_get (q_enstore q) k b)) = None) \<and> (\<forall>r b. Validate r = None \<and> en_project r = ''fake-clean'' \<longrightarrow> snd (es_put (q_enstore q) r b) = None)
     \<and> q_decodeState q disable_body = Inr (''disabled'', ''integration test'', ''itest'')
     \<and> (case re_decode (q_register q) ''{}'' of Inl e \<Rightarrow> True | Inr req \<Rightarrow> rr_project req = [])
     \<and> (\<exists>params. me_decode (q_mcp q) tools_body False = Inr (''tools/list'', params)) \<and> (\<forall>xs. set (me_order (q_mcp q) xs) = set xs)"

text \<open>
  What the drive needs of \<^verbatim>\<open>encoding/json\<close> and \<^verbatim>\<open>protojson\<close>: a body the server encodes decodes to its fields. \<open>project_of\<close> and \<open>service_of\<close> decode
  one raw message of a list.
\<close>

locale json_wire =
  fixes wire :: "errtext + body \<Rightarrow> 'j" and J :: "'j decoders" and project_of :: "string \<Rightarrow> rosterProject" and service_of :: "string \<Rightarrow> string"
  assumes text_metrics: "dj_text J (wire (Inr (BMetrics t))) = t"
    and text_state: "sr_state st = ''disabled'' \<Longrightarrow> containsSub (dj_text J (wire (Inr (BState (OneState st))))) ''disabled''"
    and read_health: "dj_health J (wire (Inr (BHealth h))) = Inr (hl_status h, int (hl_active_projects h))"
    and read_ready: "dj_ready J (wire (Inr (BReady r))) = Inr (map (\<lambda>c. (rc_name c, rc_ok c)) (rd_checks r))"
    and read_discovery: "dj_discovery J (wire (Inr (BDiscovery d))) = Inr (dr_status d, map ms_models (dr_sources d))"
    and read_roster: "dj_roster J (wire (Inr (BRoster l))) = Inr (map project_of (rosr_projects l))"
    and read_git: "dj_git J (wire (Inr (BGit g))) =
      Inr (map (\<lambda>p. (pg_name p, \<lparr>gp_Dirty = gs_dirty (pg_git p), gp_Unpushed = gs_unpushed (pg_git p)\<rparr>)) (gitr_projects g))"
    and read_projectGit: "dj_projectGit J (wire (Inr (BProjectGit p))) = Inr (gs_dirty (pg_git p))"
    and read_services: "dj_services J (wire (Inr (BServices sl))) = Inr (map service_of (svcr_services sl))"
    and read_tools: "dj_tools J (wire (Inr (BMCP (ToolsList ts)))) = Inr (map tool_name ts)"

section \<open>Facts\<close>

definition passes :: "('w \<Rightarrow> bool) \<Rightarrow> 'w subtest \<Rightarrow> bool" where
  "passes good test \<longleftrightarrow> (\<forall>w. good w \<longrightarrow> good (fst (test w)) \<and> snd (test w) = [])"

lemma run_subtests_pass:
  assumes "\<forall>(name, test) \<in> set tests. passes good test" and "good w"
  shows "good (fst (run_subtests tests w)) \<and> snd (run_subtests tests w) = map (\<lambda>(name, test). (name, [])) tests"
  using assms by (induction tests w rule: run_subtests.induct) (fastforce simp: passes_def split: prod.splits)+

lemma run_subtests_append:
  "run_subtests (xs @ ys) w =
     (case run_subtests xs w of (w1, a) \<Rightarrow> case run_subtests ys w1 of (w2, b) \<Rightarrow> (w2, a @ b))"
  by (induction xs w rule: run_subtests.induct) (auto split: prod.splits)

lemma dispatch_cong: "rq_method r = rq_method r' \<Longrightarrow> rq_path r = rq_path r' \<Longrightarrow> dispatch_in t r = dispatch_in t r'"
  by (induction t) (auto split: option.split)

lemma setBearer_fields [simp]:
  "rq_method (setBearer b r) = rq_method r" "rq_path (setBearer b r) = rq_path r" "rq_body (setBearer b r) = rq_body r"
  "rq_query_type (setBearer b r) = rq_query_type r"
  "b \<noteq> [] \<Longrightarrow> rq_authorization (setBearer b r) = ''Bearer '' @ b"
  by (simp_all add: setBearer_def)

lemma newRequest_fields [simp]:
  "rq_method (newRequest m u b) = m" "rq_path (newRequest m u b) = path_segments u" "rq_body (newRequest m u b) = b"
  "rq_query_type (newRequest m u b) = []"
  by (simp_all add: newRequest_def)

lemma dispatch_bearer: "dispatch_in t (setBearer tok (newRequest m u b)) = dispatch_in t (newRequest m u [])"
  by (rule dispatch_cong) simp_all

text \<open>Where the requests of the drive go.\<close>

lemma suite_dispatch_table:
  "list_all (\<lambda>(m, u, d). dispatch_in (mx_table (Mux mcp [])) (newRequest m u []) = d)
     [(''GET'', ''/health'', Found False RHealth []),
      (''GET'', ''/readyz'', Found False RReadyz []),
      (''GET'', ''/metrics'', Found False RMetrics []),
      (''GET'', ''/discovery/llms'', Found False RDiscovery []),
      (''GET'', ''/projects'', Found False RProjectsAll []),
      (''GET'', ''/git'', Found False RGitAll []),
      (''GET'', ''/projects/fake-dirty/git'', Found False RProjectGit ''fake-dirty''),
      (''GET'', ''/projects/fake-dirty/state'', Found False RProjectState ''fake-dirty''),
      (''GET'', ''/projects/fake-dirty/introspect'', Found False RIntrospect ''fake-dirty''),
      (''GET'', ''/state'', Found False RStateAll []),
      (''GET'', ''/state/fake-clean'', Found False RStateGet ''fake-clean''),
      (''GET'', ''/services'', Found False RServicesAll []),
      (''GET'', ''/services/fake-clean'', Found False RServiceByName ''fake-clean''),
      (''GET'', ''/resolve/fake-clean'', Found False RResolve ''fake-clean''),
      (''GET'', ''/registrations'', Found False RRegistrations []),
      (''PUT'', ''/state/fake-clean'', Found True RStatePut ''fake-clean''),
      (''POST'', ''/register'', Found False RRegister []),
      (''POST'', ''/projects/fake-dirty/reset'', Found True RReset ''fake-dirty''),
      (''POST'', ''/projects/fake-dirty/backup'', Found True RBackup ''fake-dirty''),
      (''POST'', ''/mcp'', (if mcp then Found True RMCP [] else NotFound))]"
proof (cases mcp)
  case True
  then have on: "mcp = True" by simp
  show ?thesis unfolding on by code_simp
next
  case False
  then have off: "mcp = False" by simp
  show ?thesis unfolding off by code_simp
qed

lemmas suite_dispatch = suite_dispatch_table [unfolded list.pred_inject prod.case]

lemma serve_open: "dispatch_in (mx_table (Mux (mcpEnabled (srv_cfg s)) [])) r = Found False h v \<Longrightarrow> serve q r s = handle q h v r s"
  by (simp add: serve_def serve_mux_def)

lemma serve_gated:
  "dispatch_in (mx_table (Mux (mcpEnabled (srv_cfg s)) [])) r = Found True h v \<Longrightarrow> authorised r (srv_controlToken s) \<Longrightarrow>
     serve q r s = handle q h v r s"
  using requireBearer_passes [of "srv_controlToken s" r "handle q h v" s]
  by (auto simp: serve_def serve_mux_def authorised_def bearerPrefix_def)

lemma passesI:
  "(\<And>n s. good (n, s) \<Longrightarrow> \<exists>s'. test (n, s) = ((Suc n, s'), []) \<and> good (Suc n, s')) \<Longrightarrow> passes good test"
  unfolding passes_def by (metis fst_conv snd_conv surj_pair)

lemma suite_projects:
  assumes "suite_config expect cfg"
  obtains c d where "Projects cfg = [c, d]" "pc_name c = ''fake-clean''" "pc_path c = cleanPath expect" "pc_essential c"
    "dp_kind (pc_deploy c) = ''kube''" "dp_deployment (pc_deploy c) = ''fake-clean-agg''" "pc_name d = ''fake-dirty''"
    "pc_path d = dirtyPath expect" "\<not> pc_essential d"
  using assms by (auto simp: suite_config_def split: list.splits)

lemma marshal_all_total:
  assumes "\<forall>m. \<exists>raw. marshal m = Inr raw"
  shows "\<exists>raws. marshal_all marshal ms = Inr raws"
proof (induction ms)
  case (Cons m ms)
  obtain raw where "marshal m = Inr raw" using assms by metis
  with Cons show ?case by auto
qed simp

locale surface_run = json_wire wire J project_of service_of
  for wire :: "errtext + body \<Rightarrow> 'j" and J :: "'j decoders" and project_of :: "string \<Rightarrow> rosterProject" and service_of :: "string \<Rightarrow> string" +
  fixes K :: "('b, 'v) kv" and C :: "(Registration, 'v) codec" and cfg :: DelightConfig and expect :: surfaceExpect
    and envs :: "nat \<Rightarrow> ('b, 'v, 'e, 'c) reqenv" and between :: "nat \<Rightarrow> ('b, 'e, 'c) Server \<Rightarrow> ('b, 'e, 'c) Server"
  assumes config: "suite_config expect cfg" and env: "suite_env K C cfg expect project_of service_of (envs n)"
    and quiet: "suite_server K C cfg expect s \<Longrightarrow> suite_server K C cfg expect (between n s)"
begin

abbreviation ask :: "(nat \<times> ('b, 'e, 'c) Server, 'j) transport" where
  "ask \<equiv> server_transport envs between wire"

abbreviation good :: "nat \<times> ('b, 'e, 'c) Server \<Rightarrow> bool" where
  "good w \<equiv> suite_server K C cfg expect (snd w)"

lemma mcp_cfg: "mcpEnabled cfg = skillsEnabled expect"
  using config by (simp add: suite_config_def)

lemma kept: "good (n, s) \<Longrightarrow> suite_server K C cfg expect (between n s)"
  by (rule quiet) simp

lemma served_cfg: "good (n, s) \<Longrightarrow> srv_cfg (between n s) = cfg"
  using kept by (auto simp: suite_server_def)

text \<open>A read is answered by its handler and changes nothing.\<close>

lemma get_reply:
  assumes "good (n, s)" and "dispatch_in (mx_table (Mux (skillsEnabled expect) [])) (newRequest ''GET'' url []) = Found False h v"
    and "handle (envs n) h v (newRequest ''GET'' url []) (between n s) = (between n s, rep)" and "rp_status rep \<noteq> 0"
  shows "ask (newRequest ''GET'' url []) (n, s) = ((Suc n, between n s), Inr (rp_status rep, wire (rp_body rep)))"
proof -
  have "serve (envs n) (newRequest ''GET'' url []) (between n s) = (between n s, rep)"
    using serve_open [of "between n s" "newRequest ''GET'' url []" h v "envs n"] assms(2,3) served_cfg [OF assms(1)] by (simp add: mcp_cfg)
  then show ?thesis using assms(4) by (simp add: server_transport_def)
qed

lemma get_ok:
  assumes "good (n, s)" and "dispatch_in (mx_table (Mux (skillsEnabled expect) [])) (newRequest ''GET'' url []) = Found False h v"
    and "handle (envs n) h v (newRequest ''GET'' url []) (between n s) = (between n s, writeJSON 200 b)"
  shows "ask (newRequest ''GET'' url []) (n, s) = ((Suc n, between n s), Inr (200, wire (Inr b)))"
  using get_reply [OF assms] by (simp add: writeJSON_def)

lemma status_passes:
  assumes "\<And>n s. good (n, s) \<Longrightarrow> \<exists>b. ask (newRequest ''GET'' url []) (n, s) = ((Suc n, between n s), Inr (want, b))"
  shows "passes good (test_status ask url want fmt)"
proof (rule passesI)
  fix n s
  assume g: "good (n, s)"
  from assms [OF g] obtain b where "ask (newRequest ''GET'' url []) (n, s) = ((Suc n, between n s), Inr (want, b))" ..
  then show "\<exists>s'. test_status ask url want fmt (n, s) = ((Suc n, s'), []) \<and> good (Suc n, s')"
    using kept [OF g] by (simp add: test_status_def getRaw_def checked_def failing_def)
qed

lemma with_body_ok [simp]: "with_body f (writeJSON 200 x) = writeJSON 200 (f x)"
  by (simp add: with_body_def writeJSON_def)

lemma health_passes: "passes good (test_health ask J)"
proof (rule passesI)
  fix n s
  assume g: "good (n, s)"
  obtain c d where ps: "Projects cfg = [c, d]" by (rule suite_projects [OF config])
  have "ask (newRequest ''GET'' ''/health'' []) (n, s) = ((Suc n, between n s), Inr (200, wire (Inr (BHealth
      \<lparr>hl_status = ''ok'', hl_active_projects = length (Projects cfg), hl_dry_run = srv_dryRun (between n s), hl_degraded = False, hl_warnings = LoadWarnings cfg\<rparr>))))"
    by (rule get_ok [OF g, where h = RHealth and v = "[]"])
      (use ps config served_cfg [OF g] in \<open>simp_all add: suite_dispatch handle_def handleHealth_def suite_config_def\<close>)
  then show "\<exists>s'. test_health ask J (n, s) = ((Suc n, s'), []) \<and> good (Suc n, s')"
    using kept [OF g] by (simp add: test_health_def mustGetJSON_def checked_def read_health failing_def ps)
qed

lemmas config_facts = config [unfolded suite_config_def]

lemmas env_facts = env [unfolded suite_env_def]

lemma readyz_passes: "passes good (test_readyz ask J expect)"
proof (rule passesI)
  fix n s
  assume g: "good (n, s)"
  let ?u = "between n s" and ?q = "envs n"
  have wired: "srv_furnishWired ?u" using kept [OF g] by (simp add: suite_server_def)
  let ?checks = "[\<lparr>rc_name = ''roots_readable'', rc_ok = True, rc_error = []\<rparr>, checkClusterReady (clusterReady ?q ?u)]"
  have roots: "checkRootsReadable (q_readDir ?q) (System cfg) = \<lparr>rc_name = ''roots_readable'', rc_ok = True, rc_error = []\<rparr>"
    using env_facts [of n] config_facts by (simp add: checkRootsReadable_def)
  define ready where "ready = rc_ok (checkClusterReady (clusterReady ?q ?u))"
  define code :: nat where "code = (if ready then 200 else 503)"
  have rep: "code \<noteq> 0" "handleReadyz (q_readDir ?q) cfg (clusterReady ?q ?u) = writeJSON code \<lparr>rd_ready = ready, rd_checks = ?checks\<rparr>"
    by (simp_all add: handleReadyz_def roots Let_def code_def ready_def)
  have ask: "ask (newRequest ''GET'' ''/readyz'' []) (n, s) = ((Suc n, ?u), Inr (code, wire (Inr (BReady \<lparr>rd_ready = ready, rd_checks = ?checks\<rparr>))))"
    using get_reply [OF g, of "''/readyz''" RReadyz "[]" "with_body BReady (handleReadyz (q_readDir ?q) cfg (clusterReady ?q ?u))"]
      served_cfg [OF g] rep by (simp add: suite_dispatch handle_def with_body_def writeJSON_def)
  have "(clusterReady ?q ?u = None) = apiserverReachable expect"
    using env_facts [of n] wired by (auto simp: clusterReady_def split: sum.splits)
  then have "rc_name (checkClusterReady (clusterReady ?q ?u)) = ''apiserver_reachable''"
    "rc_ok (checkClusterReady (clusterReady ?q ?u)) = apiserverReachable expect"
    by (auto simp: checkClusterReady_def split: option.split)
  then show "\<exists>s'. test_readyz ask J expect (n, s) = ((Suc n, s'), []) \<and> good (Suc n, s')"
    using kept [OF g] by (simp add: test_readyz_def getJSONAnyStatus_def checked_def ask read_ready failing_def go_map_def)
qed

lemma discovery_passes: "passes good (test_discovery ask J expect)"
proof (rule passesI)
  fix n s
  assume g: "good (n, s)"
  have "ask (newRequest ''GET'' ''/discovery/llms'' []) (n, s) = ((Suc n, between n s), Inr (200, wire (Inr (BDiscovery
      \<lparr>dr_status = ''ok'', dr_sources = DiscoverLocalLLMs (q_llm (envs n)) (Some cfg)\<rparr>))))"
    by (rule get_ok [OF g, where h = RDiscovery and v = "[]"])
      (use served_cfg [OF g] in \<open>simp_all add: suite_dispatch handle_def handleDiscovery_def\<close>)
  moreover have "wantModel expect = [] \<or> list_ex (\<lambda>models. wantModel expect \<in> set models) (map ms_models (DiscoverLocalLLMs (q_llm (envs n)) (Some cfg)))"
    using env_facts [of n] by (auto simp: list_ex_iff)
  ultimately show "\<exists>s'. test_discovery ask J expect (n, s) = ((Suc n, s'), []) \<and> good (Suc n, s')"
    using kept [OF g] by (auto simp: test_discovery_def mustGetJSON_def checked_def read_discovery failing_def)
qed

lemma marshalled:
  assumes "p \<in> set (Projects cfg)"
  obtains raw where "q_marshalProject (envs n) (projectToProto p url) = Inr raw"
    "project_of raw = \<lparr>ro_Name = pc_name p, ro_Path = pc_path p, ro_Essential = pc_essential p,
       ro_DeployKind = dp_kind (pc_deploy p), ro_DeployDeployment = dp_deployment (pc_deploy p)\<rparr>"
proof -
  have "\<forall>p \<in> set (Projects cfg). \<forall>url. \<exists>raw. q_marshalProject (envs n) (projectToProto p url) = Inr raw
      \<and> project_of raw = \<lparr>ro_Name = pc_name p, ro_Path = pc_path p, ro_Essential = pc_essential p,
          ro_DeployKind = dp_kind (pc_deploy p), ro_DeployDeployment = dp_deployment (pc_deploy p)\<rparr>"
    using env_facts [of n] by (elim conjE)
  then show thesis using assms that by metis
qed

lemma projects_passes: "passes good (test_projects ask J expect)"
proof (rule passesI)
  fix n s
  assume g: "good (n, s)"
  let ?q = "envs n"
  obtain c d where ps: "Projects cfg = [c, d]" and c: "pc_name c = ''fake-clean''" "pc_path c = cleanPath expect" "pc_essential c"
    "dp_kind (pc_deploy c) = ''kube''" "dp_deployment (pc_deploy c) = ''fake-clean-agg''" and d: "pc_name d = ''fake-dirty''" "\<not> pc_essential d"
    by (rule suite_projects [OF config])
  let ?m = "\<lambda>p. projectToProto p (RemoteURL (q_git ?q) (pc_path p))"
  obtain rc where rc: "q_marshalProject ?q (?m c) = Inr rc" "project_of rc = \<lparr>ro_Name = pc_name c, ro_Path = pc_path c, ro_Essential = pc_essential c,
      ro_DeployKind = dp_kind (pc_deploy c), ro_DeployDeployment = dp_deployment (pc_deploy c)\<rparr>"
    by (rule marshalled [of c n]) (simp add: ps)
  obtain rd where rd: "q_marshalProject ?q (?m d) = Inr rd" "project_of rd = \<lparr>ro_Name = pc_name d, ro_Path = pc_path d, ro_Essential = pc_essential d,
      ro_DeployKind = dp_kind (pc_deploy d), ro_DeployDeployment = dp_deployment (pc_deploy d)\<rparr>"
    by (rule marshalled [of d n]) (simp add: ps)
  have "ask (newRequest ''GET'' ''/projects'' []) (n, s) = ((Suc n, between n s), Inr (200, wire (Inr (BRoster \<lparr>rosr_status = ''ok'', rosr_projects = [rc, rd]\<rparr>))))"
    by (rule get_ok [OF g, where h = RProjectsAll and v = "[]"])
      (use served_cfg [OF g] rc(1) rd(1) in \<open>simp_all add: suite_dispatch handle_def handleProjectsAll_def ps\<close>)
  then show "\<exists>s'. test_projects ask J expect (n, s) = ((Suc n, s'), []) \<and> good (Suc n, s')"
    using kept [OF g] rc(2) rd(2) c d
    by (simp add: test_projects_def fetchRoster_def mustGetJSON_def checked_def read_roster failing_def go_len_def go_get_def go_map_def)
qed

lemma project_lookup:
  obtains c d where "Projects cfg = [c, d]" "find (\<lambda>p. pc_name p = ''fake-clean'') (Projects cfg) = Some c"
    "find (\<lambda>p. pc_name p = ''fake-dirty'') (Projects cfg) = Some d" "pc_path c = cleanPath expect" "pc_path d = dirtyPath expect"
    "pc_name c = ''fake-clean''" "pc_name d = ''fake-dirty''"
  by (rule suite_projects [OF config]) simp

lemma sweep_of_two:
  obtains gc where "CollectAll (q_git (envs n)) (q_late (envs n)) (q_order (envs n)) (Projects cfg) =
      [\<lparr>pg_name = ''fake-clean'', pg_git = gc\<rparr>, \<lparr>pg_name = ''fake-dirty'', pg_git = Gitstate.Collect (q_git (envs n)) (dirtyPath expect)\<rparr>]"
    "\<not> gs_dirty gc"
proof -
  obtain c d where ps: "Projects cfg = [c, d]" "pc_path c = cleanPath expect" "pc_path d = dirtyPath expect"
    "pc_name c = ''fake-clean''" "pc_name d = ''fake-dirty''" by (rule project_lookup)
  let ?q = "envs n"
  define gc where "gc = collectWithTimeout (q_git ?q) (q_late ?q 0) (cleanPath expect)"
  have "set (q_order ?q) = {..<length (Projects cfg)}" using env_facts [of n] ps(1) by simp
  then have "CollectAll (q_git ?q) (q_late ?q) (q_order ?q) (Projects cfg) =
      sort_key pg_name (map (slot (q_git ?q) (q_late ?q) (Projects cfg)) [0..<length (Projects cfg)])"
    unfolding CollectAll_def by (simp only: fold_slots_all)
  also have "map (slot (q_git ?q) (q_late ?q) (Projects cfg)) [0..<length (Projects cfg)] =
      [\<lparr>pg_name = ''fake-clean'', pg_git = gc\<rparr>, \<lparr>pg_name = ''fake-dirty'', pg_git = Gitstate.Collect (q_git ?q) (dirtyPath expect)\<rparr>]"
    using env_facts [of n] by (simp add: ps slot_def gc_def collectWithTimeout_def upt_rec)
  also have "sort_key pg_name [\<lparr>pg_name = ''fake-clean'', pg_git = gc\<rparr>, \<lparr>pg_name = ''fake-dirty'', pg_git = Gitstate.Collect (q_git ?q) (dirtyPath expect)\<rparr>] =
      [\<lparr>pg_name = ''fake-clean'', pg_git = gc\<rparr>, \<lparr>pg_name = ''fake-dirty'', pg_git = Gitstate.Collect (q_git ?q) (dirtyPath expect)\<rparr>]"
  proof -
    have "''fake-clean'' \<le> (''fake-dirty'' :: string)" by code_simp
    then show ?thesis by simp
  qed
  finally show thesis
    by (rule that) (use env_facts [of n] in \<open>simp add: gc_def collectWithTimeout_def zero_git_def\<close>)
qed

lemma git_passes: "passes good (test_git ask J)"
proof (rule passesI)
  fix n s
  assume g: "good (n, s)"
  obtain gc where sweep: "CollectAll (q_git (envs n)) (q_late (envs n)) (q_order (envs n)) (Projects cfg) =
      [\<lparr>pg_name = ''fake-clean'', pg_git = gc\<rparr>, \<lparr>pg_name = ''fake-dirty'', pg_git = Gitstate.Collect (q_git (envs n)) (dirtyPath expect)\<rparr>]"
    "\<not> gs_dirty gc" by (rule sweep_of_two)
  have "ask (newRequest ''GET'' ''/git'' []) (n, s) = ((Suc n, between n s), Inr (200, wire (Inr (BGit \<lparr>gitr_status = ''ok'',
      gitr_projects = CollectAll (q_git (envs n)) (q_late (envs n)) (q_order (envs n)) (Projects cfg)\<rparr>))))"
    by (rule get_ok [OF g, where h = RGitAll and v = "[]"])
      (use served_cfg [OF g] in \<open>simp_all add: suite_dispatch handle_def handleGitAll_def\<close>)
  then show "\<exists>s'. test_git ask J (n, s) = ((Suc n, s'), []) \<and> good (Suc n, s')"
    using kept [OF g] env_facts [of n] sweep
    by (simp add: test_git_def fetchGitAll_def mustGetJSON_def checked_def read_git failing_def go_len_def go_get_def go_map_def)
qed

lemma projectGit_passes: "passes good (test_projectGit ask J)"
proof (rule passesI)
  fix n s
  assume g: "good (n, s)"
  obtain d where d: "find (\<lambda>p. pc_name p = ''fake-dirty'') (Projects cfg) = Some d" "pc_path d = dirtyPath expect" by (rule project_lookup)
  have "ask (newRequest ''GET'' ''/projects/fake-dirty/git'' []) (n, s) = ((Suc n, between n s), Inr (200, wire (Inr (BProjectGit
      \<lparr>pg_name = pc_name d, pg_git = Gitstate.Collect (q_git (envs n)) (dirtyPath expect)\<rparr>))))"
    by (rule get_ok [OF g, where h = RProjectGit and v = "''fake-dirty''"])
      (use served_cfg [OF g] d in \<open>simp_all add: suite_dispatch handle_def handleProjectGit_def\<close>)
  then show "\<exists>s'. test_projectGit ask J (n, s) = ((Suc n, s'), []) \<and> good (Suc n, s')"
    using kept [OF g] env_facts [of n]
    by (simp add: test_projectGit_def mustGetJSON_def checked_def read_projectGit failing_def)
qed

lemma env_kv: "q_kv (envs n) = K" "q_codec (envs n) = C"
proof -
  show "q_kv (envs n) = K" using env_facts [of n] by (elim conjE)
  show "q_codec (envs n) = C" using env_facts [of n] by (elim conjE)
qed

lemma dirty_machine:
  assumes "good (n, s)"
  obtains m where "srv_machines (between n s) ''fake-dirty'' = Some m" "CurrentState m \<noteq> StateError"
  using kept [OF assms] by (auto simp: suite_server_def split: option.splits)

lemma projectState_passes: "passes good (test_status ask ''/projects/fake-dirty/state'' 200 fmt)"
proof (rule status_passes)
  fix n s
  assume g: "good (n, s)"
  obtain m where m: "srv_machines (between n s) ''fake-dirty'' = Some m" using dirty_machine [OF g] by blast
  have "ask (newRequest ''GET'' ''/projects/fake-dirty/state'' []) (n, s) = ((Suc n, between n s), Inr (200, wire (Inr (BDiagnostics (GetDiagnostics m)))))"
    by (rule get_ok [OF g, where h = RProjectState and v = "''fake-dirty''"])
      (use m in \<open>simp_all add: suite_dispatch handle_def handleProjectState_def\<close>)
  then show "\<exists>b. ask (newRequest ''GET'' ''/projects/fake-dirty/state'' []) (n, s) = ((Suc n, between n s), Inr (200, b))" by blast
qed

lemma introspect_passes: "passes good (test_status ask ''/projects/fake-dirty/introspect'' 200 fmt)"
proof (rule status_passes)
  fix n s
  assume g: "good (n, s)"
  have "ask (newRequest ''GET'' ''/projects/fake-dirty/introspect'' []) (n, s) =
      ((Suc n, between n s), Inr (200, wire (Inr (BIntrospect (ServiceStatus (q_fragment (envs n)) (srv_machines (between n s)) ''fake-dirty'')))))"
    by (rule get_ok [OF g, where h = RIntrospect and v = "''fake-dirty''"])
      (simp_all add: suite_dispatch handle_def introspect_Handler_def)
  then show "\<exists>b. ask (newRequest ''GET'' ''/projects/fake-dirty/introspect'' []) (n, s) = ((Suc n, between n s), Inr (200, b))" by blast
qed

lemma state_home_reads: "\<exists>rec found. es_get (q_enstore (envs n)) k b = (rec, found, None)"
proof -
  have "snd (snd (es_get (q_enstore (envs n)) k b)) = None" using env_facts [of n] by (elim conjE) blast
  then show ?thesis by (metis prod.collapse)
qed

lemma state_loop_reads: "\<exists>out. state_loop (q_enstore (envs n)) b ps = Inr out"
proof (induction ps)
  case (Cons p ps)
  obtain rec found where "es_get (q_enstore (envs n)) (pc_name p) b = (rec, found, None)" using state_home_reads by blast
  with Cons show ?case by auto
qed simp

lemma state_home:
  assumes "good (n, s)"
  obtains b where "srv_enablement (between n s) = Some b"
  using kept [OF assms] by (auto simp: suite_server_def)

lemma knownProjects: "knownProject cfg ''fake-clean''" "knownProject cfg ''fake-dirty''" "\<not> managesProject cfg []"
proof -
  obtain c d where "Projects cfg = [c, d]" "pc_name c = ''fake-clean''" "pc_name d = ''fake-dirty''" by (rule project_lookup)
  then show "knownProject cfg ''fake-clean''" "knownProject cfg ''fake-dirty''" "\<not> managesProject cfg []"
    by (simp_all add: knownProject_def managesProject_def)
qed

lemma stateAll_passes: "passes good (test_status ask ''/state'' 200 fmt)"
proof (rule status_passes)
  fix n s
  assume g: "good (n, s)"
  obtain b where b: "srv_enablement (between n s) = Some b" by (rule state_home [OF g])
  obtain out where out: "state_loop (q_enstore (envs n)) b (Projects cfg) = Inr out" using state_loop_reads by blast
  have "ask (newRequest ''GET'' ''/state'' []) (n, s) = ((Suc n, between n s), Inr (200, wire (Inr (BState (AllStates out)))))"
    by (rule get_ok [OF g, where h = RStateAll and v = "[]"])
      (use served_cfg [OF g] b out in \<open>simp_all add: suite_dispatch handle_def handleStateAll_def\<close>)
  then show "\<exists>b. ask (newRequest ''GET'' ''/state'' []) (n, s) = ((Suc n, between n s), Inr (200, b))" by blast
qed

lemma stateGet_passes: "passes good (test_status ask ''/state/fake-clean'' 200 fmt)"
proof (rule status_passes)
  fix n s
  assume g: "good (n, s)"
  obtain b where b: "srv_enablement (between n s) = Some b" by (rule state_home [OF g])
  obtain rec found where read: "es_get (q_enstore (envs n)) ''fake-clean'' b = (rec, found, None)" using state_home_reads by blast
  have "ask (newRequest ''GET'' ''/state/fake-clean'' []) (n, s) =
      ((Suc n, between n s), Inr (200, wire (Inr (BState (OneState (renderState ''fake-clean'' rec found))))))"
    by (rule get_ok [OF g, where h = RStateGet and v = "''fake-clean''"])
      (use served_cfg [OF g] b read in \<open>simp_all add: suite_dispatch handle_def handleStateGet_def knownProjects\<close>)
  then show "\<exists>b. ask (newRequest ''GET'' ''/state/fake-clean'' []) (n, s) = ((Suc n, between n s), Inr (200, b))" by blast
qed

lemma composed:
  obtains raw where "q_marshalService (envs n) (composeService K' C' ms reg p gs) = Inr raw" "service_of raw = pc_name p"
proof -
  have "\<forall>svc. \<exists>raw. q_marshalService (envs n) svc = Inr raw \<and> service_of raw = sv_name svc"
    using env_facts [of n] by (elim conjE)
  moreover have "sv_name (composeService K' C' ms reg p gs) = pc_name p"
    by (simp add: composeService_def Let_def split: option.split)
  ultimately show thesis using that by metis
qed

lemma services_passes: "passes good (test_services ask J)"
proof (rule passesI)
  fix n s
  assume g: "good (n, s)"
  let ?q = "envs n" and ?u = "between n s"
  let ?gs = "CollectAll (q_git ?q) (q_late ?q) (q_order ?q) (Projects cfg)"
  let ?svc = "\<lambda>p. composeService (q_kv ?q) (q_codec ?q) (srv_machines ?u) (srv_reg ?u) p (gitByName ?gs (pc_name p))"
  obtain c d where ps: "Projects cfg = [c, d]" and names: "pc_name c = ''fake-clean''" "pc_name d = ''fake-dirty''" by (rule project_lookup)
  have blank: "trimSpace [] = []" by code_simp
  obtain rc where rc: "q_marshalService ?q (?svc c) = Inr rc" "service_of rc = pc_name c" by (rule composed)
  obtain rd where rd: "q_marshalService ?q (?svc d) = Inr rd" "service_of rd = pc_name d" by (rule composed)
  have "services_loop ?svc (q_marshalService ?q) SERVICE_TYPE_UNSPECIFIED (Projects cfg) [] = Inr [rc, rd]"
    using rc(1) rd(1) by (simp add: ps)
  then have "handleServicesAll (q_kv ?q) (q_codec ?q) (q_marshalService ?q) (srv_machines ?u) (srv_reg ?u) (q_git ?q) (q_late ?q) (q_order ?q) cfg []
      = writeJSON 200 [rc, rd]"
    by (simp add: handleServicesAll_def blank Let_def)
  then have "ask (newRequest ''GET'' ''/services'' []) (n, s) =
      ((Suc n, ?u), Inr (200, wire (Inr (BServices \<lparr>svcr_status = ''ok'', svcr_services = [rc, rd]\<rparr>))))"
    by (intro get_ok [OF g, where h = RServicesAll and v = "[]"]) (simp_all add: suite_dispatch handle_def served_cfg [OF g])
  then show "\<exists>s'. test_services ask J (n, s) = ((Suc n, s'), []) \<and> good (Suc n, s')"
    using kept [OF g] rc(2) rd(2) names by (simp add: test_services_def mustGetJSON_def checked_def read_services failing_def)
qed

lemma serviceByName_passes: "passes good (test_status ask ''/services/fake-clean'' 200 fmt)"
proof (rule status_passes)
  fix n s
  assume g: "good (n, s)"
  let ?q = "envs n" and ?u = "between n s"
  obtain c where c: "find (\<lambda>p. pc_name p = ''fake-clean'') (Projects cfg) = Some c" by (rule project_lookup)
  obtain raw where raw: "q_marshalService ?q (composeService (q_kv ?q) (q_codec ?q) (srv_machines ?u) (srv_reg ?u) c
      (Gitstate.Collect (q_git ?q) (pc_path c))) = Inr raw" by (rule composed)
  have "ask (newRequest ''GET'' ''/services/fake-clean'' []) (n, s) = ((Suc n, ?u), Inr (200, wire (Inr (BEntity raw))))"
    by (rule get_ok [OF g, where h = RServiceByName and v = "''fake-clean''"])
      (use raw c in \<open>simp_all add: suite_dispatch handle_def handleServiceByName_def served_cfg [OF g]\<close>)
  then show "\<exists>b. ask (newRequest ''GET'' ''/services/fake-clean'' []) (n, s) = ((Suc n, between n s), Inr (200, b))" by blast
qed

lemma resolve_passes: "passes good (test_status ask ''/resolve/fake-clean'' 404 fmt)"
proof (rule status_passes)
  fix n s
  assume g: "good (n, s)"
  let ?q = "envs n" and ?u = "between n s"
  have "case srv_reg ?u of None \<Rightarrow> True | Some b \<Rightarrow> Get K C ''fake-clean'' b = None" using kept [OF g] by (simp add: suite_server_def)
  then have "handleResolve (q_kv ?q) (q_codec ?q) (q_marshalResolved ?q) (srv_reg ?u) ''fake-clean'' = writeError 404 (Msg ''service not resolvable'')"
    by (cases "srv_reg ?u") (simp_all add: handleResolve_def env_kv)
  then have "ask (newRequest ''GET'' ''/resolve/fake-clean'' []) (n, s) = ((Suc n, ?u), Inr (404, wire (Inl (Msg ''service not resolvable''))))"
    using get_reply [OF g, of "''/resolve/fake-clean''" RResolve "''fake-clean''" "writeError 404 (Msg ''service not resolvable'')"]
    by (simp add: suite_dispatch handle_def with_body_def writeError_def)
  then show "\<exists>b. ask (newRequest ''GET'' ''/resolve/fake-clean'' []) (n, s) = ((Suc n, between n s), Inr (404, b))" by blast
qed

lemma registrations_passes: "passes good (test_status ask ''/registrations'' 200 fmt)"
proof (rule status_passes)
  fix n s
  assume g: "good (n, s)"
  let ?q = "envs n" and ?u = "between n s"
  have "\<forall>r. \<exists>raw. q_marshalRegistration ?q r = Inr raw" using env_facts [of n] by (elim conjE)
  note total = marshal_all_total [OF this]
  obtain raws where "handleRegistrations (q_kv ?q) (q_codec ?q) (q_marshalRegistration ?q) (srv_reg ?u) = writeJSON 200 raws"
    unfolding handleRegistrations_def Let_def using total by (metis sum.simps(6))
  then have "ask (newRequest ''GET'' ''/registrations'' []) (n, s) =
      ((Suc n, ?u), Inr (200, wire (Inr (BRegistrations \<lparr>regr_status = ''ok'', regr_registrations = raws\<rparr>))))"
    by (intro get_ok [OF g, where h = RRegistrations and v = "[]"]) (simp_all add: suite_dispatch handle_def)
  then show "\<exists>b. ask (newRequest ''GET'' ''/registrations'' []) (n, s) = ((Suc n, between n s), Inr (200, b))" by blast
qed

text \<open>A write carries the token the daemon was started with, so a gate lets it through.\<close>

lemma write_reply:
  assumes "good (n, s)" and "dispatch_in (mx_table (Mux (skillsEnabled expect) [])) (newRequest m url []) = Found gated h v"
    and "handle (envs n) h v (setBearer (controlToken expect) (newRequest m url body)) (between n s) = (t, rep)" and "rp_status rep \<noteq> 0"
  shows "ask (setBearer (controlToken expect) (newRequest m url body)) (n, s) = ((Suc n, t), Inr (rp_status rep, wire (rp_body rep)))"
proof -
  let ?r = "setBearer (controlToken expect) (newRequest m url body)" and ?u = "between n s"
  have tok: "controlToken expect \<noteq> []" using config by (simp add: suite_config_def)
  have "srv_controlToken ?u = controlToken expect" using kept [OF assms(1)] by (simp add: suite_server_def)
  then have auth: "authorised ?r (srv_controlToken ?u)" using tok by (simp add: authorised_def)
  have "dispatch_in (mx_table (Mux (mcpEnabled (srv_cfg ?u)) [])) ?r = Found gated h v"
    using assms(2) by (simp add: dispatch_bearer served_cfg [OF assms(1)] mcp_cfg)
  then have "serve (envs n) ?r ?u = (t, rep)"
    using serve_open [of ?u ?r h v "envs n"] serve_gated [of ?u ?r h v "envs n"] auth assms(3) by (cases gated) simp_all
  then show ?thesis using assms(4) by (simp add: server_transport_def)
qed

lemma write_ok:
  assumes "good (n, s)" and "dispatch_in (mx_table (Mux (skillsEnabled expect) [])) (newRequest m url []) = Found gated h v"
    and "handle (envs n) h v (setBearer (controlToken expect) (newRequest m url body)) (between n s) = (t, writeJSON 200 b)"
  shows "ask (setBearer (controlToken expect) (newRequest m url body)) (n, s) = ((Suc n, t), Inr (200, wire (Inr b)))"
  using write_reply [OF assms] by (simp add: writeJSON_def)

lemma suite_fields [simp]:
  "suite_server K C cfg expect (s\<lparr>srv_bus := x\<rparr>) = suite_server K C cfg expect s"
  "suite_server K C cfg expect (s\<lparr>srv_effects := y\<rparr>) = suite_server K C cfg expect s"
  "suite_server K C cfg expect s \<Longrightarrow> suite_server K C cfg expect (s\<lparr>srv_enablement := Some b\<rparr>)"
  by (simp_all add: suite_server_def)

lemma suite_machine:
  "suite_server K C cfg expect s \<Longrightarrow> CurrentState m \<noteq> StateError \<Longrightarrow>
     suite_server K C cfg expect (s\<lparr>srv_machines := (srv_machines s)(''fake-dirty'' \<mapsto> m)\<rparr>)"
  by (simp add: suite_server_def)

lemma disabled_stored:
  obtains b' rec where "es_put (q_enstore (envs n)) \<lparr>en_project = ''fake-clean'', en_state = ''disabled'', en_reason = ''integration test'',
      en_actor = ''itest'', en_changed_at = zero_time\<rparr> b = (b', None)"
    "es_get (q_enstore (envs n)) ''fake-clean'' b' = (rec, True, None)" "en_state rec = ''disabled''"
proof -
  let ?E = "q_enstore (envs n)"
  let ?r = "\<lparr>en_project = ''fake-clean'', en_state = ''disabled'', en_reason = ''integration test'', en_actor = ''itest'', en_changed_at = zero_time\<rparr>"
  have puts: "\<forall>r b. Validate r = None \<and> en_project r = ''fake-clean'' \<longrightarrow> snd (es_put ?E r b) = None" using env_facts [of n] by (elim conjE)
  obtain now where home: "enablement_home ?E now" using env_facts [of n] by (elim conjE) blast
  have "Validate ?r = None" by (simp add: Validate_def StateDisabled_def StateEnabled_def)
  then obtain b' where b': "es_put ?E ?r b = (b', None)" using puts [rule_format, of ?r b] by (cases "es_put ?E ?r b") simp
  have "snd (snd (es_get ?E (en_project ?r) b')) = None" using state_home_reads [of n "en_project ?r" b'] by auto
  from enablement_home.put_get [OF home b' this]
  have get: "es_get ?E ''fake-clean'' b' = (?r\<lparr>en_changed_at := now\<rparr>, True, None)" by simp
  show thesis by (rule that [OF b' get]) simp
qed

lemma statePut_passes: "passes good (test_statePut ask J expect)"
proof (rule passesI)
  fix n s
  assume g: "good (n, s)"
  obtain b where b: "srv_enablement (between n s) = Some b" by (rule state_home [OF g])
  obtain b' rec where put: "es_put (q_enstore (envs n)) \<lparr>en_project = ''fake-clean'', en_state = ''disabled'', en_reason = ''integration test'',
      en_actor = ''itest'', en_changed_at = zero_time\<rparr> b = (b', None)"
    and get: "es_get (q_enstore (envs n)) ''fake-clean'' b' = (rec, True, None)" "en_state rec = ''disabled''" by (rule disabled_stored)
  have dec: "q_decodeState (envs n) disable_body = Inr (''disabled'', ''integration test'', ''itest'')" using env_facts [of n] by (elim conjE)
  let ?t = "(between n s)\<lparr>srv_enablement := Some b'\<rparr>"
  have "ask (setBearer (controlToken expect) (newRequest ''PUT'' ''/state/fake-clean'' disable_body)) (n, s) =
      ((Suc n, ?t), Inr (200, wire (Inr (BState (OneState (renderState ''fake-clean'' rec True))))))"
    by (rule write_ok [OF g, where h = RStatePut and v = "''fake-clean''" and gated = True])
      (use b put get dec in \<open>simp_all add: suite_dispatch handle_def handleStatePut_def knownProjects served_cfg [OF g]\<close>)
  then show "\<exists>s'. test_statePut ask J expect (n, s) = ((Suc n, s'), []) \<and> good (Suc n, s')"
    using kept [OF g] get(2) by (simp add: test_statePut_def putBody_def checked_def failing_def text_state renderState_def)
qed

lemma register_passes: "passes good (test_register ask expect)"
proof (rule passesI)
  fix n s
  assume g: "good (n, s)"
  let ?q = "envs n" and ?u = "between n s"
  let ?env = "(q_register ?q)\<lparr>re_cfg := cfg, re_codec := q_codec ?q, re_publisher := srv_events ?u\<rparr>"
  let ?r = "setBearer (controlToken expect) (newRequest ''POST'' ''/register'' ''{}'')"
  have dec: "case re_decode (q_register ?q) ''{}'' of Inl e \<Rightarrow> True | Inr req \<Rightarrow> rr_project req = []"
    using env_facts [of n] by (elim conjE)
  obtain st p e c why where refused: "handleRegister (q_kv ?q) ?env ''{}'' \<lparr>rs_reg = srv_reg ?u, rs_events = srv_bus ?u\<rparr> =
      notRegistered ?env st p e c why \<lparr>rs_reg = srv_reg ?u, rs_events = srv_bus ?u\<rparr>" and st: "st \<in> {400, 404}"
  proof (cases "re_read_err (q_register ?q)")
    case True
    then show thesis by (intro that [of 400]) (simp_all add: handleRegister_def)
  next
    case readable: False
    show thesis
    proof (cases "re_decode (q_register ?q) ''{}''")
      case (Inl e)
      with readable show thesis by (intro that [of 400]) (simp_all add: handleRegister_def)
    next
      case (Inr req)
      then have "\<not> managesProject cfg (rr_project req)" using dec knownProjects(3) by simp
      with readable Inr show thesis by (intro that [of 404]) (simp_all add: handleRegister_def Let_def)
    qed
  qed
  define bus where "bus = rs_events (emitNotRegistered ?env p e c why \<lparr>rs_reg = srv_reg ?u, rs_events = srv_bus ?u\<rparr>)"
  have reg: "rs_reg (emitNotRegistered ?env p e c why \<lparr>rs_reg = srv_reg ?u, rs_events = srv_bus ?u\<rparr>) = srv_reg ?u"
    by (simp add: emitNotRegistered_def Let_def split: option.split)
  have "handle ?q RRegister [] ?r ?u = (?u\<lparr>srv_bus := bus\<rparr>, writeError st why)"
    using refused reg by (simp add: handle_def served_cfg [OF g] notRegistered_def bus_def with_body_def writeError_def)
  then have "ask ?r (n, s) = ((Suc n, ?u\<lparr>srv_bus := bus\<rparr>), Inr (st, wire (Inl why)))"
    using write_reply [OF g, of "''POST''" "''/register''" False RRegister "[]" "''{}''" "?u\<lparr>srv_bus := bus\<rparr>" "writeError st why"] st
    by (auto simp: suite_dispatch writeError_def)
  then show "\<exists>s'. test_register ask expect (n, s) = ((Suc n, s'), []) \<and> good (Suc n, s')"
    using kept [OF g] st by (auto simp: test_register_def postBody_def checked_def failing_def)
qed

lemma reset_passes: "passes good (test_reset ask expect)"
proof (rule passesI)
  fix n s
  assume g: "good (n, s)"
  let ?u = "between n s"
  obtain m where m: "srv_machines ?u ''fake-dirty'' = Some m" "CurrentState m \<noteq> StateError" by (rule dirty_machine [OF g])
  let ?t = "?u\<lparr>srv_machines := (srv_machines ?u)(''fake-dirty'' \<mapsto> m)\<rparr>"
  have "ask (setBearer (controlToken expect) (newRequest ''POST'' ''/projects/fake-dirty/reset'' [])) (n, s) =
      ((Suc n, ?t), Inr (200, wire (Inr (BAction \<lparr>pa_status = ''error_cleared'', pa_project = ''fake-dirty''\<rparr>))))"
    by (rule write_ok [OF g, where h = RReset and v = "''fake-dirty''" and gated = True])
      (use m in \<open>simp_all add: suite_dispatch handle_def handleReset_def Transition_def\<close>)
  then show "\<exists>s'. test_reset ask expect (n, s) = ((Suc n, s'), []) \<and> good (Suc n, s')"
    using suite_machine [OF kept [OF g] m(2)] by (simp add: test_reset_def postBody_def checked_def failing_def)
qed

text \<open>The last of the drive: the poke is accepted, and what is left is the wait for the archive.\<close>

lemma backup_accepted:
  assumes g: "good (n, s)"
  obtains m t where "test_backup ask readDir polls expect (n, s) =
      waitForBackupArchive readDir (fp_join [backupsDir expect, ''fake-dirty'']) polls (Suc n, t)"
    "good (Suc n, t)" "srv_machines t ''fake-dirty'' = Some m" "CurrentState m = StateBackingUp"
proof -
  let ?u = "between n s"
  obtain m where m: "srv_machines ?u ''fake-dirty'' = Some m" "CurrentState m \<noteq> StateError" by (rule dirty_machine [OF g])
  define m' where "m' = fst (Transition (q_f2i (envs n)) (q_reading (envs n)) EventTriggerBackup m)"
  have tr: "Transition (q_f2i (envs n)) (q_reading (envs n)) EventTriggerBackup m = (m', None)" "CurrentState m' = StateBackingUp"
    using m(2) by (cases "CurrentState m"; simp add: m'_def Transition_def)+
  let ?t = "?u\<lparr>srv_machines := (srv_machines ?u)(''fake-dirty'' \<mapsto> m')\<rparr>"
  have "ask (setBearer (controlToken expect) (newRequest ''POST'' ''/projects/fake-dirty/backup'' [])) (n, s) =
      ((Suc n, ?t), Inr (200, wire (Inr (BAction \<lparr>pa_status = ''backup_triggered'', pa_project = ''fake-dirty''\<rparr>))))"
    by (rule write_ok [OF g, where h = RBackup and v = "''fake-dirty''" and gated = True])
      (use m tr in \<open>simp_all add: suite_dispatch handle_def handleBackup_def\<close>)
  then show thesis
    using suite_machine [OF kept [OF g], of m'] tr(2) by (intro that [of ?t m']) (simp_all add: test_backup_def postBody_def)
qed

lemma mcp_passes: "passes good (test_mcp ask J expect)"
proof (rule passesI)
  fix n s
  assume g: "good (n, s)"
  let ?q = "envs n" and ?u = "between n s"
  show "\<exists>s'. test_mcp ask J expect (n, s) = ((Suc n, s'), []) \<and> good (Suc n, s')"
  proof (cases "skillsEnabled expect")
    case False
    let ?r = "setBearer (controlToken expect) (newRequest ''POST'' ''/mcp'' ''{}'')"
    have "dispatch_in (mx_table (Mux (mcpEnabled (srv_cfg ?u)) [])) ?r = NotFound"
      using False by (simp add: dispatch_bearer served_cfg [OF g] mcp_cfg suite_dispatch)
    then obtain b where "ask ?r (n, s) = ((Suc n, ?u), Inr (404, b))"
      by (simp add: server_transport_def serve_def serve_mux_def writeError_def)
    then show ?thesis using False kept [OF g] by (simp add: test_mcp_def postBody_def checked_def failing_def)
  next
    case True
    let ?r = "setBearer (controlToken expect) (newRequest ''POST'' ''/mcp'' tools_body)"
    let ?ts = "GetTools (me_order (q_mcp ?q)) (srv_skills ?u)" and ?t = "?u\<lparr>srv_effects := srv_effects ?u @ [no_effects]\<rparr>"
    obtain params where dec: "me_decode (q_mcp ?q) tools_body False = Inr (''tools/list'', params)" using env_facts [of n] by (elim conjE) blast
    have fits: "length tools_body \<le> maxMCPBodyBytes" by (simp add: tools_body_def maxMCPBodyBytes_def)
    have "ask ?r (n, s) = ((Suc n, ?t), Inr (200, wire (Inr (BMCP (ToolsList ?ts)))))"
      by (rule write_ok [OF g, where h = RMCP and v = "[]" and gated = True])
        (use True dec fits in \<open>simp_all add: suite_dispatch handle_def HandleMCP_def not_less [symmetric]\<close>)
    moreover have "\<forall>want \<in> set own_tools. want \<in> set (map tool_name ?ts)"
    proof -
      have "\<forall>xs. set (me_order (q_mcp ?q) xs) = set xs" using env_facts [of n] by (elim conjE)
      moreover have "\<forall>want \<in> set own_tools. \<exists>e \<in> set (ag_tools (srv_skills ?u)). tool_name (snd e) = want"
        using kept [OF g] True by (simp add: suite_server_def)
      ultimately show ?thesis by (force simp: GetTools_def)
    qed
    ultimately show ?thesis using True kept [OF g] by (simp add: test_mcp_def read_tools failing_def)
  qed
qed

lemma metrics_passes: "passes good (test_metrics ask J)"
proof (rule passesI)
  fix n s
  assume g: "good (n, s)"
  have "metrics_dump (fst (q_metrics (envs n))) (snd (q_metrics (envs n))) = []" using env_facts [of n] by (elim conjE)
  then have "ask (newRequest ''GET'' ''/metrics'' []) (n, s) = ((Suc n, between n s), Inr (200, wire (Inr (BMetrics []))))"
    by (intro get_ok [OF g, where h = RMetrics and v = "[]"]) (simp_all add: suite_dispatch handle_def)
  then show "\<exists>s'. test_metrics ask J (n, s) = ((Suc n, s'), []) \<and> good (Suc n, s')"
    using kept [OF g] by (simp add: test_metrics_def getRaw_def checked_def failing_def text_metrics)
qed

lemma reads_pass: "\<forall>(name, test) \<in> set (surface_reads ask J expect). passes good test"
  using health_passes readyz_passes metrics_passes discovery_passes projects_passes git_passes projectGit_passes projectState_passes
    introspect_passes stateAll_passes stateGet_passes statePut_passes services_passes serviceByName_passes resolve_passes registrations_passes
    register_passes reset_passes mcp_passes
  by (simp add: surface_reads_def)

lemma drive:
  assumes "good w"
  obtains k t m where "verifyControlSurface ask readDir polls J expect w =
      (case waitForBackupArchive readDir (fp_join [backupsDir expect, ''fake-dirty'']) polls (k, t) of
         (w', fs) \<Rightarrow> (w', map (\<lambda>(name, test). (name, [])) (surface_reads ask J expect) @ [(''POST /projects/{name}/backup'', fs)]))"
    "srv_machines t ''fake-dirty'' = Some m" "CurrentState m = StateBackingUp"
proof -
  obtain k s where mid: "run_subtests (surface_reads ask J expect) w = ((k, s), map (\<lambda>(name, test). (name, [])) (surface_reads ask J expect))"
    "good (k, s)" using run_subtests_pass [OF reads_pass assms] by (metis prod.collapse)
  obtain m t where last: "test_backup ask readDir polls expect (k, s) =
      waitForBackupArchive readDir (fp_join [backupsDir expect, ''fake-dirty'']) polls (Suc k, t)"
    "srv_machines t ''fake-dirty'' = Some m" "CurrentState m = StateBackingUp" by (rule backup_accepted [OF mid(2), of readDir polls])
  show thesis
    by (rule that [of "Suc k" t m])
      (use mid(1) last in \<open>simp_all add: verifyControlSurface_def run_subtests_append split: prod.split\<close>)
qed

end

lemma showNat_no_hash: "CHR ''#'' \<notin> set (showNat n)"
proof (induction n rule: showNat.induct)
  case (1 n)
  have "digit d \<noteq> CHR ''#''" if "d < 10" for d
  proof
    assume "digit d = CHR ''#''"
    with of_char_digit [OF that] show False by simp
  qed
  with 1 show ?case by (subst showNat_unfold) (auto simp: eq_commute [of "CHR ''#''"])
qed

lemma metrics_dump_no_hash: "\<forall>k \<in> set keys. CHR ''#'' \<notin> set k \<Longrightarrow> CHR ''#'' \<notin> set (metrics_dump keys c)"
  by (induction keys) (auto simp: showInt_def showNat_no_hash split: option.split)

lemma metrics_dump_nonempty: "k \<in> set keys \<Longrightarrow> c k = Some v \<Longrightarrow> metrics_dump keys c \<noteq> []"
  by (induction keys) (auto split: option.split)

lemma on_disk_archive:
  assumes "on_disk limit exclude name es" and "hasSuffix name ''.tgz''"
  shows "\<exists>e \<in> set es. is_archive e"
  using assms(1) unfolding on_disk_def
proof (elim disjE exE conjE)
  fix n flushed
  assume "(name, ArchiveFile (map tar_entry (checkpoint_entries exclude n)) flushed) \<in> set es"
  moreover have "is_archive (name, ArchiveFile (map tar_entry (checkpoint_entries exclude n)) flushed)"
    using assms(2) by (simp add: is_archive_def)
  ultimately show ?thesis by blast
next
  assume "0 < limit" and "nat limit \<le> length (filter ((<) name) (archive_names es))"
  then have "archive_names es \<noteq> []" by auto
  then obtain x where "x \<in> set (archive_names es)" by (meson list.set_sel(1))
  then show ?thesis by (auto simp: set_archive_names)
qed

lemma checkpoint_listed:
  assumes "e \<in> set es" and "is_archive e" and "\<forall>name a. \<exists>k > 0. fsize name a = Some k"
  shows "list_ex is_checkpoint (map (\<lambda>(name, e). (name, e = SubDir, fsize name e)) es)"
proof -
  obtain name a where e: "e = (name, a)" by (cases e)
  obtain k where "0 < k" "fsize name a = Some k" using assms(3) by blast
  then have "is_checkpoint (name, a = SubDir, fsize name a)" using assms(2) by (simp add: is_checkpoint_def is_archive_def e)
  then show ?thesis using assms(1) e by (force simp: list_ex_iff)
qed

lemma surface_runI:
  assumes "json_wire wire J project_of service_of" and "suite_config expect cfg" and "\<forall>n. suite_env K C cfg expect project_of service_of (envs n)"
    and "\<forall>n u. suite_server K C cfg expect u \<longrightarrow> suite_server K C cfg expect (between n u)"
  shows "surface_run wire J project_of service_of K C cfg expect envs between"
  using assms by (intro surface_run.intro surface_run_axioms.intro) simp_all

section \<open>Properties\<close>


text \<open>
  The drive's own check of \<^verbatim>\<open>GET /metrics\<close> fails once any counter exists: it takes a body that is not empty for the exposition
  format only where a \<^verbatim>\<open>#\<close> is in it, and the handler writes a line per counter and no comment.
\<close>

theorem metrics_check_refuses_counters:
  assumes "\<forall>t. dj_text J (wire (Inr (BMetrics t))) = t" and "q_metrics (envs n) = (keys, c)"
    and "\<forall>k \<in> set keys. CHR ''#'' \<notin> set k" and "k \<in> set keys" and "c k = Some v"
  shows "snd (test_metrics (server_transport envs between wire) J (n, s)) = [Errorf ''non-empty body is not prometheus exposition: %.120q'']"
proof -
  have "serve (envs n) (newRequest ''GET'' ''/metrics'' []) u = (u, writeJSON 200 (BMetrics (metrics_dump keys c)))" for u
    using serve_open [of u "newRequest ''GET'' ''/metrics'' []" RMetrics "[]" "envs n"] by (simp add: suite_dispatch handle_def assms(2))
  moreover have "\<not> containsSub (metrics_dump keys c) ''#''"
    using metrics_dump_no_hash [OF assms(3), of c] by (auto simp: containsSub_iff)
  ultimately show ?thesis
    using metrics_dump_nonempty [of k keys c, OF assms(4,5)] assms(1)
    by (simp add: test_metrics_def getRaw_def server_transport_def writeJSON_def checked_def failing_def)
qed

text \<open>
  The drive's wait ends with the first reading after the daemon has reported the checkpoint: as long as the outcome is being counted, published
  and recorded, an archive of the project is in the directory the wait reads, even where the rotation has taken the new one for
  later names. Files are taken to have a positive size.
\<close>

theorem reported_checkpoint_ends_the_wait:
  assumes "runDaemon h False immediate = Some (Inr (w, p))" and "\<forall>q \<in> set (Projects (w_cfg w)). name_ok (pc_name q)"
    and "\<forall>d es. h_store h d = Some es \<longrightarrow> listing_ok es" and "reachable ((=) p) (process_step w) s"
    and "j < length (Projects (w_cfg w))"
    and "ps_loops s j \<in> {GRun (LFinish (Inr res)), GRun (LPublish (Inr res)), GRun (LRecord (Inr res))}"
    and "\<forall>name a. \<exists>k > 0. fsize name a = Some k"
  shows "waitForBackupArchive (store_disk fsize ps_store)
      (fp_join [BackupsRoot (System (w_cfg w)), pc_name (Projects (w_cfg w) ! j)]) (Suc polls) s = (s, [])"
proof -
  let ?p = "Projects (w_cfg w) ! j"
  have no: "\<not> False" by simp
  have "outcome_of (ps_loops s j) = Some (Inr res)" using assms(6) by (auto simp: outcome_of_def)
  note disk = success_on_disk [OF assms(1) no assms(2-5) this]
  then obtain es where es: "ps_store s (archiveDir (w_cfg w) ?p) = Some es"
    "on_disk (MaxArchives (pc_backup ?p)) (Exclude (pc_backup ?p)) (fp_base (ArchivePath res)) es" by blast
  have "\<exists>e \<in> set es. is_archive e"
    using disk by (intro on_disk_archive [OF es(2)]) simp
  then have "list_ex is_checkpoint (map (\<lambda>(name, e). (name, e = SubDir, fsize name e)) es)"
    using checkpoint_listed [OF _ _ assms(7)] by blast
  then show ?thesis using es(1) by (simp add: store_disk_def archiveDir_def)
qed

section \<open>A sample drive\<close>

text \<open>The wire here is the body itself, an encoded message its name.\<close>

definition drive_expect :: surfaceExpect where
  "drive_expect = \<lparr>cleanPath = ''/c'', dirtyPath = ''/d'', apiserverReachable = True, wantModel = ''tiny'', skillsEnabled = True,
     controlToken = ''s3cret'', backupsDir = ''/b''\<rparr>"

definition drive_cfg :: DelightConfig where
  "drive_cfg =
     \<lparr>System = empty_system\<lparr>MonitorRoot := ''/m'', DaemonRoot := ''/r'', ConfigRoot := ''/k'', BackupsRoot := ''/b'',
        AgentSkills := \<lparr>as_enabled = True, as_expose_via = [''mcp'']\<rparr>,
        LLMProviders := [\<lparr>lp_name = ''mock'', lp_type = ''ollama'', lp_url = ''http://mock''\<rparr>]\<rparr>,
      Projects = [(demo_project ''fake-clean'' ''/c'')\<lparr>pc_essential := True,
          pc_deploy := \<lparr>dp_kind = ''kube'', dp_deployment = ''fake-clean-agg'', dp_command = []\<rparr>\<rparr>, demo_project ''fake-dirty'' ''/d''],
      Degraded = False, LoadWarnings = []\<rparr>"

definition drive_skills :: Aggregator where
  "drive_skills = (NewAggregator ''/w'')\<lparr>ag_tools := map (\<lambda>n. (n, \<lparr>tool_name = n, tool_description = [], tool_schema = [],
     tool_handler = \<lparr>h_type = ''http'', h_method = ''GET'', h_url = [], h_command = [], h_args = []\<rparr>\<rparr>)) own_tools\<rparr>"

definition drive_server :: "(Registration bucket, EnRecord bucket, ref_objects) Server" where
  "drive_server = boot demo_kv id_codec drive_cfg False 0 drive_skills None (Some bk_empty) None (Some ''s3cret'') Map.empty"

definition drive_dirty :: gitrepo where
  "drive_dirty = clean_repo\<lparr>gr_status := Inr False\<rparr>"

definition drive_project :: "string \<Rightarrow> rosterProject" where
  "drive_project raw =
     (if raw = ''fake-clean'' then \<lparr>ro_Name = raw, ro_Path = ''/c'', ro_Essential = True, ro_DeployKind = ''kube'', ro_DeployDeployment = ''fake-clean-agg''\<rparr>
      else \<lparr>ro_Name = raw, ro_Path = ''/d'', ro_Essential = False, ro_DeployKind = [], ro_DeployDeployment = []\<rparr>)"

definition drive_env :: "(Registration bucket, Registration, EnRecord bucket, ref_objects) reqenv" where
  "drive_env = sample_reqenv\<lparr>
     q_register := demo_env (\<lambda>b. Inl ''missing project''), q_order := [1, 0],
     q_llm := \<lparr>ln_badURL = (\<lambda>u. False), ln_get = (\<lambda>u. Inr (200, [])), ln_tags = (\<lambda>b. Inr [''tiny''])\<rparr>,
     q_git := \<lparr>go_home = None, go_stat = (\<lambda>p. PathOk), go_open = (\<lambda>p. Inr (if p = ''/c'' then clean_repo else drive_dirty))\<rparr>,
     q_marshalProject := (\<lambda>m. Inr (pm_name m)), q_marshalService := (\<lambda>svc. Inr (sv_name svc)),
     q_decodeState := (\<lambda>b. Inr (''disabled'', ''integration test'', ''itest'')),
     q_mcp := sample_mcpenv\<lparr>me_decode := (\<lambda>b over. Inr (''tools/list'', []))\<rparr>\<rparr>"

definition drive_decoders :: "(errtext + body) decoders" where
  "drive_decoders = \<lparr>
     dj_text = (\<lambda>b. case b of Inr (BMetrics t) \<Rightarrow> t | Inr (BState (OneState st)) \<Rightarrow> sr_state st | _ \<Rightarrow> []),
     dj_health = (\<lambda>b. case b of Inr (BHealth h) \<Rightarrow> Inr (hl_status h, int (hl_active_projects h)) | _ \<Rightarrow> Inl ''type''),
     dj_ready = (\<lambda>b. case b of Inr (BReady r) \<Rightarrow> Inr (map (\<lambda>c. (rc_name c, rc_ok c)) (rd_checks r)) | _ \<Rightarrow> Inl ''type''),
     dj_discovery = (\<lambda>b. case b of Inr (BDiscovery d) \<Rightarrow> Inr (dr_status d, map ms_models (dr_sources d)) | _ \<Rightarrow> Inl ''type''),
     dj_roster = (\<lambda>b. case b of Inr (BRoster l) \<Rightarrow> Inr (map drive_project (rosr_projects l)) | _ \<Rightarrow> Inl ''type''),
     dj_git = (\<lambda>b. case b of Inr (BGit g) \<Rightarrow>
       Inr (map (\<lambda>p. (pg_name p, \<lparr>gp_Dirty = gs_dirty (pg_git p), gp_Unpushed = gs_unpushed (pg_git p)\<rparr>)) (gitr_projects g)) | _ \<Rightarrow> Inl ''type''),
     dj_projectGit = (\<lambda>b. case b of Inr (BProjectGit p) \<Rightarrow> Inr (gs_dirty (pg_git p)) | _ \<Rightarrow> Inl ''type''),
     dj_services = (\<lambda>b. case b of Inr (BServices sl) \<Rightarrow> Inr (svcr_services sl) | _ \<Rightarrow> Inl ''type''),
     dj_tools = (\<lambda>b. case b of Inr (BMCP (ToolsList ts)) \<Rightarrow> Inr (map tool_name ts) | _ \<Rightarrow> Inl ''type'')\<rparr>"

interpretation plain_wire: json_wire id drive_decoders drive_project id
  by unfold_locales (simp_all add: drive_decoders_def hasPrefix_def)

lemma drive_suite_config: "suite_config drive_expect drive_cfg"
  by code_simp

lemma drive_suite_server: "suite_server demo_kv id_codec drive_cfg drive_expect drive_server"
  by (simp add: suite_server_def drive_server_def boot_def NewServer_def UseEnablement_def UseFurnish_def UseControlBearer_def Let_def
      new_machines_def drive_cfg_def demo_project_def NewMachine_def drive_expect_def UseControlToken_def drive_skills_def own_tools_def)

lemma drive_home:
  "snd (snd (es_get (q_enstore drive_env) k b)) = None"
  "Validate r = None \<Longrightarrow> en_project r = ''fake-clean'' \<Longrightarrow> snd (es_put (q_enstore drive_env) r b) = None"
  by (simp_all add: drive_env_def sample_reqenv_def bolt_enstore_def en_get_def en_put_def db_view_def db_update_def ref_kv_def id_codec_def
      Let_def split: option.split prod.split)

lemma drive_suite_env: "suite_env demo_kv id_codec drive_cfg drive_expect drive_project id drive_env"
  unfolding suite_env_def
proof (intro conjI allI impI)
  show "q_kv drive_env = demo_kv" "q_codec drive_env = id_codec" by (simp_all add: drive_env_def sample_reqenv_def)
  show "metrics_dump (fst (q_metrics drive_env)) (snd (q_metrics drive_env)) = []" by (simp add: drive_env_def sample_reqenv_def)
  show "\<forall>root \<in> {MonitorRoot (System drive_cfg), DaemonRoot (System drive_cfg), ConfigRoot (System drive_cfg)}. q_readDir drive_env root = None"
    by (simp add: drive_env_def sample_reqenv_def)
  show "(case q_client drive_env of Inl e \<Rightarrow> False | Inr c \<Rightarrow> q_ready drive_env c = None) = apiserverReachable drive_expect"
    by (simp add: drive_env_def sample_reqenv_def drive_expect_def)
  show "\<exists>src \<in> set (DiscoverLocalLLMs (q_llm drive_env) (Some drive_cfg)). wantModel drive_expect \<in> set (ms_models src)"
    by (simp add: drive_env_def drive_cfg_def drive_expect_def DiscoverLocalLLMs_def provider_source_def checkOllama_def Let_def)
  show "\<not> gs_dirty (Gitstate.Collect (q_git drive_env) (cleanPath drive_expect))" by code_simp
  show "gs_dirty (Gitstate.Collect (q_git drive_env) (dirtyPath drive_expect))" by code_simp
  show "1 \<le> gs_unpushed (Gitstate.Collect (q_git drive_env) (dirtyPath drive_expect))" by code_simp
  show "\<not> q_late drive_env 1" by (simp add: drive_env_def sample_reqenv_def)
  show "set (q_order drive_env) = {..<2}" by (auto simp: drive_env_def)
  show "\<forall>p \<in> set (Projects drive_cfg). \<forall>url. \<exists>raw. q_marshalProject drive_env (projectToProto p url) = Inr raw
          \<and> drive_project raw = \<lparr>ro_Name = pc_name p, ro_Path = pc_path p, ro_Essential = pc_essential p,
              ro_DeployKind = dp_kind (pc_deploy p), ro_DeployDeployment = dp_deployment (pc_deploy p)\<rparr>"
    by (simp add: drive_cfg_def demo_project_def drive_env_def projectToProto_def drive_project_def)
  show "\<exists>raw. q_marshalService drive_env svc = Inr raw \<and> id raw = sv_name svc" for svc by (simp add: drive_env_def)
  show "\<exists>raw. q_marshalRegistration drive_env r = Inr raw" for r by (simp add: drive_env_def sample_reqenv_def)
  have "q_enstore drive_env = bolt_enstore (ref_kv (\<lambda>_. True)) id_codec (\<lambda>r. r) 7" by (simp add: drive_env_def sample_reqenv_def)
  then show "\<exists>now. enablement_home (q_enstore drive_env) now" using refen.home.enablement_home_axioms by metis
  show "snd (snd (es_get (q_enstore drive_env) k b)) = None" for k b by (rule drive_home)
  show "snd (es_put (q_enstore drive_env) r b) = None" if "Validate r = None \<and> en_project r = ''fake-clean''" for r b
    using that by (intro drive_home) simp_all
  show "q_decodeState drive_env disable_body = Inr (''disabled'', ''integration test'', ''itest'')" by (simp add: drive_env_def)
  show "case re_decode (q_register drive_env) ''{}'' of Inl e \<Rightarrow> True | Inr req \<Rightarrow> rr_project req = []" by (simp add: drive_env_def demo_env_def)
  show "\<exists>params. me_decode (q_mcp drive_env) tools_body False = Inr (''tools/list'', params)" by (simp add: drive_env_def)
  show "set (me_order (q_mcp drive_env) xs) = set xs" for xs by (simp add: drive_env_def sample_mcpenv_def)
qed

interpretation sample_run: surface_run id drive_decoders drive_project id demo_kv id_codec drive_cfg drive_expect "\<lambda>n. drive_env" "\<lambda>n s. s"
  by unfold_locales (simp_all add: drive_suite_config drive_suite_env)


theorem metrics_check_refuses_counters_witness:
  "snd (test_metrics (server_transport (\<lambda>n. drive_env\<lparr>q_metrics := ([metric_key ''delightd_git_churn_checks_total'' ''fake-dirty''],
      [metric_key ''delightd_git_churn_checks_total'' ''fake-dirty'' \<mapsto> 1])\<rparr>) (\<lambda>n s. s) id) drive_decoders (0, drive_server)) =
   [Errorf ''non-empty body is not prometheus exposition: %.120q'']"
proof -
  let ?k = "metric_key ''delightd_git_churn_checks_total'' ''fake-dirty''"
  have "CHR ''#'' \<notin> set ?k" by (simp add: metric_key_def)
  then show ?thesis
    by (intro metrics_check_refuses_counters [where k = ?k and keys = "[?k]" and c = "[?k \<mapsto> 1]" and v = 1]) (simp_all add: drive_decoders_def)
qed

theorem reported_checkpoint_ends_the_wait_witness:
  "\<exists>w p s. runDaemon sample_host False True = Some (Inr (w, p)) \<and> reachable ((=) p) (process_step w) s
     \<and> waitForBackupArchive (store_disk (\<lambda>name a. Some 512) ps_store) (fp_join [BackupsRoot (System sample_cfg), ''obs'']) 1 s = (s, [])"
proof (rule sample_backup)
  fix w p s t res
  assume w: "runDaemon sample_host False True = Some (Inr (w, p))" "w_cfg w = sample_cfg"
    and r: "reachable ((=) p) (process_step w) s" "process_step w s t" and t: "ps_loops t 0 = GRun (LFinish (Inr res))"
  have st: "\<forall>d es. h_store sample_host d = Some es \<longrightarrow> listing_ok es" by (simp add: sample_host_def)
  have rt: "reachable ((=) p) (process_step w) t" using r by (rule reach_step)
  from reported_checkpoint_ends_the_wait [OF w(1) _ st rt, of 0 res "\<lambda>name a. Some 512" 0] sample_project_facts t
  have "waitForBackupArchive (store_disk (\<lambda>name a. Some 512) ps_store) (fp_join [BackupsRoot (System sample_cfg), ''obs'']) 1 t = (t, [])"
    by (simp add: w(2) del: waitForBackupArchive.simps)
  then show ?thesis using w(1) rt by blast
qed

end
