(* ===== verification/Spec2Isabelle.thy ===== *)
theory Spec2Isabelle
  imports StateMachine Backup Daemon Registry Enablement Config Gitstate Auth Register HttpApi Furnish
    Events Model Discovery Skills Exports Kube Server Fleet Lifecycle Cli Archives Surface
begin

text \<open>
  A verification development of delightd, the control-plane daemon of a fleet of projects on one host.

  \<^bold>\<open>The program.\<close> delightd loads a roster of projects (\<^verbatim>\<open>config\<close>), keeps one backup state machine per project
  (\<^verbatim>\<open>pkg/state\<close>), watches each working tree for changes (\<^verbatim>\<open>pkg/watcher\<close>, \<^verbatim>\<open>pkg/gitstate\<close>), writes and rotates
  checkpoint archives (\<^verbatim>\<open>pkg/backup\<close>) and publishes their outcome (\<^verbatim>\<open>pkg/events\<close>, \<^verbatim>\<open>pkg/metrics\<close>).
  Services announce themselves on its control port (\<^verbatim>\<open>pkg/httpapi\<close>) and are kept in a registry of leases
  (\<^verbatim>\<open>pkg/registry\<close>) that heartbeats refresh and a sweep expires; a second store holds which projects are enabled
  (\<^verbatim>\<open>pkg/enablement\<close>). The same port converges pieces of the cluster (\<^verbatim>\<open>pkg/furnish\<close>, \<^verbatim>\<open>pkg/kube\<close>) and gives agents the
  tools of all projects (\<^verbatim>\<open>pkg/skills\<close>). Beside it run the synchronisation of exported commands (\<^verbatim>\<open>pkg/exports\<close>) and the
  discovery of model servers with their routes (\<^verbatim>\<open>pkg/discovery\<close>, \<^verbatim>\<open>pkg/traefik\<close>); \<^verbatim>\<open>pkg/model\<close> describes model
  deployments for the command line. \<^verbatim>\<open>cmd/delightd\<close> wires all of it together.

  \<^bold>\<open>The theories.\<close> Each models one part, in the order the code has its definitions, under the names of the code.
  \<^item> \<^verbatim>\<open>Prelude\<close>: Go strings, durations and integer division, the collections of rewrite rules, reachability and the locale
    \<^verbatim>\<open>invariant_system\<close>. \<^verbatim>\<open>Paths\<close>: \<^verbatim>\<open>path/filepath\<close> and \<^verbatim>\<open>expandHome\<close>. \<^verbatim>\<open>Bolt\<close>: the contract of a bbolt bucket and of a codec
    (locales \<^verbatim>\<open>bolt\<close>, \<^verbatim>\<open>codec_law\<close>), interpreted on a bucket that is an ordered list.
  \<^item> \<^verbatim>\<open>StateMachine\<close>: \<^verbatim>\<open>pkg/state/state.go\<close>. The record \<^verbatim>\<open>Machine\<close> and \<^verbatim>\<open>Transition\<close> with its 64-bit backoff arithmetic; every move
    follows the documented automaton, the backoff window below the 28th failure and the wrap-around at it.
  \<^item> \<^verbatim>\<open>Backup\<close>: \<^verbatim>\<open>pkg/backup/backup.go\<close>. Walk, skip rules, tar, rotation and \<^verbatim>\<open>CreateCheckpoint\<close> over a tree and a store of
    directories; what an archive holds, when it fails, what rotation keeps and what a checkpoint may touch.
  \<^item> \<^verbatim>\<open>Daemon\<close>: the per-project loop of \<^verbatim>\<open>runDaemon\<close>. A tick is a sequence of steps, one per lock the code takes (\<^verbatim>\<open>LSelect\<close>, \<^verbatim>\<open>LPolling\<close>, \<^verbatim>\<open>LFinish\<close>,
    \<^verbatim>\<open>LPublish\<close>, \<^verbatim>\<open>LRecord\<close>), so that requests and the other loops come between any two of them; the metrics and the control token.
    Outcomes are always recorded, a churn cycle ends in a published backup.
  \<^item> \<^verbatim>\<open>Registry\<close>, \<^verbatim>\<open>Enablement\<close>: the two stores over the bbolt contract; no endpoint has two holders, sweeps and heartbeats do exactly
    their work, failed transactions change nothing.
  \<^item> \<^verbatim>\<open>Config\<close>: loading, merging of fragments, validation, roots and the lint command. \<^verbatim>\<open>Gitstate\<close>: the git oracle and the churn watcher.
  \<^item> \<^verbatim>\<open>Auth\<close>: requests, replies, route table, dispatch and bearer gate. \<^verbatim>\<open>Register\<close>: the announcement of a service with the
    schema-registry checks. \<^verbatim>\<open>HttpApi\<close>: the other handlers and the \<^verbatim>\<open>/state\<close> surface. \<^verbatim>\<open>Furnish\<close>: pieces, apply, delete, health
    and the furnish command line over the locale \<^verbatim>\<open>apiserver\<close>. \<^verbatim>\<open>Kube\<close>: building and keeping the cluster client.
  \<^item> \<^verbatim>\<open>Events\<close>: schema registration, framing and publishing. \<^verbatim>\<open>Model\<close>: deployment descriptors, ladder, plans and
    rendering. \<^verbatim>\<open>Discovery\<close>: model servers and the route file. \<^verbatim>\<open>Skills\<close>: aggregation of tools, rendering of
    templates, the MCP endpoint and the generated script. \<^verbatim>\<open>Exports\<close>: the links of exported commands over the locale
    \<^verbatim>\<open>bin_directory\<close>.
  \<^item> \<^verbatim>\<open>Server\<close>: the composition of the control port. The \<^verbatim>\<open>Server\<close> record, start-up, every route behind mux and gate, and the interleaving of requests
    with control loops, heartbeats, sweeps and skill scans; the invariant of the server and what one request can change.
  \<^item> \<^verbatim>\<open>Fleet\<close>: the goroutines \<^verbatim>\<open>runDaemon\<close> starts, one per project, over one map of machines, one archive store and one metrics
    table; each is shown to simulate the single loop of \<^verbatim>\<open>Daemon\<close>.
  \<^item> \<^verbatim>\<open>Lifecycle\<close>: \<^verbatim>\<open>runDaemon\<close> itself, \<^verbatim>\<open>cmd/delightd/main.go\<close>. Opening and wiring of stores, publisher, consumer and listener with every early exit,
    the deferred closings in their order, tickers, signals, the shutdown with its deadline, detached event goroutines and their draining, as the step
    relation \<^verbatim>\<open>process_step\<close>; its invariant, refinement by each project's loop, orderly shutdown and what a forced one may lose.
  \<^item> \<^verbatim>\<open>Archives\<close>: the checkpoints of the running process. Along every run a directory under the backup root changes only by the checkpoint of
    the project that owns it, and an outcome the daemon still has to report is on disk.
  \<^item> \<^verbatim>\<open>Surface\<close>: \<^verbatim>\<open>test/integration/control_surface.go\<close>, the acceptance drive: its HTTP helpers, a subtest per documented route and the
    wait for an archive, against any transport. What decodes a reply is the locale \<^verbatim>\<open>json_wire\<close>; with the server of \<^verbatim>\<open>Server\<close> behind the transport
    (locale \<^verbatim>\<open>surface_run\<close>) every subtest is shown to pass.
  \<^item> \<^verbatim>\<open>Cli\<close>: the command tree. Each command's outcome, the rendering of lint and model listings and the exit status.

  \<^bold>\<open>How code becomes definitions.\<close> A struct is a record, an enum a datatype, a Go map a map or, where its order of iteration
  shows, an association list together with the order as an argument. State is passed explicitly; an error is a value of a
  sum or option type, a panic its own outcome. Durations of the backoff, byte counters and schema ids are machine words; times
  are integers, in nanoseconds. What lies outside the repository, the clock, random numbers, file system and
  network answers, JSON, YAML and protobuf codecs, client-go and go-git, is an argument of the definitions that use it. The laws used of
  such arguments are the assumptions of the locales above, and each has an interpretation on a concrete instance. A closed store is one that refuses every transaction. Concurrency is the choice of steps:
  the goroutines of the git sweep are an order of filling slots, requests interleave with ticks between any two locked sections.

  \<^bold>\<open>Bounds and loops.\<close> No definition carries fuel. Recursion is structural or has a measure; the one loop of the code without
  a bound of its own, the numbering of placeholders, is a partial function that is proved to return. Symbolic links are not followed by the
  walk, as in the code, so the tree is finite.

  \<^bold>\<open>What the lemmas show.\<close> The theorems marked C1 to C40 are the claims, in the order of their weight: the invariant of the process, the refinement of the
  single loop by the fleet, recorded outcomes, exact archives, exclusive endpoints, the automaton, the reach of a request, an orderly shutdown, reported
  checkpoints and the gate come first; that the daemon passes its own acceptance drive puts the parts together. Theorems
  without a mark show what the code does where it surprises: wrap-around of the backoff, lost link targets, the panic on a check
  interval of zero, project names with a slash, substitution that depends on map order, wrappers left behind, a check of the acceptance
  drive the daemon cannot meet, or support the claims.

  \<^bold>\<open>Not modelled.\<close> The splitting of a command line into words and flags, which cobra does; logging; the retry and transport behaviour of the Kafka and
  HTTP clients; the bytes of gzip and tar; rendering by kustomize; the text of JSON replies; the embedded schema files
  (\<^verbatim>\<open>proto/embed.go\<close>), which are declarations without code, and the tests proper. They hold no state of the program or belong to libraries.
  Paths of the exports engine name entries directly; a link on the way to one of its directories is the business of the operating system the
  engine is given.
\<close>

end
